(* ===== verification/Prelude.thy ===== *)
theory Prelude
  imports Main "HOL-Library.Word"
begin

text \<open>
  Shared vocabulary of the development: the error type of the Iceberg engine, results as
  sums, the saturating machine arithmetic the runtime uses, and the generic facts on lists
  and options that the component theories rest on.

  Results are values of \<^typ>\<open>'e + 'a\<close>: \<open>Inl e\<close> is Rust's \<open>Err(e)\<close>, \<open>Inr a\<close> is \<open>Ok(a)\<close>.
  Interior mutability (\<open>Cell\<close>, \<open>RefCell\<close>, \<open>OnceCell\<close>) is explicit state passing: an
  operation on a shared reference that may fill a cache returns the result and the new state.
\<close>

named_theorems sat_simps \<open>unfolding of the saturating machine arithmetic\<close>

section \<open>Errors\<close>

text \<open>
  \<open>MetadataCatalogError\<close> and \<open>IcebergError\<close>, in the order of their declarations. A wrapped error
  of another component or crate is carried by its message.
\<close>

datatype metadata_catalog_operation =
  CatalogAccess | CatalogInsert | CatalogRead | CatalogUpdate | CatalogDelete

datatype metadata_catalog_error =
    OperationFailed metadata_catalog_operation string
  | NotFound "32 word"
  | AlreadyExists "32 word"
  | InvalidRecord string
  | Conflict

datatype (plugins only: code size) iceberg_error =
    MetadataCatalog metadata_catalog_error
  | Vacuum string
  | MetadataTracker string
  | FileIdLimitExceeded nat
  | RowIdentityLimitExceeded
  | AnalyzeTidCapacityExceeded
  | MetadataCommitConflict "32 word" int
  | TruncateCommitConflict "32 word"
  | TablespaceStorageError string
  | TableOptionError string
  | StorageError string
  | ObjectCleanupError string
  | AutomaticMaintenanceNotification string
  | ManagedTableLocationMissing "32 word"
  | InvalidManagedTableLocation string string
  | ManagedTableLocationNotEmpty string
  | ManagedTableLocationCleanupPending string
  | PostgresReport string
  | ArrowConversion string
  | TablespaceNotFound
  | NamespaceNull
  | MetadataLocationNull
  | SchemaBuildError string
  | InvalidPartitionDefinition string
  | UnsupportedPartitionDefinition string
  | ColumnNotFound string
  | UnsupportedColumnType string
  | ImportColumnError string string
  | ParseFloatError string
  | DatetimeConversionError string
  | UuidConversionError string
  | NumericError string
  | IcebergLiteError string
  | SchemaEvolutionConflict string
  | ArrowError string
  | ArrowTypeMismatch string
  | SpiError string
  | BinaryCodecError string
  | InvariantViolated string
  | NotImplemented string

type_synonym 'a iceberg_result = "iceberg_error + 'a"

section \<open>Results\<close>

text \<open>
  The \<open>?\<close> operator, \<open>Result::map_err\<close>, and a \<open>for\<close> loop whose body may return early with an
  error.
\<close>

fun and_then :: "'e + 'a \<Rightarrow> ('a \<Rightarrow> 'e + 'b) \<Rightarrow> 'e + 'b" where
  "and_then (Inl e) f = Inl e"
| "and_then (Inr a) f = f a"

fun map_err :: "('e \<Rightarrow> 'f) \<Rightarrow> 'e + 'a \<Rightarrow> 'f + 'a" where
  "map_err g (Inl e) = Inl (g e)"
| "map_err g (Inr a) = Inr a"

fun fold_result :: "('a \<Rightarrow> 'b \<Rightarrow> 'e + 'b) \<Rightarrow> 'a list \<Rightarrow> 'b \<Rightarrow> 'e + 'b" where
  "fold_result f [] b = Inr b"
| "fold_result f (x # xs) b = and_then (f x b) (fold_result f xs)"

lemma and_then_Inr_iff: "and_then r f = Inr b \<longleftrightarrow> (\<exists>a. r = Inr a \<and> f a = Inr b)"
  by (cases r) auto

lemma and_then_Inl_iff: "and_then r f = Inl e \<longleftrightarrow> r = Inl e \<or> (\<exists>a. r = Inr a \<and> f a = Inl e)"
  by (cases r) auto

lemma fold_result_append:
  "fold_result f (xs @ ys) b = and_then (fold_result f xs b) (fold_result f ys)"
proof (induction xs arbitrary: b)
  case (Cons x xs)
  then show ?case by (cases "f x b") auto
qed simp

text \<open>
  Fallible operations with effects on a state \<open>'w\<close>: the state reached is kept on an error, as the
  effects of a Rust function that returns early are.
\<close>

type_synonym ('e, 'a, 'w) act = "'w \<Rightarrow> ('e + 'a) \<times> 'w"

definition ok_act :: "'a \<Rightarrow> ('e, 'a, 'w) act" where
  "ok_act a w = (Inr a, w)"

definition fail_act :: "'e \<Rightarrow> ('e, 'a, 'w) act" where
  "fail_act e w = (Inl e, w)"

definition bind_act :: "('e, 'a, 'w) act \<Rightarrow> ('a \<Rightarrow> ('e, 'b, 'w) act) \<Rightarrow> ('e, 'b, 'w) act" where
  "bind_act m f w = (case m w of (Inl e, w) \<Rightarrow> (Inl e, w) | (Inr a, w) \<Rightarrow> f a w)"

definition map_err_act :: "('e \<Rightarrow> 'f) \<Rightarrow> ('e, 'a, 'w) act \<Rightarrow> ('f, 'a, 'w) act" where
  "map_err_act g m w = (let (r, w) = m w in (map_err g r, w))"

text \<open>A computation without effects, lifted.\<close>

definition lift_act :: "('e + 'a) \<Rightarrow> ('e, 'a, 'w) act" where
  "lift_act r w = (r, w)"

lemma bind_act_Inr_iff:
  "bind_act m f w = (Inr b, w2) \<longleftrightarrow> (\<exists>a w1. m w = (Inr a, w1) \<and> f a w1 = (Inr b, w2))"
  by (auto simp: bind_act_def split: prod.splits sum.splits)

lemma bind_act_InrE:
  assumes "bind_act m f w = (Inr b, w2)"
  obtains a w1 where "m w = (Inr a, w1)" "f a w1 = (Inr b, w2)"
  using assms by (auto simp: bind_act_Inr_iff)

lemma bind_act_Inl_iff:
  "bind_act m f w = (Inl e, w2) \<longleftrightarrow> m w = (Inl e, w2) \<or> (\<exists>a w1. m w = (Inr a, w1) \<and> f a w1 = (Inl e, w2))"
  by (auto simp: bind_act_def split: prod.splits sum.splits)

lemma map_err_act_Inr_iff [simp]: "map_err_act g m w = (Inr a, w1) \<longleftrightarrow> m w = (Inr a, w1)"
proof (cases "m w")
  case (Pair r w2)
  then show ?thesis by (cases r) (auto simp: map_err_act_def)
qed

lemma map_err_act_Inl_iff: "map_err_act g m w = (Inl e, w1) \<longleftrightarrow> (\<exists>d. m w = (Inl d, w1) \<and> e = g d)"
proof (cases "m w")
  case (Pair r w2)
  then show ?thesis by (cases r) (auto simp: map_err_act_def)
qed

lemma act_simps [simp]:
  "ok_act a w = (Inr b, w1) \<longleftrightarrow> a = b \<and> w1 = w"
  "ok_act a w = (Inl e, w1) \<longleftrightarrow> False"
  "fail_act d w = (Inr b, w1) \<longleftrightarrow> False"
  "fail_act d w = (Inl e, w1) \<longleftrightarrow> e = d \<and> w1 = w"
  "lift_act r w = (r', w1) \<longleftrightarrow> r = r' \<and> w1 = w"
  by (auto simp: ok_act_def fail_act_def lift_act_def)

section \<open>Machine types of the source\<close>

type_synonym oid = "32 word"
type_synonym command_id = "32 word"

text \<open>
  Transaction nesting levels are \<open>i32\<close> values that PostgreSQL counts from 1; the model
  keeps them as integers. No operation leaves the range of \<open>i32\<close> on levels of at least 1.
\<close>

type_synonym nest_level = int

definition i32_max :: int where "i32_max = 2147483647"
definition i32_min :: int where "i32_min = -2147483648"
definition i64_max :: int where "i64_max = 9223372036854775807"
definition i64_min :: int where "i64_min = -9223372036854775808"
definition u32_max :: nat where "u32_max = 4294967295"

definition clamp_i64 :: "int \<Rightarrow> int" where
  "clamp_i64 x = max i64_min (min i64_max x)"

definition clamp_i32 :: "int \<Rightarrow> int" where
  "clamp_i32 x = max i32_min (min i32_max x)"

text \<open>\<open>i64::saturating_add\<close>, \<open>i64::saturating_sub\<close> and the \<open>i32\<close> variants.\<close>

definition sat_add_i64 :: "int \<Rightarrow> int \<Rightarrow> int" where
  "sat_add_i64 a b = clamp_i64 (a + b)"

definition sat_sub_i64 :: "int \<Rightarrow> int \<Rightarrow> int" where
  "sat_sub_i64 a b = clamp_i64 (a - b)"

definition sat_add_i32 :: "int \<Rightarrow> int \<Rightarrow> int" where
  "sat_add_i32 a b = clamp_i32 (a + b)"

definition sat_sub_i32 :: "int \<Rightarrow> int \<Rightarrow> int" where
  "sat_sub_i32 a b = clamp_i32 (a - b)"

text \<open>\<open>u32::checked_add\<close>.\<close>

definition checked_add_u32 :: "32 word \<Rightarrow> 32 word \<Rightarrow> 32 word option" where
  "checked_add_u32 a b = (if unat a + unat b < 2 ^ 32 then Some (a + b) else None)"

text \<open>A string between single quotes, as the messages print paths.\<close>

definition quoted :: "string \<Rightarrow> string" where
  "quoted s = CHR 0x27 # s @ [CHR 0x27]"

definition in_i64 :: "int \<Rightarrow> bool" where
  "in_i64 x \<longleftrightarrow> i64_min \<le> x \<and> x \<le> i64_max"

definition in_i32 :: "int \<Rightarrow> bool" where
  "in_i32 x \<longleftrightarrow> i32_min \<le> x \<and> x \<le> i32_max"

lemmas sat_defs [sat_simps] =
  i32_max_def i32_min_def i64_max_def i64_min_def clamp_i64_def clamp_i32_def
  sat_add_i64_def sat_sub_i64_def sat_add_i32_def sat_sub_i32_def in_i64_def in_i32_def

lemma sat_add_i64_in_range [simp]: "in_i64 (sat_add_i64 a b)"
  by (simp add: sat_simps)

lemma sat_sub_i64_in_range [simp]: "in_i64 (sat_sub_i64 a b)"
  by (simp add: sat_simps)

lemma sat_add_i32_in_range [simp]: "in_i32 (sat_add_i32 a b)"
  by (simp add: sat_simps)

lemma sat_add_i64_exact: "in_i64 (a + b) \<Longrightarrow> sat_add_i64 a b = a + b"
  by (auto simp: sat_simps)

lemma sat_add_i64_ge: "in_i64 a \<Longrightarrow> 0 \<le> b \<Longrightarrow> a \<le> sat_add_i64 a b"
  by (auto simp: sat_simps)

section \<open>Lists\<close>

text \<open>Rust's \<open>Iterator::find_map\<close>.\<close>

fun find_map :: "('a \<Rightarrow> 'b option) \<Rightarrow> 'a list \<Rightarrow> 'b option" where
  "find_map f [] = None"
| "find_map f (x # xs) = (case f x of None \<Rightarrow> find_map f xs | Some y \<Rightarrow> Some y)"

lemma find_map_None_iff: "find_map f xs = None \<longleftrightarrow> (\<forall>x \<in> set xs. f x = None)"
  by (induction xs) (auto split: option.splits)

lemma find_map_Some_ex: "find_map f xs = Some y \<Longrightarrow> \<exists>x \<in> set xs. f x = Some y"
  by (induction xs) (auto split: option.splits)

lemma find_map_append:
  "find_map f (xs @ ys) = (case find_map f xs of None \<Rightarrow> find_map f ys | Some y \<Rightarrow> Some y)"
  by (induction xs) (auto split: option.splits)

text \<open>Rust's \<open>Vec::dedup_by_key\<close>: of every run of equal keys the first element stays.\<close>

fun dedup_by_key :: "('a \<Rightarrow> 'k) \<Rightarrow> 'a list \<Rightarrow> 'a list" where
  "dedup_by_key f [] = []"
| "dedup_by_key f [x] = [x]"
| "dedup_by_key f (x # y # xs) =
     (if f y = f x then dedup_by_key f (x # xs) else x # dedup_by_key f (y # xs))"

text \<open>Rust's \<open>Iterator::max\<close> over an iterator that may be empty.\<close>

fun max_option :: "('a :: linorder) list \<Rightarrow> 'a option" where
  "max_option [] = None"
| "max_option (x # xs) = (case max_option xs of None \<Rightarrow> Some x | Some m \<Rightarrow> Some (max x m))"

lemma max_option_None_iff [simp]: "max_option xs = None \<longleftrightarrow> xs = []"
  by (cases xs) (auto split: option.splits)

lemma max_option_less_iff:
  "(case max_option xs of None \<Rightarrow> True | Some m \<Rightarrow> m < c) \<longleftrightarrow> (\<forall>x \<in> set xs. x < c)"
  by (induction xs) (auto split: option.splits)

text \<open>Decimal notation, as \<open>Display\<close> prints unsigned integers.\<close>

fun show_nat :: "nat \<Rightarrow> string" where
  "show_nat n = (if n < 10 then [char_of (48 + n)] else show_nat (n div 10) @ [char_of (48 + n mod 10)])"

declare show_nat.simps [simp del]

lemma filter_True_id: "(\<And>x. x \<in> set xs \<Longrightarrow> P x) \<Longrightarrow> filter P xs = xs"
  by (induction xs) auto

lemma take_take_le: "m \<le> n \<Longrightarrow> take m (take n xs) = take m xs"
  by (simp add: min_def)

end
