(* ===== verification/Savepoints.thy ===== *)
theory Savepoints
  imports Prelude
begin

text \<open>
  The contract every savepoint-aware component of the engine keeps, and what follows from it.

  PostgreSQL runs subtransactions strictly nested and reports each end of one through a
  callback with the nesting level that ends: \<open>SUBXACT_EVENT_COMMIT_SUB\<close> (RELEASE SAVEPOINT)
  and \<open>SUBXACT_EVENT_ABORT_SUB\<close> (ROLLBACK TO SAVEPOINT). A component keeps one flat state and
  tags parts of it with levels. The locale states the laws of such a state over an
  observation \<open>at s k\<close>: what the component shows if everything done at level \<open>k\<close> or deeper
  were rolled back. From the laws it follows, once for all components, that a whole tree of
  nested subtransactions behaves as if every aborted one had never run and every released one
  had run inline.
\<close>

section \<open>Nested transaction programs\<close>

datatype 'o tx_prog = TxOp 'o | TxSub "'o tx_prog list" bool

text \<open>
  The reference meaning: a subtransaction that commits (\<open>True\<close>) runs inline, one that aborts
  (\<open>False\<close>) has no effect.
\<close>

fun tx_spec :: "('o \<Rightarrow> 'v \<Rightarrow> 'v) \<Rightarrow> 'o tx_prog \<Rightarrow> 'v \<Rightarrow> 'v"
  and tx_specs :: "('o \<Rightarrow> 'v \<Rightarrow> 'v) \<Rightarrow> 'o tx_prog list \<Rightarrow> 'v \<Rightarrow> 'v" where
  "tx_spec f (TxOp x) v = f x v"
| "tx_spec f (TxSub ps c) v = (if c then tx_specs f ps v else v)"
| "tx_specs f [] v = v"
| "tx_specs f (p # ps) v = tx_specs f ps (tx_spec f p v)"

text \<open>
  The run PostgreSQL produces: operations happen at the current level, a subtransaction opens
  the next level and ends with the release or abort callback for that level.
\<close>

fun tx_exec :: "(nest_level \<Rightarrow> 'o \<Rightarrow> 's \<Rightarrow> 's) \<Rightarrow> (nest_level \<Rightarrow> 's \<Rightarrow> 's) \<Rightarrow> (nest_level \<Rightarrow> 's \<Rightarrow> 's)
    \<Rightarrow> nest_level \<Rightarrow> 'o tx_prog \<Rightarrow> 's \<Rightarrow> 's"
  and tx_execs :: "(nest_level \<Rightarrow> 'o \<Rightarrow> 's \<Rightarrow> 's) \<Rightarrow> (nest_level \<Rightarrow> 's \<Rightarrow> 's) \<Rightarrow> (nest_level \<Rightarrow> 's \<Rightarrow> 's)
    \<Rightarrow> nest_level \<Rightarrow> 'o tx_prog list \<Rightarrow> 's \<Rightarrow> 's" where
  "tx_exec op rel ab n (TxOp x) s = op n x s"
| "tx_exec op rel ab n (TxSub ps c) s =
     (let s' = tx_execs op rel ab (n + 1) ps s in if c then rel (n + 1) s' else ab (n + 1) s')"
| "tx_execs op rel ab n [] s = s"
| "tx_execs op rel ab n (p # ps) s = tx_execs op rel ab n ps (tx_exec op rel ab n p s)"

text \<open>What the operations and both ends of a subtransaction keep, every run keeps.\<close>

lemma tx_exec_preserves:
  assumes "\<And>n x s. P s \<Longrightarrow> P (op n x s)" and "\<And>n s. P s \<Longrightarrow> P (rel n s)" and "\<And>n s. P s \<Longrightarrow> P (ab n s)"
  shows "P s \<Longrightarrow> P (tx_exec op rel ab n p s)" and "P s \<Longrightarrow> P (tx_execs op rel ab n ps s)"
  using assms
  by (induction op rel ab n p s and op rel ab n ps s rule: tx_exec_tx_execs.induct) (auto simp: Let_def)

section \<open>The contract\<close>

locale savepoint_store =
  fixes inv :: "nest_level \<Rightarrow> 's \<Rightarrow> bool"
    and at :: "'s \<Rightarrow> nest_level \<Rightarrow> 'v"
    and step :: "nest_level \<Rightarrow> 'o \<Rightarrow> 's \<Rightarrow> 's"
    and release :: "nest_level \<Rightarrow> 's \<Rightarrow> 's"
    and abort :: "nest_level \<Rightarrow> 's \<Rightarrow> 's"
    and effect :: "'o \<Rightarrow> 'v \<Rightarrow> 'v"
  assumes inv_deeper: "1 \<le> n \<Longrightarrow> inv n s \<Longrightarrow> inv (n + 1) s"
    and inv_step: "1 \<le> n \<Longrightarrow> inv n s \<Longrightarrow> inv n (step n x s)"
    and inv_release: "1 \<le> n \<Longrightarrow> inv (n + 1) s \<Longrightarrow> inv n (release (n + 1) s)"
    and inv_abort: "1 \<le> n \<Longrightarrow> inv (n + 1) s \<Longrightarrow> inv n (abort (n + 1) s)"
    and at_top: "1 \<le> n \<Longrightarrow> inv n s \<Longrightarrow> n < k \<Longrightarrow> at s k = at s (n + 1)"
    and at_step_below: "1 \<le> n \<Longrightarrow> inv n s \<Longrightarrow> 2 \<le> k \<Longrightarrow> k \<le> n \<Longrightarrow> at (step n x s) k = at s k"
    and at_step_top: "1 \<le> n \<Longrightarrow> inv n s \<Longrightarrow> at (step n x s) (n + 1) = effect x (at s (n + 1))"
    and at_release_below:
      "1 \<le> n \<Longrightarrow> inv (n + 1) s \<Longrightarrow> 2 \<le> k \<Longrightarrow> k \<le> n \<Longrightarrow> at (release (n + 1) s) k = at s k"
    and at_release_top: "1 \<le> n \<Longrightarrow> inv (n + 1) s \<Longrightarrow> at (release (n + 1) s) (n + 1) = at s (n + 2)"
    and at_abort_below:
      "1 \<le> n \<Longrightarrow> inv (n + 1) s \<Longrightarrow> 2 \<le> k \<Longrightarrow> k \<le> n \<Longrightarrow> at (abort (n + 1) s) k = at s k"
    and at_abort_top: "1 \<le> n \<Longrightarrow> inv (n + 1) s \<Longrightarrow> at (abort (n + 1) s) (n + 1) = at s (n + 1)"
begin

text \<open>
  Every tree of subtransactions run at level \<open>n\<close> keeps the invariant, leaves what an abort of
  an enclosing savepoint would restore, and has the reference effect on what is visible now.
\<close>

lemma execs_from_exec:
  assumes step: "\<And>p n s. p \<in> set ps \<Longrightarrow> 1 \<le> n \<Longrightarrow> inv n s \<Longrightarrow>
      inv n (tx_exec step release abort n p s)
    \<and> (\<forall>k. 2 \<le> k \<and> k \<le> n \<longrightarrow> at (tx_exec step release abort n p s) k = at s k)
    \<and> at (tx_exec step release abort n p s) (n + 1) = tx_spec effect p (at s (n + 1))"
    and "1 \<le> n" and "inv n s"
  shows "inv n (tx_execs step release abort n ps s)
    \<and> (\<forall>k. 2 \<le> k \<and> k \<le> n \<longrightarrow> at (tx_execs step release abort n ps s) k = at s k)
    \<and> at (tx_execs step release abort n ps s) (n + 1) = tx_specs effect ps (at s (n + 1))"
  using assms
proof (induction ps arbitrary: s)
  case Nil
  then show ?case by simp
next
  case (Cons p ps)
  have head: "inv n (tx_exec step release abort n p s)
    \<and> (\<forall>k. 2 \<le> k \<and> k \<le> n \<longrightarrow> at (tx_exec step release abort n p s) k = at s k)
    \<and> at (tx_exec step release abort n p s) (n + 1) = tx_spec effect p (at s (n + 1))"
    using Cons.prems by simp
  with Cons.IH [of "tx_exec step release abort n p s"] Cons.prems show ?case by simp
qed

lemma exec_nested:
  assumes "1 \<le> n" and "inv n s"
  shows "inv n (tx_exec step release abort n p s)
    \<and> (\<forall>k. 2 \<le> k \<and> k \<le> n \<longrightarrow> at (tx_exec step release abort n p s) k = at s k)
    \<and> at (tx_exec step release abort n p s) (n + 1) = tx_spec effect p (at s (n + 1))"
  using assms
proof (induction p arbitrary: n s)
  case (TxOp x)
  then show ?case
    by (simp add: inv_step at_step_below at_step_top)
next
  case (TxSub ps c)
  let ?s = "tx_execs step release abort (n + 1) ps s"
  have deeper: "1 \<le> n + 1" "inv (n + 1) s" "at s (n + 2) = at s (n + 1)"
    using TxSub.prems inv_deeper at_top [of n s "n + 2"] by auto
  then have body: "inv (n + 1) ?s"
      "\<And>k. 2 \<le> k \<Longrightarrow> k \<le> n + 1 \<Longrightarrow> at ?s k = at s k"
      "at ?s (n + 2) = tx_specs effect ps (at s (n + 1))"
    using execs_from_exec [OF TxSub.IH, of ps "n + 1" s] by (auto simp: add.assoc)
  show ?case
    using TxSub.prems(1) body
    by (simp add: Let_def inv_release inv_abort at_release_below at_release_top
        at_abort_below at_abort_top)
qed

lemma execs_nested:
  assumes "1 \<le> n" and "inv n s"
  shows "inv n (tx_execs step release abort n ps s)
    \<and> (\<forall>k. 2 \<le> k \<and> k \<le> n \<longrightarrow> at (tx_execs step release abort n ps s) k = at s k)
    \<and> at (tx_execs step release abort n ps s) (n + 1) = tx_specs effect ps (at s (n + 1))"
  using exec_nested assms by (intro execs_from_exec)

text \<open>An aborted subtransaction leaves no trace, whatever ran inside it.\<close>

lemma aborted_sub_invisible:
  assumes "1 \<le> n" and "inv n s"
  shows "at (tx_exec step release abort n (TxSub ps False) s) (n + 1) = at s (n + 1)"
  using exec_nested [OF assms, of "TxSub ps False"] by simp

end

section \<open>Levelled lists\<close>

text \<open>
  Several components keep a list of entries, each tagged with the level that owns it. RELEASE
  lowers the tags of the released level, ROLLBACK drops them. The locale states that in terms
  of \<open>tagged\<close>, the entries as pairs of level and payload, for states that are \<open>ready\<close> to record;
  \<open>added\<close> is what one operation appends. Such a component satisfies the savepoint contract, its
  observation at \<open>k\<close> being the payloads owned below \<open>k\<close>.
\<close>

definition lower_levels :: "nest_level \<Rightarrow> (nest_level \<times> 'p) list \<Rightarrow> (nest_level \<times> 'p) list" where
  "lower_levels n xs = map (\<lambda>(l, p). (if n \<le> l then n - 1 else l, p)) xs"

definition owned_below :: "nest_level \<Rightarrow> (nest_level \<times> 'p) list \<Rightarrow> 'p list" where
  "owned_below k xs = map snd (filter (\<lambda>(l, p). l < k) xs)"

lemma owned_below_lower: "k \<le> n \<Longrightarrow> owned_below k (lower_levels (n + 1) xs) = owned_below k xs"
  by (induction xs) (auto simp: owned_below_def lower_levels_def split: if_splits)

lemma owned_below_all: "(\<And>l p. (l, p) \<in> set xs \<Longrightarrow> l \<le> n) \<Longrightarrow> n < k \<Longrightarrow> owned_below k xs = map snd xs"
  unfolding owned_below_def by (subst filter_True_id) force+

lemma map_snd_lower [simp]: "map snd (lower_levels n xs) = map snd xs"
  by (induction xs) (auto simp: lower_levels_def)

lemma owned_below_filter:
  "k \<le> n \<Longrightarrow> owned_below k (filter (\<lambda>(l, p). l < n) xs) = owned_below k xs"
  by (induction xs) (auto simp: owned_below_def)

lemma owned_below_append [simp]: "owned_below k (xs @ ys) = owned_below k xs @ owned_below k ys"
  by (simp add: owned_below_def)

lemma owned_below_single [simp]: "owned_below k [(l, p)] = (if l < k then [p] else [])"
  by (simp add: owned_below_def)

lemma owned_below_tags: "owned_below k (map (Pair l) ps) = (if l < k then ps else [])"
  by (induction ps) (auto simp: owned_below_def)

locale levelled_store =
  fixes ready :: "'s \<Rightarrow> bool"
    and tagged :: "'s \<Rightarrow> (nest_level \<times> 'p) list"
    and track :: "nest_level \<Rightarrow> 'o \<Rightarrow> 's \<Rightarrow> 's"
    and added :: "'o \<Rightarrow> 'p list"
    and release :: "nest_level \<Rightarrow> 's \<Rightarrow> 's"
    and abort :: "nest_level \<Rightarrow> 's \<Rightarrow> 's"
  assumes ready_track: "ready s \<Longrightarrow> ready (track n x s)"
    and ready_release: "ready s \<Longrightarrow> 1 < n \<Longrightarrow> ready (release n s)"
    and ready_abort: "ready s \<Longrightarrow> 1 < n \<Longrightarrow> ready (abort n s)"
    and tagged_track: "ready s \<Longrightarrow> tagged (track n x s) = tagged s @ map (Pair n) (added x)"
    and tagged_release: "ready s \<Longrightarrow> 1 < n \<Longrightarrow> tagged (release n s) = lower_levels n (tagged s)"
    and tagged_abort: "ready s \<Longrightarrow> 1 < n \<Longrightarrow> tagged (abort n s) = filter (\<lambda>(l, p). l < n) (tagged s)"
begin

definition levels_within :: "nest_level \<Rightarrow> 's \<Rightarrow> bool" where
  "levels_within n s \<longleftrightarrow> ready s \<and> (\<forall>(l, p) \<in> set (tagged s). l \<le> n)"

lemma levels_within_release: "1 \<le> n \<Longrightarrow> levels_within (n + 1) s \<Longrightarrow> levels_within n (release (n + 1) s)"
  by (auto simp: levels_within_def tagged_release lower_levels_def ready_release)

lemma owned_all: "levels_within n s \<Longrightarrow> n < k \<Longrightarrow> owned_below k (tagged s) = map snd (tagged s)"
  by (rule owned_below_all) (auto simp: levels_within_def)

sublocale savepoint_store levels_within "\<lambda>s k. owned_below k (tagged s)" track release abort
  "\<lambda>x ps. ps @ added x"
proof
  fix n k :: nest_level and s :: 's and x :: 'o
  assume n: "1 \<le> n"
  show "levels_within n s \<Longrightarrow> levels_within (n + 1) s"
    by (auto simp: levels_within_def)
  show "levels_within n s \<Longrightarrow> levels_within n (track n x s)"
    by (auto simp: levels_within_def tagged_track ready_track)
  show "levels_within (n + 1) s \<Longrightarrow> levels_within n (release (n + 1) s)"
    using n by (rule levels_within_release)
  show "levels_within (n + 1) s \<Longrightarrow> levels_within n (abort (n + 1) s)"
    using n by (auto simp: levels_within_def tagged_abort ready_abort)
  show "levels_within n s \<Longrightarrow> n < k \<Longrightarrow> owned_below k (tagged s) = owned_below (n + 1) (tagged s)"
    by (simp add: owned_all)
  show "levels_within n s \<Longrightarrow> 2 \<le> k \<Longrightarrow> k \<le> n \<Longrightarrow>
      owned_below k (tagged (track n x s)) = owned_below k (tagged s)"
    by (simp add: tagged_track levels_within_def owned_below_tags)
  show "levels_within n s \<Longrightarrow>
      owned_below (n + 1) (tagged (track n x s)) = owned_below (n + 1) (tagged s) @ added x"
    by (simp add: tagged_track levels_within_def owned_below_tags)
  show "levels_within (n + 1) s \<Longrightarrow> 2 \<le> k \<Longrightarrow> k \<le> n \<Longrightarrow>
      owned_below k (tagged (release (n + 1) s)) = owned_below k (tagged s)"
    using n by (simp add: levels_within_def tagged_release owned_below_lower)
  show "levels_within (n + 1) s \<Longrightarrow>
      owned_below (n + 1) (tagged (release (n + 1) s)) = owned_below (n + 2) (tagged s)"
    using n owned_all [OF levels_within_release [OF n], of s "n + 1"]
    by (simp add: owned_all) (simp add: levels_within_def tagged_release)
  show "levels_within (n + 1) s \<Longrightarrow> 2 \<le> k \<Longrightarrow> k \<le> n \<Longrightarrow>
      owned_below k (tagged (abort (n + 1) s)) = owned_below k (tagged s)"
    using n owned_below_filter [of k "n + 1" "tagged s"] by (simp add: levels_within_def tagged_abort)
  show "levels_within (n + 1) s \<Longrightarrow>
      owned_below (n + 1) (tagged (abort (n + 1) s)) = owned_below (n + 1) (tagged s)"
    using n owned_below_filter [of "n + 1" "n + 1" "tagged s"] by (simp add: levels_within_def tagged_abort)
qed

end

end
