(* ===== verification/Savepoint_Stack.thy ===== *)
theory Savepoint_Stack
  imports Savepoints
begin

text \<open>
  The abstract machine behind the per-table history stacks: the current value and, for every
  write inside a subtransaction, a snapshot of the value before it, tagged with the level that
  owns the write. The machine satisfies the savepoint contract, and a component that refines it
  inherits the contract.
\<close>

section \<open>The machine\<close>

type_synonym 'v savepoint_stack = "(nest_level \<times> 'v) list \<times> 'v"

text \<open>An operation that is rejected (\<open>None\<close>) changes nothing and leaves no snapshot.\<close>

definition stack_step :: "('o \<Rightarrow> 'v \<Rightarrow> 'v option) \<Rightarrow> nest_level \<Rightarrow> 'o \<Rightarrow> 'v savepoint_stack \<Rightarrow> 'v savepoint_stack" where
  "stack_step f n x = (\<lambda>(h, c). case f x c of
       None \<Rightarrow> (h, c)
     | Some c' \<Rightarrow> (if 1 < n then h @ [(n, c)] else h, c'))"

definition stack_at :: "'v savepoint_stack \<Rightarrow> nest_level \<Rightarrow> 'v" where
  "stack_at = (\<lambda>(h, c) k. case find (\<lambda>(l, v). k \<le> l) h of None \<Rightarrow> c | Some (l, v) \<Rightarrow> v)"

definition stack_release :: "nest_level \<Rightarrow> 'v savepoint_stack \<Rightarrow> 'v savepoint_stack" where
  "stack_release n = (\<lambda>(h, c). (filter (\<lambda>(l, v). 1 < l) (lower_levels n h), c))"

definition stack_abort :: "nest_level \<Rightarrow> 'v savepoint_stack \<Rightarrow> 'v savepoint_stack" where
  "stack_abort n = (\<lambda>(h, c). (takeWhile (\<lambda>(l, v). l < n) h, stack_at (h, c) n))"

definition stack_inv :: "nest_level \<Rightarrow> 'v savepoint_stack \<Rightarrow> bool" where
  "stack_inv n = (\<lambda>(h, c). sorted (map fst h) \<and> (\<forall>(l, v) \<in> set h. 2 \<le> l \<and> l \<le> n))"

definition accept :: "('o \<Rightarrow> 'v \<Rightarrow> 'v option) \<Rightarrow> 'o \<Rightarrow> 'v \<Rightarrow> 'v" where
  "accept f x v = (case f x v of None \<Rightarrow> v | Some v' \<Rightarrow> v')"

section \<open>It satisfies the contract\<close>

lemma find_append: "find P (xs @ ys) = (case find P xs of None \<Rightarrow> find P ys | Some x \<Rightarrow> Some x)"
  by (induction xs) auto

lemma stack_at_above: "stack_inv n (h, c) \<Longrightarrow> n < k \<Longrightarrow> stack_at (h, c) k = c"
proof -
  assume "stack_inv n (h, c)" "n < k"
  then have "find (\<lambda>(l, v). k \<le> l) h = None"
    by (force simp: stack_inv_def find_None_iff)
  then show ?thesis by (simp add: stack_at_def)
qed

lemma stack_at_push: "k \<le> n \<Longrightarrow> stack_at (h @ [(n, c)], c') k = stack_at (h, c) k"
  by (auto simp: stack_at_def find_append split: option.splits)

lemma stack_at_release:
  assumes "2 \<le> k" and "k \<le> n"
  shows "stack_at (filter (\<lambda>(l, v). 1 < l) (lower_levels (n + 1) h), c) k = stack_at (h, c) k"
proof (induction h)
  case (Cons x h)
  then show ?case using assms
    by (cases x) (auto simp: stack_at_def lower_levels_def split: if_splits)
qed (simp add: stack_at_def lower_levels_def)

lemma stack_at_takeWhile:
  "k \<le> n \<Longrightarrow> stack_at (takeWhile (\<lambda>(l, v). l < n) h, stack_at (h, c) n) k = stack_at (h, c) k"
proof (induction h)
  case (Cons x h)
  then show ?case by (cases x) (auto simp: stack_at_def)
qed (simp add: stack_at_def)

lemma sorted_lower: "sorted (map fst h) \<Longrightarrow> sorted (map fst (lower_levels n h))"
  by (induction h) (auto simp: lower_levels_def)

lemma sorted_map_filter_fst: "sorted (map fst h) \<Longrightarrow> sorted (map fst (filter P h))"
  by (induction h) auto

lemma sorted_takeWhile_fst: "sorted (map fst h) \<Longrightarrow> sorted (map fst (takeWhile P h))"
  by (induction h) (auto dest: set_takeWhileD)

lemma stack_inv_step: "1 \<le> n \<Longrightarrow> stack_inv n s \<Longrightarrow> stack_inv n (stack_step f n x s)"
  by (cases s) (force simp: stack_inv_def stack_step_def sorted_append split: option.splits)

lemma stack_inv_release: "stack_inv (n + 1) s \<Longrightarrow> stack_inv n (stack_release (n + 1) s)"
  by (cases s) (auto simp: stack_inv_def stack_release_def sorted_lower sorted_map_filter_fst,
    auto simp: lower_levels_def)

lemma stack_at_snd: "stack_inv n s \<Longrightarrow> n < k \<Longrightarrow> stack_at s k = snd s"
  using stack_at_above by (cases s) auto

interpretation stack: savepoint_store stack_inv stack_at "stack_step f" stack_release stack_abort "accept f"
  for f :: "'o \<Rightarrow> 'v \<Rightarrow> 'v option"
proof
  fix n k :: nest_level and s :: "'v savepoint_stack" and x :: 'o
  assume n: "1 \<le> n"
  obtain h c where s: "s = (h, c)" by (cases s)
  show "stack_inv n s \<Longrightarrow> stack_inv (n + 1) s"
    by (force simp: stack_inv_def s)
  show "stack_inv n s \<Longrightarrow> stack_inv n (stack_step f n x s)"
    by (rule stack_inv_step [OF n])
  show "stack_inv (n + 1) s \<Longrightarrow> stack_inv n (stack_release (n + 1) s)"
    by (rule stack_inv_release)
  show "stack_inv (n + 1) s \<Longrightarrow> stack_inv n (stack_abort (n + 1) s)"
    by (auto simp: stack_inv_def stack_abort_def s sorted_takeWhile_fst dest!: set_takeWhileD)
  show "stack_inv n s \<Longrightarrow> n < k \<Longrightarrow> stack_at s k = stack_at s (n + 1)"
    by (simp add: stack_at_snd)
  show "stack_inv n s \<Longrightarrow> 2 \<le> k \<Longrightarrow> k \<le> n \<Longrightarrow> stack_at (stack_step f n x s) k = stack_at s k"
    by (auto simp: s stack_step_def stack_at_push split: option.splits)
  show "stack_inv n s \<Longrightarrow> stack_at (stack_step f n x s) (n + 1) = accept f x (stack_at s (n + 1))"
    using stack_at_snd [OF stack_inv_step [OF n], of s "n + 1" f x] stack_at_snd [of n s "n + 1"]
    by (auto simp: s stack_step_def accept_def split: option.splits)
  show "stack_inv (n + 1) s \<Longrightarrow> 2 \<le> k \<Longrightarrow> k \<le> n \<Longrightarrow> stack_at (stack_release (n + 1) s) k = stack_at s k"
    by (simp add: s stack_release_def stack_at_release)
  show "stack_inv (n + 1) s \<Longrightarrow> stack_at (stack_release (n + 1) s) (n + 1) = stack_at s (n + 2)"
    using stack_at_snd [OF stack_inv_release, of n s "n + 1"] stack_at_snd [of "n + 1" s "n + 2"]
    by (simp add: s stack_release_def)
  show "stack_inv (n + 1) s \<Longrightarrow> 2 \<le> k \<Longrightarrow> k \<le> n \<Longrightarrow> stack_at (stack_abort (n + 1) s) k = stack_at s k"
    unfolding s stack_abort_def prod.case by (rule stack_at_takeWhile) simp
  show "stack_inv (n + 1) s \<Longrightarrow> stack_at (stack_abort (n + 1) s) (n + 1) = stack_at s (n + 1)"
    unfolding s stack_abort_def prod.case by (rule stack_at_takeWhile) simp
qed

text \<open>Popping one frame at a time, as the history stacks do, reaches the same state.\<close>

lemma stack_abort_below:
  assumes "\<And>l v. (l, v) \<in> set h \<Longrightarrow> l < n"
  shows "stack_abort n (h, c) = (h, c)"
proof -
  have "find (\<lambda>(l, v). n \<le> l) h = None" using assms by (force simp: find_None_iff)
  moreover have "takeWhile (\<lambda>(l, v). l < n) h = h" using assms by (auto simp: takeWhile_eq_all_conv)
  ultimately show ?thesis by (simp add: stack_abort_def stack_at_def)
qed

lemma stack_abort_pop: "n \<le> l \<Longrightarrow> stack_abort n (h @ [(l, v)], c) = stack_abort n (h, v)"
  by (auto simp: stack_abort_def stack_at_def find_append takeWhile_tail split: option.splits)

section \<open>Refinement\<close>

text \<open>
  A component refines the machine when a relation between its states and the machine's is kept by
  the operations and determines the observation. It then keeps the savepoint contract itself.
\<close>

locale stack_refinement =
  fixes R :: "'s \<Rightarrow> 'v savepoint_stack \<Rightarrow> bool"
    and f :: "'o \<Rightarrow> 'v \<Rightarrow> 'v option"
    and cstep :: "nest_level \<Rightarrow> 'o \<Rightarrow> 's \<Rightarrow> 's"
    and crelease :: "nest_level \<Rightarrow> 's \<Rightarrow> 's"
    and cabort :: "nest_level \<Rightarrow> 's \<Rightarrow> 's"
    and cat :: "'s \<Rightarrow> nest_level \<Rightarrow> 'v"
  assumes sim_step: "1 \<le> n \<Longrightarrow> R s a \<Longrightarrow> R (cstep n x s) (stack_step f n x a)"
    and sim_release: "1 \<le> n \<Longrightarrow> R s a \<Longrightarrow> R (crelease (n + 1) s) (stack_release (n + 1) a)"
    and sim_abort: "1 \<le> n \<Longrightarrow> R s a \<Longrightarrow> stack_inv (n + 1) a \<Longrightarrow> R (cabort (n + 1) s) (stack_abort (n + 1) a)"
    and sim_at: "R s a \<Longrightarrow> cat s k = stack_at a k"
begin

definition refined_inv :: "nest_level \<Rightarrow> 's \<Rightarrow> bool" where
  "refined_inv n s \<longleftrightarrow> (\<exists>a. R s a \<and> stack_inv n a)"

sublocale savepoint_store refined_inv cat cstep crelease cabort "accept f"
proof
  fix n k :: nest_level and s :: 's and x :: 'o
  assume n: "1 \<le> n"
  show "refined_inv n s \<Longrightarrow> refined_inv (n + 1) s"
    unfolding refined_inv_def using stack.inv_deeper [OF n] by blast
  show "refined_inv n s \<Longrightarrow> refined_inv n (cstep n x s)"
    unfolding refined_inv_def using stack.inv_step [OF n, where f = f] sim_step [OF n] by blast
  show "refined_inv (n + 1) s \<Longrightarrow> refined_inv n (crelease (n + 1) s)"
    unfolding refined_inv_def using stack.inv_release [OF n] sim_release [OF n] by blast
  show "refined_inv (n + 1) s \<Longrightarrow> refined_inv n (cabort (n + 1) s)"
    unfolding refined_inv_def using stack.inv_abort [OF n] sim_abort [OF n] by blast
  show "refined_inv n s \<Longrightarrow> n < k \<Longrightarrow> cat s k = cat s (n + 1)"
    unfolding refined_inv_def using stack.at_top [OF n] by (auto simp: sim_at)
  show "refined_inv n s \<Longrightarrow> 2 \<le> k \<Longrightarrow> k \<le> n \<Longrightarrow> cat (cstep n x s) k = cat s k"
    unfolding refined_inv_def
    by (auto simp: sim_at sim_at [OF sim_step [OF n]] stack.at_step_below [OF n])
  show "refined_inv n s \<Longrightarrow> cat (cstep n x s) (n + 1) = accept f x (cat s (n + 1))"
    unfolding refined_inv_def
    by (auto simp: sim_at sim_at [OF sim_step [OF n]] stack.at_step_top [OF n])
  show "refined_inv (n + 1) s \<Longrightarrow> 2 \<le> k \<Longrightarrow> k \<le> n \<Longrightarrow> cat (crelease (n + 1) s) k = cat s k"
    unfolding refined_inv_def
    by (auto simp: sim_at sim_at [OF sim_release [OF n]] stack.at_release_below [OF n])
  show "refined_inv (n + 1) s \<Longrightarrow> cat (crelease (n + 1) s) (n + 1) = cat s (n + 2)"
    unfolding refined_inv_def
    by (auto simp: sim_at sim_at [OF sim_release [OF n]] stack.at_release_top [OF n])
  show "refined_inv (n + 1) s \<Longrightarrow> 2 \<le> k \<Longrightarrow> k \<le> n \<Longrightarrow> cat (cabort (n + 1) s) k = cat s k"
    unfolding refined_inv_def
    by (auto simp: sim_at sim_at [OF sim_abort [OF n]] stack.at_abort_below [OF n])
  show "refined_inv (n + 1) s \<Longrightarrow> cat (cabort (n + 1) s) (n + 1) = cat s (n + 1)"
    unfolding refined_inv_def
    by (auto simp: sim_at sim_at [OF sim_abort [OF n]] stack.at_abort_top [OF n])
qed

end

end
