(* ===== verification/Row_Identity.thy ===== *)
theory Row_Identity
  imports Prelude
begin

unbundle bit_operations_syntax

text \<open>
  Synthetic \<open>ctid\<close> values (\<open>write/row_identity.rs\<close>, the file ID of \<open>write/registry.rs\<close> and the
  trigger-row IDs of \<open>table_am/modify/trigger_rows.rs\<close>). A physical Iceberg row is a pair of a
  17-bit file ID and a 30-bit row position, packed into the 32-bit block number and 16-bit
  offset PostgreSQL carries through its executor; temporary trigger rows use the top quarter of
  the block numbers. All arithmetic is on machine words of the source's widths.
\<close>

section \<open>File IDs\<close>

datatype iceberg_file_id = IcebergFileId (raw: "32 word")

definition iceberg_file_id_bits :: nat where
  "iceberg_file_id_bits = 17"

definition max_iceberg_files :: nat where
  "max_iceberg_files = 131072"

definition try_from_raw :: "32 word \<Rightarrow> iceberg_file_id iceberg_result" where
  "try_from_raw r =
     (if of_nat max_iceberg_files \<le> r then Inl (FileIdLimitExceeded max_iceberg_files)
      else Inr (IcebergFileId r))"

section \<open>Physical row identities\<close>

record item_pointer =
  block_number :: "32 word"
  offset :: "16 word"

record iceberg_row_identity =
  file_id :: iceberg_file_id
  row_position :: "32 word"

definition trigger_row_block_base :: "32 word" where
  "trigger_row_block_base = 0xC0000000"

definition position_bits :: nat where "position_bits = 30"
definition max_position :: "64 word" where "max_position = 0x3FFFFFFF"
definition file_mask :: "64 word" where "file_mask = 0x1FFFF"
definition position_mask :: "64 word" where "position_mask = 0x3FFFFFFF"
definition payload_limit :: "64 word" where "payload_limit = 0x800000000000"
definition offset_base :: "64 word" where "offset_base = 0xFFFF"

definition encode :: "iceberg_file_id \<Rightarrow> 64 word \<Rightarrow> item_pointer iceberg_result" where
  "encode fid position =
     (if max_position < position then Inl RowIdentityLimitExceeded
      else
        let payload = push_bit position_bits (ucast (raw fid)) OR position in
        Inr \<lparr> block_number = ucast (payload div offset_base),
              offset = ucast (payload mod offset_base + 1) \<rparr>)"

definition decode :: "item_pointer \<Rightarrow> iceberg_row_identity iceberg_result" where
  "decode tid =
     (if offset tid = 0 \<or> trigger_row_block_base \<le> block_number tid
      then Inl (InvariantViolated ''ctid is not an Iceberg physical row identity'')
      else
        let payload = ucast (block_number tid) * offset_base + ucast (offset tid - 1) in
        if payload_limit \<le> payload
        then Inl (InvariantViolated ''ctid is not an Iceberg physical row identity'')
        else Inr \<lparr> file_id = IcebergFileId (ucast (drop_bit position_bits payload AND file_mask)),
                   row_position = ucast (payload AND position_mask) \<rparr>)"

section \<open>Trigger-row identities\<close>

definition trigger_row_block_count :: "64 word" where
  "trigger_row_block_count = 0x40000000"

definition max_trigger_row_token :: "64 word" where
  "max_trigger_row_token = trigger_row_block_count * offset_base"

text \<open>
  \<open>TriggerRowId::allocate\<close> on the thread-local \<open>NEXT_TRIGGER_ROW_TOKEN\<close>: the result and the
  counter afterwards. The three conversions the source checks are \<open>None\<close> branches here; the
  message of the error is the value.
\<close>

definition allocate_trigger_row :: "64 word \<Rightarrow> (string + item_pointer) \<times> 64 word" where
  "allocate_trigger_row token =
     (if max_trigger_row_token \<le> token
      then (Inl ''LagoDB AFTER-trigger row identity space was exhausted'', token)
      else
        let block_offset = token div offset_base;
            off = token mod offset_base + 1 in
        if 0x100000000 \<le> block_offset then (Inl ''trigger-row block number overflow'', token + 1)
        else if 2 ^ 32 \<le> unat trigger_row_block_base + unat block_offset
        then (Inl ''trigger-row block number overflow'', token + 1)
        else if 0x10000 \<le> off then (Inl ''trigger-row offset overflow'', token + 1)
        else (Inr \<lparr> block_number = trigger_row_block_base + ucast block_offset,
                    offset = ucast off \<rparr>, token + 1))"

definition is_encoded :: "item_pointer \<Rightarrow> bool" where
  "is_encoded row_id \<longleftrightarrow> offset row_id \<noteq> 0 \<and> trigger_row_block_base \<le> block_number row_id"

definition trigger_token :: "item_pointer \<Rightarrow> 64 word" where
  "trigger_token row_id =
     ucast (block_number row_id - trigger_row_block_base) * offset_base
       + ucast (offset row_id - 1)"

section \<open>Arithmetic of the encoding\<close>

lemmas identity_consts =
  position_bits_def max_position_def file_mask_def position_mask_def payload_limit_def
  offset_base_def trigger_row_block_base_def max_iceberg_files_def

lemma try_from_raw_bound: "try_from_raw r = Inr fid \<Longrightarrow> unat (raw fid) < 2 ^ iceberg_file_id_bits"
  by (auto simp: try_from_raw_def max_iceberg_files_def iceberg_file_id_bits_def word_le_nat_alt
      split: if_splits)

lemma unat_ucast_small:
  "unat w < 2 ^ LENGTH('b) \<Longrightarrow> unat (ucast (w :: 'a::len word) :: 'b::len word) = unat w"
  by (simp add: unsigned_ucast_eq take_bit_nat_eq_self)

lemma unat_ucast_32_64 [simp]: "unat (ucast (w :: 32 word) :: 64 word) = unat w"
proof (rule unat_ucast_small)
  have "unat w < 2 ^ 32" by (rule order_less_le_trans [OF unsigned_less]) simp
  also have "\<dots> \<le> 2 ^ LENGTH(64)" by simp
  finally show "unat w < 2 ^ LENGTH(64)" .
qed

lemma unat_ucast_16_64 [simp]: "unat (ucast (w :: 16 word) :: 64 word) = unat w"
proof (rule unat_ucast_small)
  have "unat w < 2 ^ 16" by (rule order_less_le_trans [OF unsigned_less]) simp
  also have "\<dots> \<le> 2 ^ LENGTH(64)" by simp
  finally show "unat w < 2 ^ LENGTH(64)" .
qed

text \<open>Packing by shift and bitwise or is multiplication and addition.\<close>

lemma unat_packed:
  fixes f :: "32 word" and p :: "64 word"
  assumes "unat f < 2 ^ 17" and "unat p < 2 ^ 30"
  shows "unat (push_bit 30 (ucast f) OR p :: 64 word) = unat f * 2 ^ 30 + unat p"
proof -
  have p: "p = take_bit 30 p"
    using assms(2) by (simp only: word_unat_eq_iff unsigned_take_bit_eq take_bit_nat_eq_self)
  have "push_bit 30 (ucast f) AND p = (0 :: 64 word)"
    by (subst p) (simp add: bit_eq_iff bit_simps)
  then have "push_bit 30 (ucast f) OR p = push_bit 30 (ucast f) + (p :: 64 word)"
    by (simp add: disjunctive_add_eq_or)
  moreover have "unat (push_bit 30 (ucast f) :: 64 word) = unat f * 2 ^ 30"
    using assms(1) by (simp add: push_bit_eq_mult unat_word_ariths)
  ultimately show ?thesis
    using assms by (simp add: unat_word_ariths)
qed

lemma unat_div_base: "unat (w div offset_base) = unat w div 65535"
  by (simp add: offset_base_def unat_div)

lemma unat_mod_base_Suc: "unat (w mod offset_base + 1) = unat w mod 65535 + 1"
proof -
  have "unat (w mod offset_base) < 65535"
    by (simp add: offset_base_def unat_mod)
  then show ?thesis
    by (simp add: unat_word_ariths unat_mod offset_base_def)
qed

lemma unat_minus_one: "(t :: 'a::len word) \<noteq> 0 \<Longrightarrow> unat (t - 1) = unat t - 1"
  by (simp add: unat_sub word_le_nat_alt unat_gt_0 Suc_leI)

lemma unat_unpacked:
  fixes b :: "32 word" and t :: "16 word"
  assumes "t \<noteq> 0"
  shows "unat (ucast b * offset_base + ucast (t - 1) :: 64 word) = unat b * 65535 + (unat t - 1)"
proof -
  have "unat b < 2 ^ 32" "unat t < 2 ^ 16"
    by (rule order_less_le_trans [OF unsigned_less], simp)+
  then show ?thesis
    using assms by (simp add: unat_word_ariths offset_base_def unat_minus_one)
qed

lemma unat_and_mask: "unat (w AND mask n :: 'a::len word) = unat w mod 2 ^ n"
  unfolding take_bit_eq_mask [symmetric] unsigned_take_bit_eq by (rule take_bit_eq_mod)

lemma unat_drop_bit: "unat (drop_bit n w :: 'a::len word) = unat w div 2 ^ n"
  unfolding unsigned_drop_bit_eq take_bit_nat_eq_self [OF unsigned_less] by (rule drop_bit_eq_div)

lemma masks:
  "file_mask = mask 17" "position_mask = mask 30"
  by (simp_all add: file_mask_def position_mask_def mask_eq_exp_minus_1)

section \<open>The codec at the level of natural numbers\<close>

lemma encode_unat:
  assumes "unat (raw fid) < 2 ^ 17" and "encode fid pos = Inr tid"
  shows "unat (block_number tid) = (unat (raw fid) * 2 ^ 30 + unat pos) div 65535"
    and "unat (offset tid) = (unat (raw fid) * 2 ^ 30 + unat pos) mod 65535 + 1"
proof -
  let ?w = "push_bit position_bits (ucast (raw fid)) OR pos :: 64 word"
  have pos: "unat pos < 2 ^ 30" and
    tid: "tid = \<lparr> block_number = ucast (?w div offset_base),
                  offset = ucast (?w mod offset_base + 1) \<rparr>"
    using assms(2)
    by (auto simp: encode_def max_position_def word_less_nat_alt Let_def split: if_splits)
  have w: "unat ?w = unat (raw fid) * 2 ^ 30 + unat pos"
    unfolding position_bits_def by (rule unat_packed [OF assms(1) pos])
  moreover have "unat (raw fid) * 2 ^ 30 + unat pos < 2 ^ 47"
    using assms(1) pos by simp
  ultimately have "unat ?w div 65535 < 2 ^ 32" "unat ?w mod 65535 + 1 < 2 ^ 16"
    using mod_less_divisor [of 65535 "unat ?w"] by auto
  then show "unat (block_number tid) = (unat (raw fid) * 2 ^ 30 + unat pos) div 65535"
    and "unat (offset tid) = (unat (raw fid) * 2 ^ 30 + unat pos) mod 65535 + 1"
    unfolding tid w [symmetric]
    by (simp_all add: unat_ucast_small unat_div_base unat_mod_base_Suc)
qed

lemma decode_unat:
  assumes "decode tid = Inr r"
  defines "p \<equiv> unat (block_number tid) * 65535 + (unat (offset tid) - 1)"
  shows "offset tid \<noteq> 0" and "block_number tid < trigger_row_block_base" and "p < 2 ^ 47"
    and "unat (raw (file_id r)) = p div 2 ^ 30" and "unat (row_position r) = p mod 2 ^ 30"
proof -
  let ?w = "ucast (block_number tid) * offset_base + ucast (offset tid - 1) :: 64 word"
  show *: "offset tid \<noteq> 0" and "block_number tid < trigger_row_block_base"
    using assms(1) by (auto simp: decode_def split: if_splits)
  have w: "unat ?w = p" unfolding p_def by (rule unat_unpacked [OF *])
  have r: "?w < payload_limit"
    "r = \<lparr> file_id = IcebergFileId (ucast (drop_bit position_bits ?w AND file_mask)),
          row_position = ucast (?w AND position_mask) \<rparr>"
    using assms(1) by (auto simp: decode_def Let_def split: if_splits)
  then show "p < 2 ^ 47"
    by (simp add: word_less_nat_alt w payload_limit_def)
  then have "p div 2 ^ 30 < 2 ^ 17" by simp
  then show "unat (raw (file_id r)) = p div 2 ^ 30" "unat (row_position r) = p mod 2 ^ 30"
    by (simp_all add: r masks unat_ucast_small unat_and_mask unat_drop_bit w position_bits_def)
qed

lemma decode_in_range:
  assumes "offset tid \<noteq> 0" and "block_number tid < trigger_row_block_base"
    and "unat (block_number tid) * 65535 + (unat (offset tid) - 1) < 2 ^ 47"
  shows "\<exists>r. decode tid = Inr r"
proof -
  have "ucast (block_number tid) * offset_base + ucast (offset tid - 1) < payload_limit"
    using assms(3) by (simp add: word_less_nat_alt unat_unpacked [OF assms(1)] payload_limit_def)
  then show ?thesis
    using assms(1,2) by (simp add: decode_def Let_def not_le)
qed

lemma item_pointer_eqI:
  "unat (block_number t) = unat (block_number u) \<Longrightarrow> unat (offset t) = unat (offset u) \<Longrightarrow>
   (t :: item_pointer) = u"
  by (cases t; cases u) (simp add: word_unat_eq_iff)

section \<open>Properties\<close>

text \<open>
  C34. The synthetic \<open>ctid\<close> codec loses nothing: for every file ID that \<open>try_from_raw\<close>
  accepts and every 64-bit position, either the position exceeds 30 bits and \<open>encode\<close> fails
  with \<open>RowIdentityLimitExceeded\<close>, or \<open>encode\<close> yields an item pointer that passes both debug
  assertions (block below the trigger range, offset nonzero) and that \<open>decode\<close> maps back to
  exactly that file ID and position.
\<close>
theorem decode_encode:
  assumes "try_from_raw rw = Inr fid"
  shows "if max_position < pos then encode fid pos = Inl RowIdentityLimitExceeded
         else \<exists>tid r. encode fid pos = Inr tid \<and> block_number tid < trigger_row_block_base
                \<and> offset tid \<noteq> 0 \<and> decode tid = Inr r
                \<and> file_id r = fid \<and> unat (row_position r) = unat pos"
proof (cases "max_position < pos")
  case True
  then show ?thesis by (simp add: encode_def)
next
  case False
  then have pos: "unat pos < 2 ^ 30" by (simp add: max_position_def word_less_nat_alt)
  obtain tid where tid: "encode fid pos = Inr tid"
    using False by (simp add: encode_def Let_def)
  have f: "unat (raw fid) < 2 ^ 17"
    using try_from_raw_bound [OF assms] by (simp add: iceberg_file_id_bits_def)
  let ?p = "unat (raw fid) * 2 ^ 30 + unat pos"
  note u = encode_unat [OF f tid]
  have "?p < 2 ^ 47" using f pos by simp
  then have b: "block_number tid < trigger_row_block_base" and o: "offset tid \<noteq> 0"
    and p: "unat (block_number tid) * 65535 + (unat (offset tid) - 1) = ?p"
    using u by (auto simp: word_less_nat_alt trigger_row_block_base_def word_unat_eq_iff)
  obtain r where r: "decode tid = Inr r"
    using decode_in_range [OF o b] p \<open>?p < 2 ^ 47\<close> by metis
  have "file_id r = fid" "unat (row_position r) = unat pos"
    using decode_unat(4,5) [OF r] pos unfolding p
    by (auto intro!: iceberg_file_id.expand simp: word_unat_eq_iff)
  then show ?thesis using False tid b o r by auto
qed

theorem decode_encode_witness:
  "\<exists>tid r. encode (IcebergFileId 0x1FFFF) 0x3FFFFFFF = Inr tid
     \<and> block_number tid < trigger_row_block_base \<and> offset tid \<noteq> 0 \<and> decode tid = Inr r
     \<and> file_id r = IcebergFileId 0x1FFFF \<and> unat (row_position r) = unat (0x3FFFFFFF :: 64 word)"
  using decode_encode [of "0x1FFFF" "IcebergFileId 0x1FFFF" "0x3FFFFFFF"]
  by (simp add: try_from_raw_def max_iceberg_files_def max_position_def)

text \<open>
  C35. The codec is canonical and disjoint from trigger rows: every item pointer that \<open>decode\<close>
  accepts carries a file ID below the 17-bit limit, is exactly the one \<open>encode\<close> produces for the
  decoded identity, so no two item pointers name the same row, and is never a trigger-row ID.
\<close>
theorem encode_decode:
  assumes "decode tid = Inr r"
  shows "try_from_raw (raw (file_id r)) = Inr (file_id r)
         \<and> encode (file_id r) (ucast (row_position r)) = Inr tid \<and> \<not> is_encoded tid"
proof (intro conjI)
  let ?p = "unat (block_number tid) * 65535 + (unat (offset tid) - 1)"
  note d = decode_unat [OF assms]
  have f: "unat (raw (file_id r)) < 2 ^ 17" using d(3,4) by simp
  then show "try_from_raw (raw (file_id r)) = Inr (file_id r)"
    by (simp add: try_from_raw_def max_iceberg_files_def word_le_nat_alt)
  have pos: "unat (row_position r) < 2 ^ 30" using d(5) by simp
  then have "\<not> max_position < ucast (row_position r)"
    by (simp add: max_position_def word_less_nat_alt)
  then obtain tid' where tid': "encode (file_id r) (ucast (row_position r)) = Inr tid'"
    by (simp add: encode_def Let_def)
  note u = encode_unat [OF f tid']
  have q: "unat (raw (file_id r)) * 2 ^ 30 + unat (ucast (row_position r) :: 64 word) = ?p"
    using d(4,5) by simp
  obtain k where k: "unat (offset tid) = Suc k"
    using d(1) by (metis not0_implies_Suc unsigned_eq_0_iff)
  moreover have "unat (offset tid) < 2 ^ 16"
    by (rule order_less_le_trans [OF unsigned_less]) simp
  ultimately have "tid' = tid"
    using u unfolding q by (intro item_pointer_eqI) auto
  then show "encode (file_id r) (ucast (row_position r)) = Inr tid" using tid' by simp
  show "\<not> is_encoded tid" using d(2) by (auto simp: is_encoded_def)
qed

theorem encode_decode_witness:
  "encode (IcebergFileId 1) 7 = Inr \<lparr> block_number = 0x4000, offset = 0x4008 \<rparr>
   \<and> \<not> is_encoded \<lparr> block_number = 0x4000, offset = 0x4008 \<rparr>"
  using encode_decode [of "\<lparr> block_number = 0x4000, offset = 0x4008 \<rparr>"
      "\<lparr> file_id = IcebergFileId 1, row_position = 7 \<rparr>"]
  by (simp add: decode_def identity_consts)

lemma allocate_trigger_row_unat:
  assumes "unat token < 0x40000000 * 65535"
  shows "\<exists>tid. allocate_trigger_row token = (Inr tid, token + 1)
           \<and> unat (block_number tid) = 0xC0000000 + unat token div 65535
           \<and> unat (offset tid) = unat token mod 65535 + 1"
proof -
  have "unat token div 65535 < 0x40000000" using assms by simp
  moreover have "unat token mod 65535 + 1 < 2 ^ 16"
    using mod_less_divisor [of 65535 "unat token"] by simp
  ultimately show ?thesis
    using assms
    by (auto simp: allocate_trigger_row_def Let_def max_trigger_row_token_def word_le_nat_alt
        trigger_row_block_count_def trigger_row_block_base_def unat_div_base unat_mod_base_Suc
        unat_ucast_small unat_word_ariths offset_base_def unat_div unat_mod)
qed

text \<open>
  Trigger-row identities: from a counter below the limit, \<open>allocate\<close> always succeeds (its
  three overflow errors are unreachable), advances the counter by one and returns an identity
  in the reserved range whose \<open>token\<close> is the counter value, so identities are never reused, and
  which the physical decoder rejects; from the limit on it fails and leaves the counter alone.
\<close>
lemma allocate_trigger_row_token:
  "if max_trigger_row_token \<le> token
   then allocate_trigger_row token
          = (Inl ''LagoDB AFTER-trigger row identity space was exhausted'', token)
   else \<exists>tid e. allocate_trigger_row token = (Inr tid, token + 1) \<and> token < token + 1
          \<and> is_encoded tid \<and> trigger_token tid = token \<and> decode tid = Inl e"
proof (cases "max_trigger_row_token \<le> token")
  case True
  then show ?thesis by (simp add: allocate_trigger_row_def)
next
  case False
  then have t: "unat token < 0x40000000 * 65535"
    by (simp add: max_trigger_row_token_def trigger_row_block_count_def offset_base_def
        word_le_nat_alt not_le)
  obtain tid where tid: "allocate_trigger_row token = (Inr tid, token + 1)"
    and b: "unat (block_number tid) = 0xC0000000 + unat token div 65535"
    and o: "unat (offset tid) = unat token mod 65535 + 1"
    using allocate_trigger_row_unat [OF t] by blast
  have base: "trigger_row_block_base \<le> block_number tid"
    by (simp add: word_le_nat_alt trigger_row_block_base_def b)
  have o0: "offset tid \<noteq> 0" using o by auto
  have "unat (block_number tid - trigger_row_block_base) = unat token div 65535"
    using b base by (simp add: unat_sub trigger_row_block_base_def)
  then have "trigger_token tid = token"
    using unat_unpacked [OF o0, of "block_number tid - trigger_row_block_base"] o
    by (simp add: trigger_token_def word_unat_eq_iff)
  moreover have "token < token + 1"
    using t by (simp add: word_less_nat_alt unat_word_ariths)
  ultimately show ?thesis
    using False tid base o0 by (auto simp: is_encoded_def decode_def)
qed

end
