(* ===== verification/Row_Registry.thy ===== *)
theory Row_Registry
  imports Row_Identity Savepoints
begin

text \<open>
  The transaction-scoped row registry of one relation (\<open>write/registry.rs\<close>): data-file paths
  interned to stable file IDs, and the rows each running ModifyState has claimed for mutation,
  tagged with the savepoint level that owns the claim. A \<open>RoaringBitmap\<close> is a finite set of 32-bit
  positions; the borrow errors of the \<open>RefCell\<close>s cannot occur in the single-threaded,
  non-reentrant backend and are left out. The nesting level PostgreSQL reports is an argument.
\<close>

section \<open>State\<close>

datatype modify_state_id = ModifyStateId "64 word"

datatype row_mutation_claim =
    FirstTouch "32 word set option"
  | PreviouslyModified command_id

record mutation_owner =
  modify_state_id :: modify_state_id
  owner_command_id :: command_id
  owner_nest_level :: nest_level
  positions :: "32 word set"

record registered_file =
  path :: string
  mutation_owners :: "mutation_owner list"

record relation_row_registry =
  file_ids :: "string \<rightharpoonup> iceberg_file_id"
  files :: "registered_file list"
  next_modify_state_id :: "64 word"

definition registry_default :: relation_row_registry where
  "registry_default = \<lparr> file_ids = Map.empty, files = [], next_modify_state_id = 0 \<rparr>"

definition file_index :: "iceberg_file_id \<Rightarrow> nat" where
  "file_index fid = unat (raw fid)"

section \<open>Operations\<close>

definition register_file :: "string \<Rightarrow> relation_row_registry
    \<Rightarrow> iceberg_file_id iceberg_result \<times> relation_row_registry" where
  "register_file p reg = (case file_ids reg p of
       Some fid \<Rightarrow> (Inr fid, reg)
     | None \<Rightarrow>
         if 2 ^ 32 \<le> length (files reg)
         then (Inl (MetadataTracker ''Iceberg file ID cannot be represented as u32''), reg)
         else case try_from_raw (of_nat (length (files reg))) of
             Inl e \<Rightarrow> (Inl e, reg)
           | Inr fid \<Rightarrow> (Inr fid, reg \<lparr> file_ids := (file_ids reg)(p \<mapsto> fid),
                                       files := files reg @ [\<lparr> path = p, mutation_owners = [] \<rparr>] \<rparr>))"

definition unknown_file :: "iceberg_file_id \<Rightarrow> iceberg_error" where
  "unknown_file fid = MetadataTracker (''unknown Iceberg file ID '' @ show_nat (unat (raw fid)))"

definition file_path :: "iceberg_file_id \<Rightarrow> relation_row_registry \<Rightarrow> string iceberg_result" where
  "file_path fid reg =
     (if file_index fid < length (files reg) then Inr (path (files reg ! file_index fid))
      else Inl (unknown_file fid))"

definition begin_modify_state :: "relation_row_registry
    \<Rightarrow> modify_state_id iceberg_result \<times> relation_row_registry" where
  "begin_modify_state reg =
     (if next_modify_state_id reg = - 1
      then (Inl (MetadataTracker ''Iceberg ModifyState ID space was exhausted''), reg)
      else (Inr (ModifyStateId (next_modify_state_id reg)),
            reg \<lparr> next_modify_state_id := next_modify_state_id reg + 1 \<rparr>))"

text \<open>
  The scan over a file's owners: the command of another owner that holds the row, or the index of
  the caller's own entry.
\<close>

fun scan_owners :: "modify_state_id \<Rightarrow> 32 word \<Rightarrow> nat \<Rightarrow> nat option \<Rightarrow> mutation_owner list
    \<Rightarrow> command_id + nat option" where
  "scan_owners ms pos i cur [] = Inr cur"
| "scan_owners ms pos i cur (owner # rest) =
     (if modify_state_id owner = ms then scan_owners ms pos (Suc i) (Some i) rest
      else if pos \<in> positions owner then Inl (owner_command_id owner)
      else scan_owners ms pos (Suc i) cur rest)"

definition claim_in_file :: "modify_state_id \<Rightarrow> 32 word \<Rightarrow> command_id \<Rightarrow> nest_level
    \<Rightarrow> mutation_owner list \<Rightarrow> row_mutation_claim iceberg_result \<times> mutation_owner list" where
  "claim_in_file ms pos cid level owners = (case scan_owners ms pos 0 None owners of
       Inl other \<Rightarrow> (Inr (PreviouslyModified other), owners)
     | Inr (Some i) \<Rightarrow>
         (let owner = owners ! i in
          if owner_command_id owner \<noteq> cid
          then (Inl (InvariantViolated ''one Iceberg ModifyState observed multiple command IDs''), owners)
          else if pos \<in> positions owner
          then (Inr (PreviouslyModified (owner_command_id owner)), owners)
          else (Inr (FirstTouch None), owners[i := owner \<lparr> positions := insert pos (positions owner) \<rparr>]))
     | Inr None \<Rightarrow>
         (Inr (FirstTouch (Some {pos})),
          owners @ [\<lparr> modify_state_id = ms, owner_command_id = cid, owner_nest_level = level,
                      positions = {pos} \<rparr>]))"

definition claim :: "modify_state_id \<Rightarrow> iceberg_file_id \<Rightarrow> 32 word \<Rightarrow> command_id \<Rightarrow> nest_level
    \<Rightarrow> relation_row_registry \<Rightarrow> row_mutation_claim iceberg_result \<times> relation_row_registry" where
  "claim ms fid pos cid level reg =
     (if file_index fid < length (files reg)
      then let file = files reg ! file_index fid;
               (r, owners) = claim_in_file ms pos cid level (mutation_owners file)
           in (r, reg \<lparr> files := (files reg)[file_index fid := file \<lparr> mutation_owners := owners \<rparr>] \<rparr>)
      else (Inl (unknown_file fid), reg))"

definition registry_rollback_to_level :: "nest_level \<Rightarrow> relation_row_registry \<Rightarrow> relation_row_registry" where
  "registry_rollback_to_level target reg =
     reg \<lparr> files := map (\<lambda>file. file \<lparr> mutation_owners :=
       filter (\<lambda>owner. owner_nest_level owner < target) (mutation_owners file) \<rparr>) (files reg) \<rparr>"

definition registry_promote_to_level :: "nest_level \<Rightarrow> relation_row_registry \<Rightarrow> relation_row_registry" where
  "registry_promote_to_level from_level reg =
     reg \<lparr> files := map (\<lambda>file. file \<lparr> mutation_owners :=
       map (\<lambda>owner. if from_level \<le> owner_nest_level owner
                    then owner \<lparr> owner_nest_level := from_level - 1 \<rparr> else owner)
         (mutation_owners file) \<rparr>) (files reg) \<rparr>"

section \<open>Runs\<close>

datatype registry_op =
    RegisterFile string
  | BeginModifyState
  | Claim modify_state_id iceberg_file_id "32 word" command_id nest_level
  | RollbackLevel nest_level
  | PromoteLevel nest_level

fun registry_step :: "registry_op \<Rightarrow> relation_row_registry \<Rightarrow> relation_row_registry" where
  "registry_step (RegisterFile p) reg = snd (register_file p reg)"
| "registry_step BeginModifyState reg = snd (begin_modify_state reg)"
| "registry_step (Claim ms fid pos cid level) reg = snd (claim ms fid pos cid level reg)"
| "registry_step (RollbackLevel n) reg = registry_rollback_to_level n reg"
| "registry_step (PromoteLevel n) reg = registry_promote_to_level n reg"

section \<open>Invariant\<close>

definition owners_ok :: "mutation_owner list \<Rightarrow> bool" where
  "owners_ok = sorted_wrt (\<lambda>x y. modify_state_id x \<noteq> modify_state_id y \<and> positions x \<inter> positions y = {})"

definition ids_ok :: "relation_row_registry \<Rightarrow> bool" where
  "ids_ok reg \<longleftrightarrow> length (files reg) \<le> max_iceberg_files
     \<and> distinct (map path (files reg))
     \<and> (\<forall>p fid. file_ids reg p = Some fid \<longleftrightarrow>
          file_index fid < length (files reg) \<and> path (files reg ! file_index fid) = p)"

definition registry_ok :: "relation_row_registry \<Rightarrow> bool" where
  "registry_ok reg \<longleftrightarrow> ids_ok reg \<and> (\<forall>file \<in> set (files reg). owners_ok (mutation_owners file))"

text \<open>Who holds a row: the ModifyState, its command and the level that owns the claim.\<close>

definition holder_in :: "32 word \<Rightarrow> mutation_owner list \<Rightarrow> (modify_state_id \<times> command_id \<times> nest_level) option" where
  "holder_in pos owners =
     map_option (\<lambda>owner. (modify_state_id owner, owner_command_id owner, owner_nest_level owner))
       (find (\<lambda>owner. pos \<in> positions owner) owners)"

definition holder :: "iceberg_file_id \<Rightarrow> 32 word \<Rightarrow> relation_row_registry
    \<Rightarrow> (modify_state_id \<times> command_id \<times> nest_level) option" where
  "holder fid pos reg =
     (if file_index fid < length (files reg) then holder_in pos (mutation_owners (files reg ! file_index fid))
      else None)"

section \<open>Claims within one file\<close>

lemma owners_ok_simps [simp]:
  "owners_ok []"
  "owners_ok (x # xs) \<longleftrightarrow> owners_ok xs
     \<and> (\<forall>y \<in> set xs. modify_state_id x \<noteq> modify_state_id y \<and> positions x \<inter> positions y = {})"
  by (auto simp: owners_ok_def)

lemma holder_in_simps [simp]:
  "holder_in pos [] = None"
  "holder_in pos (x # xs) = (if pos \<in> positions x
     then Some (modify_state_id x, owner_command_id x, owner_nest_level x) else holder_in pos xs)"
  by (simp_all add: holder_in_def)

lemma holder_in_unique:
  "owners_ok owners \<Longrightarrow> x \<in> set owners \<Longrightarrow> pos \<in> positions x \<Longrightarrow>
     holder_in pos owners = Some (modify_state_id x, owner_command_id x, owner_nest_level x)"
  by (induction owners) auto

lemma same_owner:
  "owners_ok owners \<Longrightarrow> x \<in> set owners \<Longrightarrow> y \<in> set owners \<Longrightarrow> modify_state_id x = modify_state_id y \<Longrightarrow> x = y"
  by (induction owners) auto

lemma holder_in_None: "holder_in pos owners = None \<longleftrightarrow> (\<forall>x \<in> set owners. pos \<notin> positions x)"
  by (induction owners) auto

lemma holder_in_append:
  "holder_in pos (xs @ ys) = (case holder_in pos xs of None \<Rightarrow> holder_in pos ys | Some t \<Rightarrow> Some t)"
  by (induction xs) auto

lemma scan_owners_spec:
  "case scan_owners ms pos i cur owners of
     Inl c \<Rightarrow> \<exists>x \<in> set owners. modify_state_id x \<noteq> ms \<and> pos \<in> positions x \<and> owner_command_id x = c
   | Inr r \<Rightarrow> (\<forall>x \<in> set owners. modify_state_id x \<noteq> ms \<longrightarrow> pos \<notin> positions x)
       \<and> (case r of
            None \<Rightarrow> cur = None \<and> ms \<notin> modify_state_id ` set owners
          | Some j \<Rightarrow> cur = Some j \<or> (\<exists>k < length owners. j = i + k \<and> modify_state_id (owners ! k) = ms))"
proof (induction ms pos i cur owners rule: scan_owners.induct)
  case (2 ms pos i cur x rest)
  have shift: "(\<exists>k < length (x # rest). j = i + k \<and> modify_state_id ((x # rest) ! k) = ms) \<longleftrightarrow>
      (j = i \<and> modify_state_id x = ms)
      \<or> (\<exists>k < length rest. j = Suc i + k \<and> modify_state_id (rest ! k) = ms)" for j
    by (auto simp: less_Suc_eq_0_disj)
  show ?case
    using 2 unfolding shift by (auto split: sum.splits option.splits)
qed (auto split: option.splits)

lemma owners_ok_update:
  "owners_ok owners \<Longrightarrow> j < length owners \<Longrightarrow> modify_state_id x = modify_state_id (owners ! j) \<Longrightarrow>
   positions x = insert pos (positions (owners ! j)) \<Longrightarrow> \<forall>y \<in> set owners. pos \<notin> positions y \<Longrightarrow>
   owners_ok (owners[j := x])"
proof (induction owners arbitrary: j)
  case (Cons y ys)
  show ?case
  proof (cases j)
    case (Suc k)
    then have "ys ! k \<in> set ys" using Cons.prems(2) by simp
    then have "z \<notin> positions y" if "z \<in> positions (ys ! k)" for z using Cons.prems(1) that by auto
    then show ?thesis
      using Cons Suc by (auto dest!: set_update_subset_insert [THEN subsetD])
  qed (use Cons in auto)
qed simp

lemma holder_in_update:
  "j < length owners \<Longrightarrow> modify_state_id x = modify_state_id (owners ! j) \<Longrightarrow>
   owner_command_id x = owner_command_id (owners ! j) \<Longrightarrow> owner_nest_level x = owner_nest_level (owners ! j) \<Longrightarrow>
   q \<in> positions x \<longleftrightarrow> q \<in> positions (owners ! j) \<Longrightarrow> holder_in q (owners[j := x]) = holder_in q owners"
proof (induction owners arbitrary: j)
  case (Cons y ys)
  then show ?case by (cases j) auto
qed simp

text \<open>
  The outcome of a claim is decided by the row's holder. Only an unheld row changes hands, and only
  that row.
\<close>

lemma claim_in_file_held:
  assumes "owners_ok owners" and "holder_in pos owners = Some (ms', cid', l)"
  shows "claim_in_file ms pos cid level owners =
     (if ms' = ms \<and> cid' \<noteq> cid
      then Inl (InvariantViolated ''one Iceberg ModifyState observed multiple command IDs'')
      else Inr (PreviouslyModified cid'), owners)"
proof (cases "scan_owners ms pos 0 None owners")
  case (Inl c)
  then show ?thesis
    using scan_owners_spec [where ms = ms and pos = pos and i = 0 and cur = None and owners = owners] holder_in_unique [OF assms(1)] assms(2)
    by (force simp: claim_in_file_def)
next
  case (Inr r)
  have others: "\<forall>x \<in> set owners. modify_state_id x \<noteq> ms \<longrightarrow> pos \<notin> positions x"
    using scan_owners_spec [where ms = ms and pos = pos and i = 0 and cur = None and owners = owners] Inr by simp
  obtain x where x: "x \<in> set owners" "pos \<in> positions x"
    using assms(2) holder_in_None [of pos owners] by auto
  then have "r \<noteq> None"
    using scan_owners_spec [where ms = ms and pos = pos and i = 0 and cur = None and owners = owners] Inr others by (auto split: option.splits)
  then obtain j where j: "r = Some j" "j < length owners" "modify_state_id (owners ! j) = ms"
    using scan_owners_spec [where ms = ms and pos = pos and i = 0 and cur = None and owners = owners] Inr by (auto split: option.splits)
  have "x = owners ! j"
    using same_owner [OF assms(1) x(1), of "owners ! j"] others x j by auto
  then show ?thesis
    using holder_in_unique [OF assms(1) x] assms(2) j x Inr by (auto simp: claim_in_file_def Let_def)
qed

lemma claim_in_file_free:
  assumes "owners_ok owners" and "holder_in pos owners = None"
    and "claim_in_file ms pos cid level owners = (r, owners')"
  shows "owners_ok owners'"
    and "if \<exists>x \<in> set owners. modify_state_id x = ms \<and> owner_command_id x \<noteq> cid
         then r = Inl (InvariantViolated ''one Iceberg ModifyState observed multiple command IDs'')
              \<and> owners' = owners
         else (\<exists>t l. r = Inr (FirstTouch t) \<and> holder_in pos owners' = Some (ms, cid, l))
              \<and> (\<forall>q. q \<noteq> pos \<longrightarrow> holder_in q owners' = holder_in q owners)"
proof -
  have free: "\<forall>x \<in> set owners. pos \<notin> positions x" using assms(2) by (simp add: holder_in_None)
  note spec = scan_owners_spec [where ms = ms and pos = pos and i = 0 and cur = None and owners = owners]
  obtain r' where r': "scan_owners ms pos 0 None owners = Inr r'"
    using spec free by (auto split: sum.splits)
  have goal: "owners_ok owners' \<and>
      (if \<exists>x \<in> set owners. modify_state_id x = ms \<and> owner_command_id x \<noteq> cid
       then r = Inl (InvariantViolated ''one Iceberg ModifyState observed multiple command IDs'')
            \<and> owners' = owners
       else (\<exists>t l. r = Inr (FirstTouch t) \<and> holder_in pos owners' = Some (ms, cid, l))
            \<and> (\<forall>q. q \<noteq> pos \<longrightarrow> holder_in q owners' = holder_in q owners))"
  proof (cases r')
    case None
    let ?new = "\<lparr> modify_state_id = ms, owner_command_id = cid, owner_nest_level = level, positions = {pos} \<rparr>"
    have new: "ms \<notin> modify_state_id ` set owners" using spec r' None by simp
    have "r = Inr (FirstTouch (Some {pos}))" "owners' = owners @ [?new]"
      using assms(3) r' None by (auto simp: claim_in_file_def)
    moreover have "owners_ok (owners @ [?new])"
      using assms(1) new free by (auto simp: owners_ok_def sorted_wrt_append)
    ultimately show ?thesis
      using new assms(2) by (auto simp: holder_in_append split: option.splits)
  next
    case (Some j)
    then have j: "j < length owners" "modify_state_id (owners ! j) = ms" using spec r' by auto
    then have mine: "owners ! j \<in> set owners" by simp
    let ?x = "(owners ! j) \<lparr> positions := insert pos (positions (owners ! j)) \<rparr>"
    show ?thesis
    proof (cases "owner_command_id (owners ! j) = cid")
      case True
      then have same: "\<not> (\<exists>x \<in> set owners. modify_state_id x = ms \<and> owner_command_id x \<noteq> cid)"
        by (metis same_owner assms(1) mine j(2))
      have r: "r = Inr (FirstTouch None)" "owners' = owners[j := ?x]"
        using assms(3) r' Some True free mine by (auto simp: claim_in_file_def Let_def)
      have ok: "owners_ok owners'"
        unfolding r(2) by (rule owners_ok_update [OF assms(1) j(1)]) (use free in simp_all)
      have "?x \<in> set owners'" unfolding r(2) using j(1) by (rule set_update_memI)
      then have "holder_in pos owners' = Some (ms, cid, owner_nest_level (owners ! j))"
        using holder_in_unique [OF ok] j(2) True by auto
      moreover have "holder_in q owners' = holder_in q owners" if "q \<noteq> pos" for q
        unfolding r(2) by (rule holder_in_update [OF j(1)]) (use that in simp_all)
      ultimately show ?thesis using ok same r(1) by auto
    next
      case False
      then show ?thesis
        using assms(1,3) r' Some mine j(2) by (auto simp: claim_in_file_def Let_def)
    qed
  qed
  then show "owners_ok owners'" by blast
  show "if \<exists>x \<in> set owners. modify_state_id x = ms \<and> owner_command_id x \<noteq> cid
         then r = Inl (InvariantViolated ''one Iceberg ModifyState observed multiple command IDs'')
              \<and> owners' = owners
         else (\<exists>t l. r = Inr (FirstTouch t) \<and> holder_in pos owners' = Some (ms, cid, l))
              \<and> (\<forall>q. q \<noteq> pos \<longrightarrow> holder_in q owners' = holder_in q owners)"
    using goal by blast
qed

section \<open>The invariant holds in every run\<close>

lemma rollback_owners_ok: "owners_ok owners \<Longrightarrow> owners_ok (filter P owners)"
  by (simp add: owners_ok_def sorted_wrt_filter)

lemma promote_owners_ok:
  "owners_ok owners \<Longrightarrow>
   owners_ok (map (\<lambda>x. if n \<le> owner_nest_level x then x \<lparr> owner_nest_level := n - 1 \<rparr> else x) owners)"
  unfolding owners_ok_def sorted_wrt_map by (rule sorted_wrt_mono_rel) auto

lemma claim_in_file_ok:
  "owners_ok owners \<Longrightarrow> owners_ok (snd (claim_in_file ms pos cid level owners))"
proof (cases "holder_in pos owners")
  case None
  assume "owners_ok owners"
  then show ?thesis
    using claim_in_file_free(1) None by (cases "claim_in_file ms pos cid level owners") auto
qed (auto simp: claim_in_file_held)

lemma unat_of_nat_file: "n \<le> max_iceberg_files \<Longrightarrow> unat (of_nat n :: 32 word) = n"
  by (simp add: max_iceberg_files_def unat_of_nat)

lemma try_from_raw_length:
  "n \<le> max_iceberg_files \<Longrightarrow>
     try_from_raw (of_nat n) = (if n = max_iceberg_files then Inl (FileIdLimitExceeded max_iceberg_files)
                               else Inr (IcebergFileId (of_nat n)))"
  by (auto simp: try_from_raw_def word_le_nat_alt unat_of_nat_file)

lemma file_index_of_nat: "n \<le> max_iceberg_files \<Longrightarrow> file_index (IcebergFileId (of_nat n)) = n"
  by (simp add: file_index_def unat_of_nat_file)

lemma file_index_inject: "file_index f = file_index g \<longleftrightarrow> f = g"
  by (cases f; cases g) (auto simp: file_index_def word_unat_eq_iff)

lemma register_file_new:
  assumes "ids_ok reg" and "file_ids reg p = None"
  shows "register_file p reg = (if length (files reg) = max_iceberg_files
     then (Inl (FileIdLimitExceeded max_iceberg_files), reg)
     else (Inr (IcebergFileId (of_nat (length (files reg)))),
           reg \<lparr> file_ids := (file_ids reg)(p \<mapsto> IcebergFileId (of_nat (length (files reg)))),
                 files := files reg @ [\<lparr> path = p, mutation_owners = [] \<rparr>] \<rparr>))"
  using assms by (simp add: register_file_def ids_ok_def try_from_raw_length) (simp add: max_iceberg_files_def)

lemma ids_ok_register:
  assumes "ids_ok reg"
  shows "ids_ok (snd (register_file p reg))"
proof (cases "file_ids reg p")
  case None
  let ?n = "length (files reg)"
  have new: "p \<notin> set (map path (files reg))"
  proof
    assume "p \<in> set (map path (files reg))"
    then obtain i where i: "i < ?n" "path (files reg ! i) = p" by (auto simp: in_set_conv_nth)
    have "?n \<le> max_iceberg_files" using assms by (simp add: ids_ok_def)
    then have "file_index (IcebergFileId (of_nat i)) = i" using i(1) by (intro file_index_of_nat) simp
    then have "file_ids reg p = Some (IcebergFileId (of_nat i))"
      using i assms by (simp add: ids_ok_def)
    then show False using None by simp
  qed
  show ?thesis
  proof (cases "?n = max_iceberg_files")
    case False
    have idx: "file_index (IcebergFileId (of_nat ?n)) = ?n"
      using assms by (intro file_index_of_nat) (simp add: ids_ok_def)
    have "file_index fid = ?n \<longleftrightarrow> fid = IcebergFileId (of_nat ?n)" for fid
      using file_index_inject [of fid "IcebergFileId (of_nat ?n)"] idx by simp
    moreover have "path (files reg ! i) \<noteq> p" if "i < ?n" for i
      using new that by (metis length_map nth_map nth_mem)
    ultimately show ?thesis
      using assms False new
      by (auto simp: register_file_new [OF assms None] ids_ok_def nth_append less_Suc_eq idx)
  qed (simp add: register_file_new [OF assms None] assms)
qed (simp add: register_file_def assms)

lemma claim_fields [simp]:
  "file_ids (snd (claim ms fid pos cid level reg)) = file_ids reg"
  "map path (files (snd (claim ms fid pos cid level reg))) = map path (files reg)"
  by (auto simp: claim_def Let_def split_beta map_update list_update_same_conv)

lemma ids_ok_cong:
  assumes "ids_ok reg" and "file_ids reg' = file_ids reg" and "map path (files reg') = map path (files reg)"
  shows "ids_ok reg'"
proof -
  have "length (files reg') = length (files reg)" by (metis assms(3) length_map)
  moreover have "path (files reg' ! i) = path (files reg ! i)" if "i < length (files reg)" for i
    by (metis assms(3) calculation nth_map that)
  ultimately show ?thesis using assms by (auto simp: ids_ok_def)
qed

lemma registry_step_ids:
  assumes "ids_ok reg"
  shows "ids_ok (registry_step op reg)"
proof (cases op)
  case (RegisterFile p)
  then show ?thesis by (simp add: ids_ok_register [OF assms])
qed (use assms in \<open>auto simp: registry_rollback_to_level_def registry_promote_to_level_def
    begin_modify_state_def o_def intro!: ids_ok_cong [OF assms]\<close>)

lemma registry_step_ok:
  assumes "registry_ok reg"
  shows "registry_ok (registry_step op reg)"
proof -
  have "\<forall>file \<in> set (files (registry_step op reg)). owners_ok (mutation_owners file)"
  proof (cases op)
    case (RegisterFile p)
    then show ?thesis
      using assms by (auto simp: registry_ok_def register_file_def split: option.splits if_splits sum.splits)
  next
    case (Claim ms fid pos cid level)
    then show ?thesis
      using assms
      by (auto simp: registry_ok_def claim_def Let_def split_beta claim_in_file_ok
          dest!: set_update_subset_insert [THEN subsetD])
  qed (use assms in \<open>auto simp: registry_ok_def registry_rollback_to_level_def begin_modify_state_def
      registry_promote_to_level_def rollback_owners_ok promote_owners_ok\<close>)
  then show ?thesis using assms registry_step_ids by (simp add: registry_ok_def)
qed

lemma registry_run_ok: "registry_ok (fold registry_step ops registry_default)"
proof -
  have "registry_ok reg \<Longrightarrow> registry_ok (fold registry_step ops reg)" for reg
    by (induction ops arbitrary: reg) (simp_all add: registry_step_ok)
  moreover have "registry_ok registry_default"
    by (simp add: registry_ok_def ids_ok_def registry_default_def)
  ultimately show ?thesis by blast
qed

section \<open>Properties\<close>

text \<open>Paths keep their place in every run, rollbacks included.\<close>

lemma registry_step_keeps:
  assumes "i < length (files reg)"
  shows "i < length (files (registry_step op reg)) \<and> path (files (registry_step op reg) ! i) = path (files reg ! i)"
proof (cases op)
  case (RegisterFile p)
  then show ?thesis
    using assms by (auto simp: register_file_def nth_append split: option.splits sum.splits)
next
  case (Claim ms fid pos cid level)
  have "map path (files (snd (claim ms fid pos cid level reg))) = map path (files reg)" by simp
  then show ?thesis
    using assms unfolding Claim registry_step.simps by (metis length_map nth_map)
qed (use assms in \<open>auto simp: registry_rollback_to_level_def registry_promote_to_level_def
    begin_modify_state_def\<close>)

lemma registry_run_keeps:
  "i < length (files reg) \<Longrightarrow>
     i < length (files (fold registry_step ops reg))
   \<and> path (files (fold registry_step ops reg) ! i) = path (files reg ! i)"
proof (induction ops arbitrary: reg)
  case (Cons op ops)
  then show ?case using registry_step_keeps [OF Cons.prems, of op] by auto
qed simp

lemma register_file_Inr:
  assumes "ids_ok reg" and "register_file p reg = (Inr fid, reg')"
  shows "file_index fid < length (files reg') \<and> path (files reg' ! file_index fid) = p \<and> ids_ok reg'"
proof -
  have ok: "ids_ok reg'" using ids_ok_register [OF assms(1), of p] assms(2) by simp
  have "file_ids reg' p = Some fid"
    using assms register_file_new [OF assms(1)]
    by (cases "file_ids reg p") (auto simp: register_file_def split: if_splits)
  then show ?thesis using ok by (simp add: ids_ok_def)
qed

text \<open>
  C26. File IDs are stable and unique: once a path is registered, its ID is below the 17-bit limit of
  the row-identity codec, resolves to that path, is returned again for it and is never given to
  another path, whatever happens afterwards, savepoint rollbacks included.
\<close>
theorem file_ids_stable:
  assumes "register_file p (fold registry_step ops registry_default) = (Inr fid, reg)"
  shows "try_from_raw (raw fid) = Inr fid
       \<and> file_path fid (fold registry_step ops' reg) = Inr p
       \<and> fst (register_file p (fold registry_step ops' reg)) = Inr fid
       \<and> (q \<noteq> p \<longrightarrow> fst (register_file q (fold registry_step ops' reg)) \<noteq> Inr fid)"
proof -
  let ?final = "fold registry_step ops' reg"
  have ok0: "registry_ok reg"
    using registry_step_ok [OF registry_run_ok, of "RegisterFile p" ops] assms by simp
  have run: "registry_ok r \<Longrightarrow> registry_ok (fold registry_step ops' r)" for r
    by (induction ops' arbitrary: r) (simp_all add: registry_step_ok)
  have ids: "ids_ok ?final" using run [OF ok0] by (simp add: registry_ok_def)
  have reg: "file_index fid < length (files reg)" "path (files reg ! file_index fid) = p"
    using register_file_Inr [OF _ assms] registry_run_ok [of ops] by (auto simp: registry_ok_def)
  note kept = registry_run_keeps [OF reg(1), of ops']
  then have p: "file_ids ?final p = Some fid" using ids reg(2) by (simp add: ids_ok_def)
  have "fst (register_file q ?final) \<noteq> Inr fid" if "q \<noteq> p"
  proof
    assume "fst (register_file q ?final) = Inr fid"
    then obtain reg' where r: "register_file q ?final = (Inr fid, reg')" by (metis prod.collapse)
    have "path (files reg' ! file_index fid) = q" using register_file_Inr [OF ids r] by simp
    moreover have "path (files reg' ! file_index fid) = p"
      using registry_step_keeps [of "file_index fid" ?final "RegisterFile q"] kept reg(2) r by simp
    ultimately show False using that by simp
  qed
  moreover have "unat (raw fid) < max_iceberg_files"
    using kept ids by (simp add: ids_ok_def file_index_def)
  ultimately show ?thesis
    using kept reg(2) p
    by (simp add: file_path_def register_file_def try_from_raw_def word_le_nat_alt max_iceberg_files_def)
qed

theorem file_ids_stable_witness:
  "file_path (IcebergFileId 1) (fold registry_step [RollbackLevel 2, RegisterFile ''c'']
     (snd (register_file ''b'' (fold registry_step [RegisterFile ''a''] registry_default)))) = Inr ''b''"
proof -
  have r: "register_file ''b'' (fold registry_step [RegisterFile ''a''] registry_default)
      = (Inr (IcebergFileId 1), snd (register_file ''b'' (fold registry_step [RegisterFile ''a''] registry_default)))"
    by (simp add: register_file_def registry_default_def try_from_raw_def max_iceberg_files_def
        word_le_nat_alt)
  show ?thesis using file_ids_stable [OF r] by blast
qed

text \<open>
  When registration fails: in every run, \<open>register_file\<close> fails only for a new path when exactly
  131072 files are registered, with \<open>FileIdLimitExceeded\<close>, and changes nothing then.
\<close>
lemma register_file_limit:
  "let reg = fold registry_step ops registry_default in
     (\<exists>e. fst (register_file p reg) = Inl e)
       \<longleftrightarrow> register_file p reg = (Inl (FileIdLimitExceeded 131072), reg)
           \<and> file_ids reg p = None \<and> length (files reg) = 131072"
proof -
  have ids: "ids_ok (fold registry_step ops registry_default)"
    using registry_run_ok [of ops] by (simp add: registry_ok_def)
  show ?thesis
    using register_file_new [OF ids, of p]
    by (cases "file_ids (fold registry_step ops registry_default) p")
      (auto simp: Let_def register_file_def [of p "fold _ _ _"] max_iceberg_files_def)
qed

text \<open>
  C28. Row claims are exclusive: in every run and for every registered file, a row that some
  ModifyState holds stays with it, and whoever claims it again is told the command that holds it
  (or, if it is that ModifyState under another command ID, gets the invariant error); an unheld row
  goes to the claimant under its command, which is reported as a first touch, and no other row
  changes its holder.
\<close>
theorem claim_exclusive:
  assumes "reg = fold registry_step ops registry_default" and "file_index fid < length (files reg)"
  shows "case holder fid pos reg of
      Some (ms', cid', l) \<Rightarrow> claim ms fid pos cid level reg =
        (if ms' = ms \<and> cid' \<noteq> cid
         then Inl (InvariantViolated ''one Iceberg ModifyState observed multiple command IDs'')
         else Inr (PreviouslyModified cid'), reg)
    | None \<Rightarrow>
        (if \<exists>x \<in> set (mutation_owners (files reg ! file_index fid)).
              modify_state_id x = ms \<and> owner_command_id x \<noteq> cid
         then claim ms fid pos cid level reg =
           (Inl (InvariantViolated ''one Iceberg ModifyState observed multiple command IDs''), reg)
         else \<exists>t l reg'. claim ms fid pos cid level reg = (Inr (FirstTouch t), reg')
           \<and> holder fid pos reg' = Some (ms, cid, l)
           \<and> (\<forall>f q. (f, q) \<noteq> (fid, pos) \<longrightarrow> holder f q reg' = holder f q reg))"
proof -
  let ?file = "files reg ! file_index fid" and ?owners = "mutation_owners (files reg ! file_index fid)"
  have ok: "owners_ok ?owners"
    using registry_run_ok [of ops] assms by (simp add: registry_ok_def)
  have same: "reg \<lparr> files := (files reg)[file_index fid := ?file \<lparr> mutation_owners := ?owners \<rparr>] \<rparr> = reg"
    by simp
  show ?thesis
  proof (cases "holder_in pos ?owners")
    case (Some t)
    obtain ms' cid' l where t: "t = (ms', cid', l)" by (cases t)
    show ?thesis
      using claim_in_file_held [OF ok Some [unfolded t], of ms cid level] assms(2) Some same
      by (simp add: holder_def claim_def t Let_def)
  next
    case None
    obtain r owners' where c: "claim_in_file ms pos cid level ?owners = (r, owners')" by fastforce
    let ?reg = "reg \<lparr> files := (files reg)[file_index fid := ?file \<lparr> mutation_owners := owners' \<rparr>] \<rparr>"
    have cl: "claim ms fid pos cid level reg = (r, ?reg)"
      using assms(2) c by (simp add: claim_def Let_def)
    have h: "holder f q ?reg = (if f = fid then holder_in q owners' else holder f q reg)" for f q
      using assms(2) by (auto simp: holder_def nth_list_update file_index_inject)
    note free = claim_in_file_free(2) [OF ok None c]
    show ?thesis
    proof (cases "\<exists>x \<in> set ?owners. modify_state_id x = ms \<and> owner_command_id x \<noteq> cid")
      case True
      then show ?thesis using free None assms(2) same cl by (simp add: holder_def)
    next
      case False
      then obtain t l where "r = Inr (FirstTouch t)" "holder_in pos owners' = Some (ms, cid, l)"
        "\<And>q. q \<noteq> pos \<Longrightarrow> holder_in q owners' = holder_in q ?owners"
        using free unfolding if_not_P [OF False] by blast
      then have "claim ms fid pos cid level reg = (Inr (FirstTouch t), ?reg)
          \<and> holder fid pos ?reg = Some (ms, cid, l)
          \<and> (\<forall>f q. (f, q) \<noteq> (fid, pos) \<longrightarrow> holder f q ?reg = holder f q reg)"
        using cl assms(2) unfolding h by (auto simp: holder_def)
      then show ?thesis using False None assms(2) by (auto simp: holder_def)
    qed
  qed
qed

theorem claim_exclusive_witness:
  "fst (claim (ModifyStateId 1) (IcebergFileId 0) 7 6 2
     (fold registry_step [RegisterFile ''a'', Claim (ModifyStateId 0) (IcebergFileId 0) 7 5 1] registry_default))
   = Inr (PreviouslyModified 5)"
proof -
  let ?reg = "fold registry_step [RegisterFile ''a'', Claim (ModifyStateId 0) (IcebergFileId 0) 7 5 1] registry_default"
  have len: "file_index (IcebergFileId 0) < length (files ?reg)"
    and h: "holder (IcebergFileId 0) 7 ?reg = Some (ModifyStateId 0, 5, 1)"
    by (simp_all add: register_file_def registry_default_def try_from_raw_def max_iceberg_files_def
        word_le_nat_alt file_index_def claim_def claim_in_file_def holder_def)
  show ?thesis
    using claim_exclusive [OF refl len, where pos = 7 and ms = "ModifyStateId 1" and cid = 6 and level = 2] h
    by simp
qed



end
