(* ===== verification/Data_Epoch.thy ===== *)
theory Data_Epoch
  imports Prelude
begin

text \<open>
  Command-owned write batches and data epochs (\<open>write/transaction/data_epoch.rs\<close>).

  \<open>SnapshotDelta\<close>, the file overlay a batch carries, belongs to the \<open>iceberg_lite\<close> crate and is
  a type parameter \<open>'d\<close>; its operations are the fields of a record that every operation takes
  as an argument. An operation of that crate that fails yields the engine's error, as the \<open>?\<close> in
  the source converts it. A \<open>OnceCell\<close> is an option in the state; an operation that may fill it
  returns the state as well.
\<close>

section \<open>The overlay interface\<close>

record 'd delta_api =
  sd_new :: 'd
  sd_is_empty :: "'d \<Rightarrow> bool"
  sd_append_delta :: "'d \<Rightarrow> 'd \<Rightarrow> 'd iceberg_result"
  sd_truncate_table :: "'d \<Rightarrow> 'd iceberg_result"
  sd_created_file_paths :: "'d \<Rightarrow> string list"
  sd_canceled_created_file_paths :: "'d \<Rightarrow> string list"

record ('d, 'f, 'i) delta_builder =
  sd_add_data_file :: "'f \<Rightarrow> 'd \<Rightarrow> 'd iceberg_result"
  sd_remove_delete_file :: "'i \<Rightarrow> 'd \<Rightarrow> 'd iceberg_result"
  sd_add_position_delete_file :: "'f \<Rightarrow> string list \<Rightarrow> 'd \<Rightarrow> 'd iceberg_result"

section \<open>Write batches\<close>

record ('f, 'i) row_delete_output =
  delete_file :: 'f
  referenced_data_files :: "string list"
  removed_delete_files :: "'i list"

record ('d, 'v) tx_write_batch =
  write_command_id :: command_id
  delta :: 'd
  validation :: "'v option"

definition new_write_batch :: "'d delta_api \<Rightarrow> ('d, 'f, 'i) delta_builder \<Rightarrow> command_id \<Rightarrow> 'f list
    \<Rightarrow> ('f, 'i) row_delete_output list \<Rightarrow> 'v option \<Rightarrow> ('d, 'v) tx_write_batch iceberg_result" where
  "new_write_batch D B cid data_files delete_files val =
     and_then (fold_result (sd_add_data_file B) data_files (sd_new D)) (\<lambda>d1.
     and_then (fold_result (\<lambda>out d.
         and_then (fold_result (sd_remove_delete_file B) (removed_delete_files out) d)
           (sd_add_position_delete_file B (delete_file out) (referenced_data_files out)))
         delete_files d1) (\<lambda>d2.
     Inr \<lparr> write_command_id = cid, delta = d2, validation = val \<rparr>))"

definition batch_is_empty :: "'d delta_api \<Rightarrow> ('d, 'v) tx_write_batch \<Rightarrow> bool" where
  "batch_is_empty D b \<longleftrightarrow> sd_is_empty D (delta b) \<and> validation b = None"

section \<open>Epochs\<close>

record ('d, 'v) tx_data_epoch =
  batches :: "('d, 'v) tx_write_batch list"
  combined :: "'d option"

definition epoch_default :: "('d, 'v) tx_data_epoch" where
  "epoch_default = \<lparr> batches = [], combined = None \<rparr>"

definition epoch_push :: "('d, 'v) tx_write_batch \<Rightarrow> ('d, 'v) tx_data_epoch \<Rightarrow> ('d, 'v) tx_data_epoch" where
  "epoch_push b ep = ep \<lparr> combined := None, batches := batches ep @ [b] \<rparr>"

definition epoch_mark :: "('d, 'v) tx_data_epoch \<Rightarrow> nat" where
  "epoch_mark ep = length (batches ep)"

definition epoch_truncate :: "nat \<Rightarrow> ('d, 'v) tx_data_epoch \<Rightarrow> ('d, 'v) tx_data_epoch" where
  "epoch_truncate n ep = ep \<lparr> combined := None, batches := take n (batches ep) \<rparr>"

definition epoch_is_empty :: "('d, 'v) tx_data_epoch \<Rightarrow> bool" where
  "epoch_is_empty ep \<longleftrightarrow> batches ep = []"

definition epoch_validations :: "('d, 'v) tx_data_epoch \<Rightarrow> 'v list" where
  "epoch_validations ep = List.map_filter validation (batches ep)"

definition epoch_max_write_command_id :: "('d, 'v) tx_data_epoch \<Rightarrow> command_id option" where
  "epoch_max_write_command_id ep = max_option (map write_command_id (batches ep))"

text \<open>\<open>read_command_id.is_none_or(|cid| write_command_id < cid)\<close>.\<close>

definition cid_visible :: "command_id option \<Rightarrow> command_id \<Rightarrow> bool" where
  "cid_visible rc w = (case rc of None \<Rightarrow> True | Some c \<Rightarrow> w < c)"

definition append_batches :: "'d delta_api \<Rightarrow> command_id option \<Rightarrow> ('d, 'v) tx_write_batch list
    \<Rightarrow> 'd \<Rightarrow> 'd iceberg_result" where
  "append_batches D rc bs =
     fold_result (\<lambda>b d. if cid_visible rc (write_command_id b) then sd_append_delta D d (delta b)
                        else Inr d) bs"

definition append_visible :: "'d delta_api \<Rightarrow> ('d, 'v) tx_data_epoch \<Rightarrow> 'd \<Rightarrow> command_id option
    \<Rightarrow> 'd iceberg_result" where
  "append_visible D ep d rc = append_batches D rc (batches ep) d"

text \<open>The value \<open>delta\<close> computes when its cell is empty; a single batch is shared as it is.\<close>

definition epoch_compute :: "'d delta_api \<Rightarrow> ('d, 'v) tx_write_batch list \<Rightarrow> 'd iceberg_result" where
  "epoch_compute D bs =
     (case bs of [b] \<Rightarrow> Inr (delta b) | _ \<Rightarrow> append_batches D None bs (sd_new D))"

definition epoch_delta :: "'d delta_api \<Rightarrow> ('d, 'v) tx_data_epoch
    \<Rightarrow> 'd iceberg_result \<times> ('d, 'v) tx_data_epoch" where
  "epoch_delta D ep =
     (case combined ep of
        Some d \<Rightarrow> (Inr d, ep)
      | None \<Rightarrow> (case epoch_compute D (batches ep) of
          Inl e \<Rightarrow> (Inl e, ep)
        | Inr d \<Rightarrow> (Inr d, ep \<lparr> combined := Some d \<rparr>)))"

section \<open>Coherence of the epoch cache\<close>

definition epoch_ok :: "'d delta_api \<Rightarrow> ('d, 'v) tx_data_epoch \<Rightarrow> bool" where
  "epoch_ok D ep \<longleftrightarrow>
     (case combined ep of None \<Rightarrow> True | Some d \<Rightarrow> epoch_compute D (batches ep) = Inr d)"

lemma epoch_ok_default [simp]: "epoch_ok D epoch_default"
  by (simp add: epoch_ok_def epoch_default_def)

lemma epoch_ok_push [simp]: "epoch_ok D (epoch_push b ep)"
  by (simp add: epoch_ok_def epoch_push_def)

lemma epoch_ok_truncate [simp]: "epoch_ok D (epoch_truncate n ep)"
  by (simp add: epoch_ok_def epoch_truncate_def)

lemma batches_epoch [simp]:
  "batches epoch_default = []"
  "batches (epoch_push b ep) = batches ep @ [b]"
  "batches (epoch_truncate n ep) = take n (batches ep)"
  "batches (snd (epoch_delta D ep)) = batches ep"
  by (auto simp: epoch_default_def epoch_push_def epoch_truncate_def epoch_delta_def
      split: option.splits sum.splits)

lemma erase_epoch_delta [simp]:
  "snd (epoch_delta D ep) \<lparr> combined := None \<rparr> = ep \<lparr> combined := None \<rparr>"
  by (auto simp: epoch_delta_def split: option.splits sum.splits)

lemma epoch_delta_coherent:
  assumes "epoch_ok D ep"
  shows "fst (epoch_delta D ep) = epoch_compute D (batches ep)"
    and "epoch_ok D (snd (epoch_delta D ep))"
  using assms by (auto simp: epoch_ok_def epoch_delta_def split: option.splits sum.splits)

section \<open>What an overlay means\<close>

text \<open>
  The documented meaning of an overlay, as hypotheses on the external operations: \<open>view d\<close> is
  what the overlay does to the files of a table, \<open>clear\<close> what TRUNCATE does to them. The new
  overlay and every overlay that reports itself empty do nothing, appending composes, and
  \<open>truncate_table\<close> composes with \<open>clear\<close>.
\<close>

definition delta_laws :: "'d delta_api \<Rightarrow> ('d \<Rightarrow> 's \<Rightarrow> 's) \<Rightarrow> ('s \<Rightarrow> 's) \<Rightarrow> bool" where
  "delta_laws D view clear \<longleftrightarrow>
     view (sd_new D) = id
   \<and> (\<forall>d. sd_is_empty D d \<longrightarrow> view d = id)
   \<and> (\<forall>d e f. sd_append_delta D d e = Inr f \<longrightarrow> view f = view e \<circ> view d)
   \<and> (\<forall>d f. sd_truncate_table D d = Inr f \<longrightarrow> view f = clear \<circ> view d)"

text \<open>The effect of the batches a reader sees, in completion order.\<close>

definition batches_effect :: "('d \<Rightarrow> 's \<Rightarrow> 's) \<Rightarrow> command_id option \<Rightarrow> ('d, 'v) tx_write_batch list
    \<Rightarrow> 's \<Rightarrow> 's" where
  "batches_effect view rc bs =
     fold (\<lambda>b s. view (delta b) s) (filter (\<lambda>b. cid_visible rc (write_command_id b)) bs)"

lemma cid_visible_None [simp]: "cid_visible None w"
  by (simp add: cid_visible_def)

lemma append_batches_view:
  assumes "delta_laws D view clear" and "append_batches D rc bs d = Inr d'"
  shows "view d' = batches_effect view rc bs \<circ> view d"
  using assms(2)
proof (induction bs arbitrary: d)
  case Nil
  then show ?case by (simp add: append_batches_def batches_effect_def)
next
  case (Cons b bs)
  show ?case
  proof (cases "cid_visible rc (write_command_id b)")
    case True
    then obtain d1 where d1: "sd_append_delta D d (delta b) = Inr d1" "append_batches D rc bs d1 = Inr d'"
      using Cons.prems by (auto simp: append_batches_def and_then_Inr_iff)
    then have "view d1 = view (delta b) \<circ> view d"
      using assms(1) by (simp add: delta_laws_def)
    with Cons.IH [OF d1(2)] True show ?thesis
      by (auto simp: batches_effect_def)
  next
    case False
    then have "append_batches D rc bs d = Inr d'"
      using Cons.prems by (simp add: append_batches_def)
    from Cons.IH [OF this] False show ?thesis
      by (simp add: batches_effect_def)
  qed
qed

lemma epoch_compute_view:
  assumes "delta_laws D view clear" and "epoch_compute D bs = Inr d"
  shows "view d = batches_effect view None bs"
proof (cases "\<exists>b. bs = [b]")
  case True
  then show ?thesis using assms(2) by (auto simp: epoch_compute_def batches_effect_def fun_eq_iff)
next
  case False
  then have "append_batches D None bs (sd_new D) = Inr d"
    using assms(2) by (auto simp: epoch_compute_def split: list.splits)
  from append_batches_view [OF assms(1) this] assms(1) show ?thesis
    by (simp add: delta_laws_def)
qed

lemma append_batches_error:
  "append_batches D rc bs d = Inl e \<Longrightarrow> \<exists>a b. sd_append_delta D a b = Inl e"
  by (induction bs arbitrary: d) (auto simp: append_batches_def and_then_Inl_iff split: if_splits)

lemma epoch_compute_error:
  "epoch_compute D bs = Inl e \<Longrightarrow> \<exists>a b. sd_append_delta D a b = Inl e"
  by (auto simp: epoch_compute_def split: list.splits dest: append_batches_error)

end
