(* ===== verification/Table_Definition.thy ===== *)
theory Table_Definition
  imports Prelude
begin

text \<open>
  Definition changes staged by a transaction: prepared schema updates (an \<open>iceberg_lite\<close> type,
  a parameter \<open>'u\<close> with its operations) and table-property updates
  (\<open>write/transaction/properties.rs\<close>). Table metadata \<open>'m\<close>, format versions \<open>'fv\<close> and the Iceberg
  transaction \<open>'t\<close> belong to \<open>iceberg_lite\<close> too.
\<close>

section \<open>The external interfaces\<close>

text \<open>
  The schema operations report the crate's own error, a message here, which the callers wrap in
  different variants.
\<close>

record ('u, 'm) schema_api =
  su_is_empty :: "'u \<Rightarrow> bool"
  su_validate_base_metadata :: "'u \<Rightarrow> 'm \<Rightarrow> string + unit"
  su_apply_to_metadata :: "'u \<Rightarrow> 'm \<Rightarrow> string + 'm"

record ('m, 'fv, 'sc) metadata_api =
  tm_format_version :: "'m \<Rightarrow> 'fv"
  tm_show_version :: "'fv \<Rightarrow> string"
  tm_set_properties :: "(string \<times> string) list \<Rightarrow> 'm \<Rightarrow> 'm iceberg_result"
  tm_current_schema :: "'m \<Rightarrow> 'sc"

record ('t, 'd, 'v, 'u) transaction_api =
  tx_apply_schema :: "'u \<Rightarrow> 't \<Rightarrow> 't iceberg_result"
  tx_update_properties :: "(string \<times> string) list \<Rightarrow> 't \<Rightarrow> 't iceberg_result"
  tx_snapshot_delta :: "'d \<Rightarrow> bool \<Rightarrow> 't \<Rightarrow> 't iceberg_result"
  tx_row_delta :: "'d \<Rightarrow> 'v list \<Rightarrow> bool \<Rightarrow> 't \<Rightarrow> 't iceberg_result"

section \<open>Property updates\<close>

text \<open>The property map in its iteration order.\<close>

record 'fv prepared_table_property_update =
  format_version :: 'fv
  effective_properties :: "(string \<times> string) list"

definition validate_base_metadata :: "('m, 'fv, 'sc) metadata_api
    \<Rightarrow> 'fv prepared_table_property_update \<Rightarrow> 'm \<Rightarrow> unit iceberg_result" where
  "validate_base_metadata T u m =
     (if tm_format_version T m \<noteq> format_version u
      then Inl (IcebergLiteError
             (''ALTER TABLE cannot change Iceberg format version from ''
              @ tm_show_version T (tm_format_version T m) @ '' to ''
              @ tm_show_version T (format_version u)))
      else Inr ())"

definition apply_to_metadata :: "('m, 'fv, 'sc) metadata_api
    \<Rightarrow> 'fv prepared_table_property_update \<Rightarrow> 'm \<Rightarrow> 'm iceberg_result" where
  "apply_to_metadata T u m =
     and_then (validate_base_metadata T u m) (\<lambda>_. tm_set_properties T (effective_properties u) m)"

definition property_apply_to_transaction :: "('t, 'd, 'v, 'u) transaction_api
    \<Rightarrow> 'fv prepared_table_property_update \<Rightarrow> 't \<Rightarrow> 't iceberg_result" where
  "property_apply_to_transaction X u t = tx_update_properties X (effective_properties u) t"

section \<open>Schema updates\<close>

text \<open>
  The validate-then-apply step both replays use: a base that no longer matches is a schema
  evolution conflict, any other failure is the crate's own error.
\<close>

definition replay_schema :: "('u, 'm) schema_api \<Rightarrow> 'u \<Rightarrow> 'm \<Rightarrow> 'm iceberg_result" where
  "replay_schema U u m =
     and_then (map_err SchemaEvolutionConflict (su_validate_base_metadata U u m))
       (\<lambda>_. map_err IcebergLiteError (su_apply_to_metadata U u m))"

lemma apply_to_metadata_validates:
  "apply_to_metadata T u m = Inr m' \<Longrightarrow> validate_base_metadata T u m = Inr ()"
  by (auto simp: apply_to_metadata_def and_then_Inr_iff)

lemma validate_then_apply:
  "and_then (validate_base_metadata T u m) (\<lambda>_. apply_to_metadata T u m) = apply_to_metadata T u m"
  by (cases "validate_base_metadata T u m") (auto simp: apply_to_metadata_def)

end
