(* ===== verification/Action_Log.thy ===== *)
theory Action_Log
  imports Data_Epoch Table_Definition
begin

text \<open>
  The ordered transaction-local action log of one Iceberg table and its commit planning
  (\<open>write/transaction/action_log.rs\<close>): staging operations, savepoint markers, the cached
  overlay a reader at a command ID sees, and the plan replayed on the latest committed
  metadata at commit.
\<close>

section \<open>State\<close>

record 'g tx_truncate_action =
  guard :: 'g
  command_id :: command_id

datatype ('d, 'v, 'u, 'fv, 'e, 'g) tx_table_action =
    Schema 'u
  | Properties "'fv prepared_table_property_update"
  | Data "('d, 'v) tx_data_epoch"
  | Truncate "'g tx_truncate_action"
  | Exclusive 'e
  | Drop

record 'd visible_delta_entry =
  vd_read_command_id :: command_id
  vd_delta :: "'d option"

record ('d, 'v, 'u, 'fv, 'e, 'g) tx_table_action_log =
  actions :: "('d, 'v, 'u, 'fv, 'e, 'g) tx_table_action list"
  combined_delta_cache :: "'d option option"
  visible_delta_cache :: "'d visible_delta_entry option"
  max_write_command_id_cache :: "command_id option option"

record tx_table_action_log_marker =
  action_len :: nat
  current_data_epoch :: "nat option"

text \<open>
  The provider's exclusive operation: a type parameter with the constants and the method of the
  trait \<open>ExclusiveTransactionAction\<close>.
\<close>

record 'e exclusive_api =
  not_exclusive_invariant :: string
  misplaced_invariant :: string
  conflict_error :: "'e \<Rightarrow> iceberg_error"

definition log_default :: "('d, 'v, 'u, 'fv, 'e, 'g) tx_table_action_log" where
  "log_default = \<lparr> actions = [], combined_delta_cache = None, visible_delta_cache = None,
                   max_write_command_id_cache = None \<rparr>"

section \<open>Staging\<close>

definition exclusive_conflict_error :: "'e exclusive_api
    \<Rightarrow> ('d, 'v, 'u, 'fv, 'e, 'g) tx_table_action_log \<Rightarrow> iceberg_error option" where
  "exclusive_conflict_error X log =
     find_map (\<lambda>a. case a of Exclusive e \<Rightarrow> Some (conflict_error X e) | _ \<Rightarrow> None) (actions log)"

definition invalidate_read_caches :: "('d, 'v, 'u, 'fv, 'e, 'g) tx_table_action_log
    \<Rightarrow> ('d, 'v, 'u, 'fv, 'e, 'g) tx_table_action_log" where
  "invalidate_read_caches log =
     log \<lparr> combined_delta_cache := None, visible_delta_cache := None,
           max_write_command_id_cache := None \<rparr>"

definition push_action :: "('d, 'v, 'u, 'fv, 'e, 'g) tx_table_action
    \<Rightarrow> ('d, 'v, 'u, 'fv, 'e, 'g) tx_table_action_log \<Rightarrow> ('d, 'v, 'u, 'fv, 'e, 'g) tx_table_action_log" where
  "push_action a log = log \<lparr> actions := actions log @ [a] \<rparr>"

definition stage_schema :: "('u, 'm) schema_api \<Rightarrow> 'u
    \<Rightarrow> ('d, 'v, 'u, 'fv, 'e, 'g) tx_table_action_log \<Rightarrow> ('d, 'v, 'u, 'fv, 'e, 'g) tx_table_action_log" where
  "stage_schema U u log = (if su_is_empty U u then log else push_action (Schema u) log)"

definition stage_properties :: "'fv prepared_table_property_update
    \<Rightarrow> ('d, 'v, 'u, 'fv, 'e, 'g) tx_table_action_log \<Rightarrow> ('d, 'v, 'u, 'fv, 'e, 'g) tx_table_action_log" where
  "stage_properties p log = push_action (Properties p) log"

definition stage_exclusive :: "'e exclusive_api \<Rightarrow> 'e \<Rightarrow> ('d, 'v, 'u, 'fv, 'e, 'g) tx_table_action_log
    \<Rightarrow> unit iceberg_result \<times> ('d, 'v, 'u, 'fv, 'e, 'g) tx_table_action_log" where
  "stage_exclusive X e log =
     (if actions log \<noteq> [] then (Inl (conflict_error X e), log)
      else (Inr (), push_action (Exclusive e) (invalidate_read_caches log)))"

definition stage_truncate :: "'g \<Rightarrow> command_id \<Rightarrow> ('d, 'v, 'u, 'fv, 'e, 'g) tx_table_action_log
    \<Rightarrow> ('d, 'v, 'u, 'fv, 'e, 'g) tx_table_action_log" where
  "stage_truncate g cid log =
     push_action (Truncate \<lparr> guard = g, command_id = cid \<rparr>) (invalidate_read_caches log)"

definition stage_drop :: "('d, 'v, 'u, 'fv, 'e, 'g) tx_table_action_log
    \<Rightarrow> ('d, 'v, 'u, 'fv, 'e, 'g) tx_table_action_log" where
  "stage_drop log = push_action Drop (invalidate_read_caches log)"

definition is_dropped :: "('d, 'v, 'u, 'fv, 'e, 'g) tx_table_action_log \<Rightarrow> bool" where
  "is_dropped log \<longleftrightarrow> actions log \<noteq> [] \<and> (case last (actions log) of Drop \<Rightarrow> True | _ \<Rightarrow> False)"

text \<open>\<open>Vec::last_mut\<close> on the action list, applied to a trailing epoch.\<close>

definition map_last_epoch :: "(('d, 'v) tx_data_epoch \<Rightarrow> ('d, 'v) tx_data_epoch)
    \<Rightarrow> ('d, 'v, 'u, 'fv, 'e, 'g) tx_table_action list \<Rightarrow> ('d, 'v, 'u, 'fv, 'e, 'g) tx_table_action list" where
  "map_last_epoch f as =
     (if as = [] then as
      else case last as of Data ep \<Rightarrow> butlast as @ [Data (f ep)] | _ \<Rightarrow> as)"

text \<open>
  \<open>current_data_epoch_mut\<close> followed by a change of the epoch it returns: the last action if that
  is an epoch, a fresh epoch otherwise.
\<close>

definition update_current_data_epoch :: "(('d, 'v) tx_data_epoch \<Rightarrow> ('d, 'v) tx_data_epoch)
    \<Rightarrow> ('d, 'v, 'u, 'fv, 'e, 'g) tx_table_action_log \<Rightarrow> ('d, 'v, 'u, 'fv, 'e, 'g) tx_table_action_log" where
  "update_current_data_epoch f log =
     (let log1 = invalidate_read_caches log;
          needs_new_epoch =
            (actions log1 = [] \<or> (case last (actions log1) of Data _ \<Rightarrow> False | _ \<Rightarrow> True));
          log2 = (if needs_new_epoch then push_action (Data epoch_default) log1 else log1)
      in log2 \<lparr> actions := map_last_epoch f (actions log2) \<rparr>)"

definition log_record_batch :: "'d delta_api \<Rightarrow> ('d, 'v) tx_write_batch
    \<Rightarrow> ('d, 'v, 'u, 'fv, 'e, 'g) tx_table_action_log \<Rightarrow> ('d, 'v, 'u, 'fv, 'e, 'g) tx_table_action_log" where
  "log_record_batch D b log =
     (if batch_is_empty D b then log else update_current_data_epoch (epoch_push b) log)"

definition log_is_empty :: "('u, 'm) schema_api \<Rightarrow> ('d, 'v, 'u, 'fv, 'e, 'g) tx_table_action_log \<Rightarrow> bool" where
  "log_is_empty U log = list_all (\<lambda>a. case a of
       Schema u \<Rightarrow> su_is_empty U u
     | Properties _ \<Rightarrow> False
     | Data ep \<Rightarrow> epoch_is_empty ep
     | Truncate _ \<Rightarrow> False
     | Exclusive _ \<Rightarrow> False
     | Drop \<Rightarrow> False) (actions log)"

section \<open>Markers\<close>

definition log_mark :: "('d, 'v, 'u, 'fv, 'e, 'g) tx_table_action_log \<Rightarrow> tx_table_action_log_marker" where
  "log_mark log =
     \<lparr> action_len = length (actions log),
       current_data_epoch =
         (if actions log = [] then None
          else case last (actions log) of Data ep \<Rightarrow> Some (epoch_mark ep) | _ \<Rightarrow> None) \<rparr>"

definition log_truncate :: "tx_table_action_log_marker \<Rightarrow> ('d, 'v, 'u, 'fv, 'e, 'g) tx_table_action_log
    \<Rightarrow> ('d, 'v, 'u, 'fv, 'e, 'g) tx_table_action_log" where
  "log_truncate marker log =
     (let log1 = invalidate_read_caches log;
          as = take (action_len marker) (actions log1)
      in log1 \<lparr> actions := (case current_data_epoch marker of
                None \<Rightarrow> as
              | Some n \<Rightarrow> map_last_epoch (epoch_truncate n) as) \<rparr>)"

end
