(* ===== verification/Visible_Delta.thy ===== *)
theory Visible_Delta
  imports Action_Log
begin

text \<open>
  Reading the transaction-local overlay of a table (\<open>visible_delta\<close> and \<open>combined_delta\<close> of
  \<open>write/transaction/action_log.rs\<close>). The log keeps three caches and every epoch one more; the
  lemmas relate each cached read to the computation without caches, and that computation to the
  effect of exactly the writes a reader's command ID may see.
\<close>

section \<open>The cached read\<close>

definition log_max_write_command_id :: "('d, 'v, 'u, 'fv, 'e, 'g) tx_table_action list \<Rightarrow> command_id option" where
  "log_max_write_command_id as =
     max_option (List.map_filter (\<lambda>a. case a of
         Data ep \<Rightarrow> epoch_max_write_command_id ep
       | Truncate t \<Rightarrow> Some (command_id t)
       | _ \<Rightarrow> None) as)"

text \<open>How one iteration of the combining loop ends.\<close>

datatype 'd control = Continue "'d option" | ReturnNone | Fail iceberg_error

definition or_new :: "'d delta_api \<Rightarrow> 'd option \<Rightarrow> 'd" where
  "or_new D acc = (case acc of None \<Rightarrow> sd_new D | Some c \<Rightarrow> c)"

definition continue_with :: "'d iceberg_result \<Rightarrow> 'd control" where
  "continue_with r = (case r of Inl e \<Rightarrow> Fail e | Inr d \<Rightarrow> Continue (Some d))"

text \<open>A complete epoch: empty ones are skipped, the first one is shared, others are appended.\<close>

definition combine_epoch :: "'d delta_api \<Rightarrow> 'd option \<Rightarrow> 'd iceberg_result \<Rightarrow> 'd control" where
  "combine_epoch D acc r = (case r of
       Inl e \<Rightarrow> Fail e
     | Inr d \<Rightarrow> (if sd_is_empty D d then Continue acc
                else case acc of
                  Some c \<Rightarrow> continue_with (sd_append_delta D c d)
                | None \<Rightarrow> Continue (Some d)))"

definition combine_step :: "'d delta_api \<Rightarrow> command_id option \<Rightarrow> 'd option
    \<Rightarrow> ('d, 'v, 'u, 'fv, 'e, 'g) tx_table_action
    \<Rightarrow> 'd control \<times> ('d, 'v, 'u, 'fv, 'e, 'g) tx_table_action" where
  "combine_step D rc acc a = (case a of
       Data ep \<Rightarrow> (case rc of
           None \<Rightarrow> (let (r, ep') = epoch_delta D ep in (combine_epoch D acc r, Data ep'))
         | Some _ \<Rightarrow> (continue_with (append_visible D ep (or_new D acc) rc), a))
     | Truncate t \<Rightarrow>
         (if cid_visible rc (command_id t)
          then (continue_with (sd_truncate_table D (or_new D acc)), a)
          else (Continue acc, a))
     | Drop \<Rightarrow> (ReturnNone, a)
     | Exclusive _ \<Rightarrow> (ReturnNone, a)
     | Schema _ \<Rightarrow> (Continue acc, a)
     | Properties _ \<Rightarrow> (Continue acc, a))"

fun combine_loop :: "'d delta_api \<Rightarrow> command_id option \<Rightarrow> 'd option
    \<Rightarrow> ('d, 'v, 'u, 'fv, 'e, 'g) tx_table_action list
    \<Rightarrow> 'd control \<times> ('d, 'v, 'u, 'fv, 'e, 'g) tx_table_action list" where
  "combine_loop D rc acc [] = (Continue acc, [])"
| "combine_loop D rc acc (a # as) = (case combine_step D rc acc a of
       (Continue acc', a') \<Rightarrow> (let (c, as') = combine_loop D rc acc' as in (c, a' # as'))
     | (c, a') \<Rightarrow> (c, a' # as))"

text \<open>\<open>combined.filter(|delta| !delta.is_empty())\<close>.\<close>

definition non_empty :: "'d delta_api \<Rightarrow> 'd option \<Rightarrow> 'd option" where
  "non_empty D acc = (case acc of None \<Rightarrow> None | Some d \<Rightarrow> if sd_is_empty D d then None else Some d)"

definition compute_delta :: "'d delta_api \<Rightarrow> command_id option \<Rightarrow> ('d, 'v, 'u, 'fv, 'e, 'g) tx_table_action_log
    \<Rightarrow> 'd option iceberg_result \<times> ('d, 'v, 'u, 'fv, 'e, 'g) tx_table_action_log" where
  "compute_delta D rc log =
     (let (c, as) = combine_loop D rc None (actions log);
          log1 = log \<lparr> actions := as \<rparr>
      in case c of
           Fail e \<Rightarrow> (Inl e, log1)
         | ReturnNone \<Rightarrow> (Inr None, log1)
         | Continue acc \<Rightarrow>
             (let d = non_empty D acc in
              case rc of
                Some cid \<Rightarrow> (Inr d, log1 \<lparr> visible_delta_cache :=
                    Some \<lparr> vd_read_command_id = cid, vd_delta = d \<rparr> \<rparr>)
              | None \<Rightarrow> (Inr d, log1 \<lparr> combined_delta_cache := Some d \<rparr>)))"

definition combined_delta :: "'d delta_api \<Rightarrow> ('d, 'v, 'u, 'fv, 'e, 'g) tx_table_action_log
    \<Rightarrow> 'd option iceberg_result \<times> ('d, 'v, 'u, 'fv, 'e, 'g) tx_table_action_log" where
  "combined_delta D log = (case combined_delta_cache log of
       Some d \<Rightarrow> (Inr d, log)
     | None \<Rightarrow> compute_delta D None log)"

definition max_below :: "command_id option \<Rightarrow> command_id \<Rightarrow> bool" where
  "max_below mx cid = (case mx of None \<Rightarrow> True | Some m \<Rightarrow> m < cid)"

definition visible_delta :: "'d delta_api \<Rightarrow> command_id option \<Rightarrow> ('d, 'v, 'u, 'fv, 'e, 'g) tx_table_action_log
    \<Rightarrow> 'd option iceberg_result \<times> ('d, 'v, 'u, 'fv, 'e, 'g) tx_table_action_log" where
  "visible_delta D rc log = (case rc of
       None \<Rightarrow> combined_delta D log
     | Some cid \<Rightarrow>
         (let mx = (case max_write_command_id_cache log of
                      Some m \<Rightarrow> m | None \<Rightarrow> log_max_write_command_id (actions log));
              log1 = log \<lparr> max_write_command_id_cache := Some mx \<rparr>
          in if max_below mx cid then combined_delta D log1
             else case visible_delta_cache log1 of
                 Some v \<Rightarrow> (if vd_read_command_id v = cid then (Inr (vd_delta v), log1)
                           else compute_delta D rc log1)
               | None \<Rightarrow> compute_delta D rc log1))"

section \<open>The read without caches\<close>

text \<open>
  Erasing the epoch caches keeps what the log says; \<open>action_ok\<close> says an epoch cache, if filled,
  holds the value it would be filled with.
\<close>

fun erase_action :: "('d, 'v, 'u, 'fv, 'e, 'g) tx_table_action \<Rightarrow> ('d, 'v, 'u, 'fv, 'e, 'g) tx_table_action" where
  "erase_action (Data ep) = Data (ep \<lparr> combined := None \<rparr>)"
| "erase_action a = a"

fun action_ok :: "'d delta_api \<Rightarrow> ('d, 'v, 'u, 'fv, 'e, 'g) tx_table_action \<Rightarrow> bool" where
  "action_ok D (Data ep) = epoch_ok D ep"
| "action_ok D _ = True"

definition fresh_step :: "'d delta_api \<Rightarrow> command_id option \<Rightarrow> 'd option
    \<Rightarrow> ('d, 'v, 'u, 'fv, 'e, 'g) tx_table_action \<Rightarrow> 'd control" where
  "fresh_step D rc acc a = (case a of
       Data ep \<Rightarrow> (case rc of
           None \<Rightarrow> combine_epoch D acc (epoch_compute D (batches ep))
         | Some _ \<Rightarrow> continue_with (append_batches D rc (batches ep) (or_new D acc)))
     | Truncate t \<Rightarrow>
         (if cid_visible rc (command_id t) then continue_with (sd_truncate_table D (or_new D acc))
          else Continue acc)
     | Drop \<Rightarrow> ReturnNone
     | Exclusive _ \<Rightarrow> ReturnNone
     | Schema _ \<Rightarrow> Continue acc
     | Properties _ \<Rightarrow> Continue acc)"

fun fresh_loop :: "'d delta_api \<Rightarrow> command_id option \<Rightarrow> 'd option
    \<Rightarrow> ('d, 'v, 'u, 'fv, 'e, 'g) tx_table_action list \<Rightarrow> 'd control" where
  "fresh_loop D rc acc [] = Continue acc"
| "fresh_loop D rc acc (a # as) = (case fresh_step D rc acc a of
       Continue acc' \<Rightarrow> fresh_loop D rc acc' as
     | c \<Rightarrow> c)"

definition fresh_delta :: "'d delta_api \<Rightarrow> command_id option
    \<Rightarrow> ('d, 'v, 'u, 'fv, 'e, 'g) tx_table_action list \<Rightarrow> 'd option iceberg_result" where
  "fresh_delta D rc as = (case fresh_loop D rc None as of
       Fail e \<Rightarrow> Inl e | ReturnNone \<Rightarrow> Inr None | Continue acc \<Rightarrow> Inr (non_empty D acc))"

text \<open>The answer every read has to give.\<close>

definition fresh_visible :: "'d delta_api \<Rightarrow> command_id option
    \<Rightarrow> ('d, 'v, 'u, 'fv, 'e, 'g) tx_table_action list \<Rightarrow> 'd option iceberg_result" where
  "fresh_visible D rc as = (case rc of
       None \<Rightarrow> fresh_delta D None as
     | Some cid \<Rightarrow> if max_below (log_max_write_command_id as) cid then fresh_delta D None as
                   else fresh_delta D rc as)"

definition caches_ok :: "'d delta_api \<Rightarrow> ('d, 'v, 'u, 'fv, 'e, 'g) tx_table_action_log \<Rightarrow> bool" where
  "caches_ok D log \<longleftrightarrow>
     list_all (action_ok D) (actions log)
   \<and> (\<forall>d. combined_delta_cache log = Some d \<longrightarrow> fresh_delta D None (actions log) = Inr d)
   \<and> (\<forall>v. visible_delta_cache log = Some v \<longrightarrow>
        fresh_delta D (Some (vd_read_command_id v)) (actions log) = Inr (vd_delta v))
   \<and> (\<forall>m. max_write_command_id_cache log = Some m \<longrightarrow> m = log_max_write_command_id (actions log))"

section \<open>Coherence\<close>

lemma combine_step_fresh:
  assumes "action_ok D a"
  shows "fst (combine_step D rc acc a) = fresh_step D rc acc a"
    and "action_ok D (snd (combine_step D rc acc a))"
    and "erase_action (snd (combine_step D rc acc a)) = erase_action a"
  using assms
  by (cases a; cases rc;
      simp add: combine_step_def fresh_step_def append_visible_def epoch_delta_coherent split_beta)+

lemma combine_loop_all:
  assumes "list_all (action_ok D) as"
  shows "fst (combine_loop D rc acc as) = fresh_loop D rc acc as
       \<and> list_all (action_ok D) (snd (combine_loop D rc acc as))
       \<and> map erase_action (snd (combine_loop D rc acc as)) = map erase_action as"
  using assms
proof (induction as arbitrary: acc)
  case (Cons a as)
  then show ?case using combine_step_fresh [of D a rc acc]
    by (cases "combine_step D rc acc a") (auto simp: split_beta split: control.splits)
qed simp

lemmas combine_loop_fresh =
  combine_loop_all [THEN conjunct1]
  combine_loop_all [THEN conjunct2, THEN conjunct1]
  combine_loop_all [THEN conjunct2, THEN conjunct2]

text \<open>The reference values depend on the erased log only.\<close>

lemma fresh_step_erase [simp]: "fresh_step D rc acc (erase_action a) = fresh_step D rc acc a"
  by (cases a; cases rc) (simp_all add: fresh_step_def)

lemma fresh_loop_erase [simp]: "fresh_loop D rc acc (map erase_action as) = fresh_loop D rc acc as"
  by (induction as arbitrary: acc) (auto split: control.splits)

lemma log_max_erase [simp]: "log_max_write_command_id (map erase_action as) = log_max_write_command_id as"
proof -
  have "List.map_filter (\<lambda>a. case a of Data ep \<Rightarrow> epoch_max_write_command_id ep
         | Truncate t \<Rightarrow> Some (command_id t) | _ \<Rightarrow> None) (map erase_action as)
      = List.map_filter (\<lambda>a. case a of Data ep \<Rightarrow> epoch_max_write_command_id ep
         | Truncate t \<Rightarrow> Some (command_id t) | _ \<Rightarrow> None) as"
  proof (induction as)
    case (Cons a as)
    then show ?case
      by (cases a) (auto simp: map_filter_simps epoch_max_write_command_id_def split: option.splits)
  qed simp
  then show ?thesis by (simp add: log_max_write_command_id_def)
qed

lemma fresh_erase_cong:
  assumes "map erase_action as = map erase_action bs"
  shows "fresh_delta D rc as = fresh_delta D rc bs"
    and "log_max_write_command_id as = log_max_write_command_id bs"
    and "fresh_visible D rc as = fresh_visible D rc bs"
proof -
  have d: "fresh_delta D rc as = fresh_delta D rc bs" for rc
    unfolding fresh_delta_def by (metis assms fresh_loop_erase)
  have m: "log_max_write_command_id as = log_max_write_command_id bs"
    by (metis assms log_max_erase)
  show "fresh_delta D rc as = fresh_delta D rc bs" "log_max_write_command_id as = log_max_write_command_id bs"
    "fresh_visible D rc as = fresh_visible D rc bs"
    by (auto simp: fresh_visible_def d m split: option.splits)
qed

text \<open>
  Replacing the actions of a log by ones that erase to the same keeps coherence as long as the
  epoch caches are right.
\<close>

lemma caches_ok_actions:
  assumes "caches_ok D log" and "list_all (action_ok D) as"
    and "map erase_action as = map erase_action (actions log)"
  shows "caches_ok D (log \<lparr> actions := as \<rparr>)"
  using assms(1,2) fresh_erase_cong [OF assms(3)]
  by (auto simp: caches_ok_def split: option.splits)

lemma compute_delta_coherent:
  assumes "caches_ok D log"
  shows "fst (compute_delta D rc log) = fresh_delta D rc (actions log)"
    and "caches_ok D (snd (compute_delta D rc log))"
    and "map erase_action (actions (snd (compute_delta D rc log))) = map erase_action (actions log)"
proof -
  obtain c as where loop: "combine_loop D rc None (actions log) = (c, as)" by fastforce
  have ok: "list_all (action_ok D) (actions log)" using assms by (simp add: caches_ok_def)
  note f = combine_loop_fresh [OF ok, of rc None, unfolded loop, simplified]
  have c: "c = fresh_loop D rc None (actions log)" by (rule f)
  have ok1: "caches_ok D (log \<lparr> actions := as \<rparr>)" by (rule caches_ok_actions [OF assms f(2,3)])
  have e: "fresh_delta D rc as = fresh_delta D rc (actions log)"
    by (rule fresh_erase_cong [OF f(3)])
  show "fst (compute_delta D rc log) = fresh_delta D rc (actions log)"
    "map erase_action (actions (snd (compute_delta D rc log))) = map erase_action (actions log)"
    using f(3) by (auto simp: compute_delta_def loop fresh_delta_def c [symmetric] Let_def
        split: control.splits option.splits)
  show "caches_ok D (snd (compute_delta D rc log))"
    using ok1 e c by (auto simp: compute_delta_def loop fresh_delta_def caches_ok_def Let_def
        split: control.splits option.splits)
qed

lemma combined_delta_coherent:
  assumes "caches_ok D log"
  shows "fst (combined_delta D log) = fresh_delta D None (actions log)"
    and "caches_ok D (snd (combined_delta D log))"
    and "map erase_action (actions (snd (combined_delta D log))) = map erase_action (actions log)"
  using assms compute_delta_coherent [OF assms]
  by (auto simp: combined_delta_def split: option.splits) (simp add: caches_ok_def)

lemma visible_delta_coherent:
  assumes "caches_ok D log"
  shows "fst (visible_delta D rc log) = fresh_visible D rc (actions log)"
    and "caches_ok D (snd (visible_delta D rc log))"
    and "map erase_action (actions (snd (visible_delta D rc log))) = map erase_action (actions log)"
proof -
  let ?mx = "log_max_write_command_id (actions log)"
  let ?log1 = "log \<lparr> max_write_command_id_cache := Some ?mx \<rparr>"
  have mx: "(case max_write_command_id_cache log of Some m \<Rightarrow> m | None \<Rightarrow> ?mx) = ?mx"
    using assms by (auto simp: caches_ok_def split: option.splits)
  have ok1: "caches_ok D ?log1" using assms by (simp add: caches_ok_def)
  note c = combined_delta_coherent [OF ok1] compute_delta_coherent [OF ok1]
    combined_delta_coherent [OF assms]
  show "fst (visible_delta D rc log) = fresh_visible D rc (actions log)"
    using c ok1 unfolding visible_delta_def fresh_visible_def mx Let_def
    by (auto simp: caches_ok_def split: option.splits)
  show "caches_ok D (snd (visible_delta D rc log))"
    using c ok1 unfolding visible_delta_def mx Let_def by (auto split: option.splits)
  show "map erase_action (actions (snd (visible_delta D rc log))) = map erase_action (actions log)"
    using c unfolding visible_delta_def mx Let_def by (auto split: option.splits)
qed

section \<open>What a reader sees\<close>

definition action_effect :: "('d \<Rightarrow> 's \<Rightarrow> 's) \<Rightarrow> ('s \<Rightarrow> 's) \<Rightarrow> command_id option
    \<Rightarrow> ('d, 'v, 'u, 'fv, 'e, 'g) tx_table_action \<Rightarrow> 's \<Rightarrow> 's" where
  "action_effect view clear rc a = (case a of
       Data ep \<Rightarrow> batches_effect view rc (batches ep)
     | Truncate t \<Rightarrow> if cid_visible rc (command_id t) then clear else id
     | _ \<Rightarrow> id)"

definition log_effect :: "('d \<Rightarrow> 's \<Rightarrow> 's) \<Rightarrow> ('s \<Rightarrow> 's) \<Rightarrow> command_id option
    \<Rightarrow> ('d, 'v, 'u, 'fv, 'e, 'g) tx_table_action list \<Rightarrow> 's \<Rightarrow> 's" where
  "log_effect view clear rc as = fold (action_effect view clear rc) as"

definition overlay_view :: "('d \<Rightarrow> 's \<Rightarrow> 's) \<Rightarrow> 'd option \<Rightarrow> 's \<Rightarrow> 's" where
  "overlay_view view r = (case r of None \<Rightarrow> id | Some d \<Rightarrow> view d)"

text \<open>A dropped table and an exclusive operation have no overlay.\<close>

definition ends_overlay :: "('d, 'v, 'u, 'fv, 'e, 'g) tx_table_action \<Rightarrow> bool" where
  "ends_overlay a = (case a of Drop \<Rightarrow> True | Exclusive _ \<Rightarrow> True | _ \<Rightarrow> False)"

lemma or_new_view: "delta_laws D view clear \<Longrightarrow> view (or_new D acc) = overlay_view view acc"
  by (auto simp: or_new_def overlay_view_def delta_laws_def split: option.splits)

lemma non_empty_view: "delta_laws D view clear \<Longrightarrow> overlay_view view (non_empty D acc) = overlay_view view acc"
  by (auto simp: non_empty_def overlay_view_def delta_laws_def split: option.splits)

lemma continue_with_Continue: "continue_with r = Continue acc \<longleftrightarrow> (\<exists>d. r = Inr d \<and> acc = Some d)"
  by (auto simp: continue_with_def split: sum.splits)

lemma continue_with_other: "continue_with r \<noteq> ReturnNone" "continue_with r = Fail e \<longleftrightarrow> r = Inl e"
  by (auto simp: continue_with_def split: sum.splits)

lemma combine_epoch_view:
  assumes "delta_laws D view clear" and "combine_epoch D acc (epoch_compute D bs) = Continue acc'"
  shows "overlay_view view acc' = batches_effect view None bs \<circ> overlay_view view acc"
proof -
  obtain d where d: "epoch_compute D bs = Inr d"
    using assms(2) by (auto simp: combine_epoch_def split: sum.splits)
  have "view d = batches_effect view None bs" by (rule epoch_compute_view [OF assms(1) d])
  moreover have "overlay_view view acc' = view d \<circ> overlay_view view acc"
    using assms by (auto simp: combine_epoch_def d overlay_view_def delta_laws_def
        continue_with_Continue split: if_splits option.splits)
  ultimately show ?thesis by simp
qed

lemma fresh_step_view:
  assumes laws: "delta_laws D view clear" and step: "fresh_step D rc acc a = Continue acc'"
  shows "overlay_view view acc' = action_effect view clear rc a \<circ> overlay_view view acc"
proof (cases a)
  case (Data ep)
  show ?thesis
  proof (cases rc)
    case None
    then show ?thesis using step Data combine_epoch_view [OF laws]
      by (simp add: fresh_step_def action_effect_def)
  next
    case (Some cid)
    then obtain d where "append_batches D rc (batches ep) (or_new D acc) = Inr d" "acc' = Some d"
      using step Data by (auto simp: fresh_step_def continue_with_Continue)
    then show ?thesis using append_batches_view [OF laws, of rc "batches ep" "or_new D acc" d] Data
      by (simp add: action_effect_def overlay_view_def [of view "Some d"] or_new_view [OF laws])
  qed
next
  case (Truncate t)
  then show ?thesis
    using step or_new_view [OF laws] laws
    by (auto simp: fresh_step_def action_effect_def continue_with_Continue delta_laws_def
        overlay_view_def [of view "Some _"] split: if_splits)
qed (use step in \<open>auto simp: fresh_step_def action_effect_def\<close>)

lemma fresh_step_return: "fresh_step D rc acc a = ReturnNone \<longleftrightarrow> ends_overlay a"
  by (cases a) (auto simp: fresh_step_def ends_overlay_def combine_epoch_def continue_with_other
      split: option.splits sum.splits if_splits)

lemma fresh_step_fail:
  "fresh_step D rc acc a = Fail e \<Longrightarrow>
     (\<exists>c d. sd_append_delta D c d = Inl e) \<or> (\<exists>c. sd_truncate_table D c = Inl e)"
  by (cases a) (auto simp: fresh_step_def combine_epoch_def continue_with_other
      split: option.splits sum.splits if_splits dest: epoch_compute_error append_batches_error)

lemma fresh_loop_meaning:
  assumes laws: "delta_laws D view clear"
  shows "case fresh_loop D rc acc as of
           Continue acc' \<Rightarrow> \<not> list_ex ends_overlay as
             \<and> overlay_view view acc' = log_effect view clear rc as \<circ> overlay_view view acc
         | ReturnNone \<Rightarrow> list_ex ends_overlay as
         | Fail e \<Rightarrow> (\<exists>c d. sd_append_delta D c d = Inl e) \<or> (\<exists>c. sd_truncate_table D c = Inl e)"
proof (induction as arbitrary: acc)
  case Nil
  then show ?case by (simp add: log_effect_def)
next
  case (Cons a as)
  show ?case
  proof (cases "fresh_step D rc acc a")
    case (Continue acc1)
    then have "\<not> ends_overlay a" using fresh_step_return [of D rc acc a] by simp
    moreover note Cons.IH [of acc1] fresh_step_view [OF laws Continue]
    ultimately show ?thesis using Continue
      by (auto simp: log_effect_def o_assoc split: control.splits)
  next
    case ReturnNone
    then show ?thesis using fresh_step_return [of D rc acc a] by simp
  next
    case (Fail e)
    then show ?thesis using fresh_step_fail [of D rc acc a e] by simp
  qed
qed

text \<open>A reader whose command ID exceeds every write sees all of them.\<close>

lemma cid_visible_all:
  assumes "max_below (log_max_write_command_id as) cid"
  shows "log_effect view clear (Some cid) as = log_effect view clear None as"
proof -
  have all: "\<forall>w \<in> set (List.map_filter (\<lambda>a. case a of Data ep \<Rightarrow> epoch_max_write_command_id ep
       | Truncate t \<Rightarrow> Some (command_id t) | _ \<Rightarrow> None) as). w < cid"
    using assms unfolding max_below_def log_max_write_command_id_def by (simp add: max_option_less_iff)
  have "action_effect view clear (Some cid) a = action_effect view clear None a" if "a \<in> set as" for a
  proof (cases a)
    case (Data ep)
    have "\<forall>w \<in> set (map write_command_id (batches ep)). w < cid"
    proof (subst max_option_less_iff [symmetric], cases "max_option (map write_command_id (batches ep))")
      case (Some m)
      then have "m < cid"
        using all that Data by (force simp: map_filter_def epoch_max_write_command_id_def)
      then show "case max_option (map write_command_id (batches ep)) of None \<Rightarrow> True | Some m \<Rightarrow> m < cid"
        using Some by simp
    qed simp
    then have "filter (\<lambda>b. cid_visible (Some cid) (write_command_id b)) (batches ep) = batches ep"
      by (intro filter_True_id) (simp add: cid_visible_def)
    then show ?thesis by (simp add: Data action_effect_def batches_effect_def)
  next
    case (Truncate t)
    then have "command_id t < cid" using all that by (force simp: map_filter_def)
    then show ?thesis by (simp add: Truncate action_effect_def cid_visible_def)
  qed (simp_all add: action_effect_def)
  then show ?thesis unfolding log_effect_def by (intro ext fold_cong) simp_all
qed

lemma fresh_delta_meaning:
  assumes "delta_laws D view clear"
  shows "case fresh_delta D rc as of
           Inr r \<Rightarrow> (if list_ex ends_overlay as then r = None
                    else overlay_view view r = log_effect view clear rc as)
         | Inl e \<Rightarrow> (\<exists>c d. sd_append_delta D c d = Inl e) \<or> (\<exists>c. sd_truncate_table D c = Inl e)"
  using fresh_loop_meaning [OF assms, where rc = rc and acc = None and as = as]
  by (cases "fresh_loop D rc None as")
    (auto simp: fresh_delta_def non_empty_view [OF assms] overlay_view_def [of view None])

lemma fresh_visible_meaning:
  assumes "delta_laws D view clear"
  shows "case fresh_visible D rc as of
           Inr r \<Rightarrow> (if list_ex ends_overlay as then r = None
                    else overlay_view view r = log_effect view clear rc as)
         | Inl e \<Rightarrow> (\<exists>c d. sd_append_delta D c d = Inl e) \<or> (\<exists>c. sd_truncate_table D c = Inl e)"
proof (cases "\<exists>cid. rc = Some cid \<and> max_below (log_max_write_command_id as) cid")
  case True
  then show ?thesis
    using fresh_delta_meaning [OF assms, where rc = None and as = as] cid_visible_all [of as _ view clear]
    by (auto simp: fresh_visible_def split: sum.splits)
next
  case False
  then show ?thesis
    using fresh_delta_meaning [OF assms, where rc = rc and as = as] by (cases rc) (simp_all add: fresh_visible_def)
qed

end
