(* ===== verification/Commit_Plan.thy ===== *)
theory Commit_Plan
  imports Visible_Delta "HOL-Library.List_Lexorder" "HOL-Library.Char_ord"
begin

text \<open>
  Commit planning and replay of the action log (\<open>commit_plan\<close>, \<open>apply_to_transaction\<close>,
  \<open>overlay_metadata\<close>, \<open>read_schema\<close> and \<open>created_file_paths\<close> of
  \<open>write/transaction/action_log.rs\<close>). The plan drops the data epochs a later TRUNCATE makes
  obsolete, marks the first surviving epoch as truncating the base and lists the files that were
  created for nothing; the lemmas show that replaying the plan has the effect of the whole log.

  Strings are lists of bytes under the lexicographic order, the order of Rust's \<open>String\<close>. A
  \<open>HashSet\<close> that is only filled and then sorted is the list of its insertions, sorted without
  duplicates.
\<close>

section \<open>Plans\<close>

datatype ('d, 'v, 'u, 'fv) effective_commit_action =
    EffSchema 'u
  | EffProperties "'fv prepared_table_property_update"
  | EffData "('d, 'v) tx_data_epoch" bool
  | EffTruncateOnly

record ('d, 'v, 'u, 'fv, 'e, 'g) tx_table_commit_plan =
  plan_actions :: "('d, 'v, 'u, 'fv) effective_commit_action list"
  exclusive_action :: "'e option"
  truncate_guard :: "'g option"
  canceled_created_paths :: "string list"

definition has_data_change :: "('d, 'v, 'u, 'fv, 'e, 'g) tx_table_commit_plan \<Rightarrow> bool" where
  "has_data_change plan = list_ex (\<lambda>a. case a of EffData _ _ \<Rightarrow> True | EffTruncateOnly \<Rightarrow> True | _ \<Rightarrow> False)
     (plan_actions plan)"

definition last_truncate :: "('d, 'v, 'u, 'fv, 'e, 'g) tx_table_action list
    \<Rightarrow> (nat \<times> 'g tx_truncate_action) option" where
  "last_truncate as =
     find_map (\<lambda>(i, a). case a of Truncate t \<Rightarrow> Some (i, t) | _ \<Rightarrow> None) (rev (enumerate 0 as))"

record ('d, 'v, 'u, 'fv) plan_state =
  effective_actions :: "('d, 'v, 'u, 'fv) effective_commit_action list"
  paths :: "string list"
  pending_truncate :: bool

definition plan_push :: "('d, 'v, 'u, 'fv) effective_commit_action
    \<Rightarrow> ('d, 'v, 'u, 'fv) plan_state \<Rightarrow> ('d, 'v, 'u, 'fv) plan_state" where
  "plan_push a st = st \<lparr> effective_actions := effective_actions st @ [a] \<rparr>"

definition plan_keep_epoch :: "('d, 'v) tx_data_epoch
    \<Rightarrow> ('d, 'v, 'u, 'fv) plan_state \<Rightarrow> ('d, 'v, 'u, 'fv) plan_state" where
  "plan_keep_epoch ep st =
     (if epoch_is_empty ep then st
      else (plan_push (EffData ep (pending_truncate st)) st) \<lparr> pending_truncate := False \<rparr>)"

text \<open>
  One iteration of the planning loop, on the action at \<open>index\<close>: the state after it, and the
  action with the epoch cache it may have filled.
\<close>

definition plan_step :: "'d delta_api \<Rightarrow> 'e exclusive_api \<Rightarrow> nat option \<Rightarrow> nat
    \<Rightarrow> ('d, 'v, 'u, 'fv, 'e, 'g) tx_table_action \<Rightarrow> ('d, 'v, 'u, 'fv) plan_state
    \<Rightarrow> ('d, 'v, 'u, 'fv) plan_state iceberg_result \<times> ('d, 'v, 'u, 'fv, 'e, 'g) tx_table_action" where
  "plan_step D E last_truncate_index index a st = (case a of
       Schema u \<Rightarrow> (Inr (plan_push (EffSchema u) st), a)
     | Properties p \<Rightarrow> (Inr (plan_push (EffProperties p) st), a)
     | Data ep \<Rightarrow> (case last_truncate_index of
           None \<Rightarrow> (Inr (plan_keep_epoch ep st), a)
         | Some ti \<Rightarrow> (case epoch_delta D ep of
             (Inl e, ep') \<Rightarrow> (Inl e, Data ep')
           | (Inr d, ep') \<Rightarrow>
               if index < ti
               then (Inr (st \<lparr> paths := paths st @ sd_created_file_paths D d \<rparr>), Data ep')
               else (Inr (plan_keep_epoch ep'
                       (st \<lparr> paths := paths st @ sd_canceled_created_file_paths D d \<rparr>)), Data ep')))
     | Truncate _ \<Rightarrow> (Inr st, a)
     | Exclusive _ \<Rightarrow> (Inl (InvariantViolated (misplaced_invariant E)), a)
     | Drop \<Rightarrow> (Inl (InvariantViolated ''dropped table reached Iceberg commit planning''), a))"

fun plan_loop :: "'d delta_api \<Rightarrow> 'e exclusive_api \<Rightarrow> nat option \<Rightarrow> nat
    \<Rightarrow> ('d, 'v, 'u, 'fv, 'e, 'g) tx_table_action list \<Rightarrow> ('d, 'v, 'u, 'fv) plan_state
    \<Rightarrow> ('d, 'v, 'u, 'fv) plan_state iceberg_result \<times> ('d, 'v, 'u, 'fv, 'e, 'g) tx_table_action list" where
  "plan_loop D E lt i [] st = (Inr st, [])"
| "plan_loop D E lt i (a # as) st = (case plan_step D E lt i a st of
       (Inl e, a') \<Rightarrow> (Inl e, a' # as)
     | (Inr st', a') \<Rightarrow> (let (r, as') = plan_loop D E lt (Suc i) as st' in (r, a' # as')))"

definition commit_plan :: "'d delta_api \<Rightarrow> 'e exclusive_api \<Rightarrow> ('d, 'v, 'u, 'fv, 'e, 'g) tx_table_action_log
    \<Rightarrow> ('d, 'v, 'u, 'fv, 'e, 'g) tx_table_commit_plan iceberg_result
       \<times> ('d, 'v, 'u, 'fv, 'e, 'g) tx_table_action_log" where
  "commit_plan D E log =
     (case (case actions log of Exclusive e # _ \<Rightarrow> Some e | _ \<Rightarrow> None) of
        Some e \<Rightarrow>
          (if length (actions log) \<noteq> 1 then (Inl (InvariantViolated (not_exclusive_invariant E)), log)
           else (Inr \<lparr> plan_actions = [], exclusive_action = Some e, truncate_guard = None,
                       canceled_created_paths = [] \<rparr>, log))
      | None \<Rightarrow>
          (let lt = last_truncate (actions log);
               st0 = \<lparr> effective_actions = [], paths = [], pending_truncate = (lt \<noteq> None) \<rparr>;
               (r, as) = plan_loop D E (map_option fst lt) 0 (actions log) st0;
               log1 = log \<lparr> actions := as \<rparr>
           in case r of
                Inl e \<Rightarrow> (Inl e, log1)
              | Inr st \<Rightarrow>
                  (Inr \<lparr> plan_actions = (if pending_truncate st then effective_actions st @ [EffTruncateOnly]
                                         else effective_actions st),
                         exclusive_action = None,
                         truncate_guard = map_option (guard \<circ> snd) lt,
                         canceled_created_paths = sort (remdups (paths st)) \<rparr>, log1)))"

section \<open>Replay\<close>

text \<open>
  One action of the plan, on the metadata the definition changes are checked against and the
  Iceberg transaction under construction.
\<close>

definition replay_step :: "('u, 'm) schema_api \<Rightarrow> ('m, 'fv, 'sc) metadata_api \<Rightarrow> 'd delta_api
    \<Rightarrow> ('t, 'd, 'v, 'u) transaction_api \<Rightarrow> ('d, 'v, 'u, 'fv) effective_commit_action
    \<Rightarrow> 'm \<times> 't \<Rightarrow> ('m \<times> 't) iceberg_result" where
  "replay_step U T D X a = (\<lambda>(m, t). case a of
       EffSchema u \<Rightarrow>
         and_then (replay_schema U u m) (\<lambda>m'.
         and_then (tx_apply_schema X u t) (\<lambda>t'. Inr (m', t')))
     | EffProperties p \<Rightarrow>
         and_then (validate_base_metadata T p m) (\<lambda>_.
         and_then (apply_to_metadata T p m) (\<lambda>m'.
         and_then (property_apply_to_transaction X p t) (\<lambda>t'. Inr (m', t'))))
     | EffData ep truncate_base \<Rightarrow>
         and_then (fst (epoch_delta D ep)) (\<lambda>d.
         and_then (if epoch_validations ep = [] then tx_snapshot_delta X d truncate_base t
                   else tx_row_delta X d (epoch_validations ep) truncate_base t)
           (\<lambda>t'. Inr (m, t')))
     | EffTruncateOnly \<Rightarrow>
         and_then (tx_snapshot_delta X (sd_new D) True t) (\<lambda>t'. Inr (m, t')))"

definition apply_to_transaction :: "('u, 'm) schema_api \<Rightarrow> ('m, 'fv, 'sc) metadata_api \<Rightarrow> 'd delta_api
    \<Rightarrow> ('t, 'd, 'v, 'u) transaction_api \<Rightarrow> ('d, 'v, 'u, 'fv, 'e, 'g) tx_table_commit_plan
    \<Rightarrow> 't \<Rightarrow> 'm \<Rightarrow> 't iceberg_result" where
  "apply_to_transaction U T D X plan t base_metadata =
     and_then (fold_result (replay_step U T D X) (plan_actions plan) (base_metadata, t))
       (\<lambda>(m, t'). Inr t')"

definition overlay_step :: "('u, 'm) schema_api \<Rightarrow> ('m, 'fv, 'sc) metadata_api
    \<Rightarrow> ('d, 'v, 'u, 'fv, 'e, 'g) tx_table_action \<Rightarrow> 'm \<Rightarrow> 'm iceberg_result" where
  "overlay_step U T a m = (case a of
       Schema u \<Rightarrow> replay_schema U u m
     | Properties p \<Rightarrow> apply_to_metadata T p m
     | _ \<Rightarrow> Inr m)"

definition overlay_metadata :: "('u, 'm) schema_api \<Rightarrow> ('m, 'fv, 'sc) metadata_api
    \<Rightarrow> ('d, 'v, 'u, 'fv, 'e, 'g) tx_table_action_log \<Rightarrow> 'm \<Rightarrow> 'm iceberg_result" where
  "overlay_metadata U T log m = fold_result (overlay_step U T) (actions log) m"

definition read_schema :: "('u, 'm) schema_api \<Rightarrow> ('m, 'fv, 'sc) metadata_api
    \<Rightarrow> ('d, 'v, 'u, 'fv, 'e, 'g) tx_table_action_log \<Rightarrow> 'm \<Rightarrow> 'sc iceberg_result" where
  "read_schema U T log m =
     (if \<not> list_ex (\<lambda>a. case a of Schema _ \<Rightarrow> True | _ \<Rightarrow> False) (actions log)
      then Inr (tm_current_schema T m)
      else and_then (overlay_metadata U T log m) (\<lambda>d. Inr (tm_current_schema T d)))"

fun created_loop :: "'d delta_api \<Rightarrow> ('d, 'v, 'u, 'fv, 'e, 'g) tx_table_action list \<Rightarrow> string list
    \<Rightarrow> string list iceberg_result \<times> ('d, 'v, 'u, 'fv, 'e, 'g) tx_table_action list" where
  "created_loop D [] acc = (Inr acc, [])"
| "created_loop D (a # as) acc = (case a of
       Data ep \<Rightarrow> (case epoch_delta D ep of
           (Inl e, ep') \<Rightarrow> (Inl e, Data ep' # as)
         | (Inr d, ep') \<Rightarrow>
             (let (r, as') = created_loop D as (acc @ sd_created_file_paths D d) in (r, Data ep' # as')))
     | _ \<Rightarrow> (let (r, as') = created_loop D as acc in (r, a # as')))"

definition created_file_paths :: "'d delta_api \<Rightarrow> ('d, 'v, 'u, 'fv, 'e, 'g) tx_table_action_log
    \<Rightarrow> string list iceberg_result \<times> ('d, 'v, 'u, 'fv, 'e, 'g) tx_table_action_log" where
  "created_file_paths D log =
     (let (r, as) = created_loop D (actions log) [];
          log1 = log \<lparr> actions := as \<rparr>
      in case r of Inl e \<Rightarrow> (Inl e, log1) | Inr ps \<Rightarrow> (Inr (sort (remdups ps)), log1))"

section \<open>Coherence of the caches under planning\<close>

lemma plan_step_coherent:
  assumes "action_ok D a"
  shows "action_ok D (snd (plan_step D E lt i a st))"
    and "erase_action (snd (plan_step D E lt i a st)) = erase_action a"
proof -
  have ok: "epoch_ok D ep'" if "epoch_ok D ep" "epoch_delta D ep = (r, ep')" for r ep ep'
    using epoch_delta_coherent(2) [OF that(1)] that(2) by simp
  have er: "ep' \<lparr> combined := None \<rparr> = ep \<lparr> combined := None \<rparr>" if "epoch_delta D ep = (r, ep')" for r ep ep'
    using erase_epoch_delta [of D ep] that by simp
  show "action_ok D (snd (plan_step D E lt i a st))"
    using assms by (auto simp: plan_step_def split: tx_table_action.splits option.splits prod.splits
        sum.splits intro: ok)
  show "erase_action (snd (plan_step D E lt i a st)) = erase_action a"
    by (auto simp: plan_step_def split: tx_table_action.splits option.splits prod.splits
        sum.splits dest: er)
qed

lemma plan_loop_coherent:
  "list_all (action_ok D) as \<Longrightarrow>
     list_all (action_ok D) (snd (plan_loop D E lt i as st))
   \<and> map erase_action (snd (plan_loop D E lt i as st)) = map erase_action as"
proof (induction as arbitrary: i st)
  case (Cons a as)
  then show ?case using plan_step_coherent [of D a E lt i st]
    by (cases "plan_step D E lt i a st") (auto simp: split_beta split: sum.splits)
qed simp

lemma commit_plan_coherent:
  assumes "caches_ok D log"
  shows "caches_ok D (snd (commit_plan D E log))"
    and "map erase_action (actions (snd (commit_plan D E log))) = map erase_action (actions log)"
proof -
  have ok: "list_all (action_ok D) (actions log)" using assms by (simp add: caches_ok_def)
  note l = plan_loop_coherent [OF ok]
  show "caches_ok D (snd (commit_plan D E log))"
    using assms caches_ok_actions [OF assms] l
    by (auto simp: commit_plan_def Let_def split_beta split: option.splits sum.splits)
  show "map erase_action (actions (snd (commit_plan D E log))) = map erase_action (actions log)"
    using l by (auto simp: commit_plan_def Let_def split_beta split: option.splits sum.splits)
qed

lemma created_loop_coherent:
  "list_all (action_ok D) as \<Longrightarrow>
     list_all (action_ok D) (snd (created_loop D as acc))
   \<and> map erase_action (snd (created_loop D as acc)) = map erase_action as"
proof (induction as arbitrary: acc)
  case (Cons a as)
  show ?case
  proof (cases a)
    case (Data ep)
    then show ?thesis
      using Cons epoch_delta_coherent(2) [of D ep] erase_epoch_delta [of D ep]
      by (cases "epoch_delta D ep") (auto simp: split_beta split: sum.splits)
  qed (use Cons in \<open>auto simp: split_beta\<close>)
qed simp

lemma created_file_paths_coherent:
  assumes "caches_ok D log"
  shows "caches_ok D (snd (created_file_paths D log))"
    and "map erase_action (actions (snd (created_file_paths D log))) = map erase_action (actions log)"
proof -
  have ok: "list_all (action_ok D) (actions log)" using assms by (simp add: caches_ok_def)
  note l = created_loop_coherent [OF ok]
  show "caches_ok D (snd (created_file_paths D log))"
    "map erase_action (actions (snd (created_file_paths D log))) = map erase_action (actions log)"
    using caches_ok_actions [OF assms] l
    by (auto simp: created_file_paths_def Let_def split_beta split: sum.splits)
qed

section \<open>The last truncation\<close>

lemma last_truncate_snoc:
  "last_truncate (as @ [a]) = (case a of Truncate t \<Rightarrow> Some (length as, t) | _ \<Rightarrow> last_truncate as)"
  by (cases a) (simp_all add: last_truncate_def enumerate_append_eq)

lemma last_truncate_None: "last_truncate as = None \<longleftrightarrow> (\<forall>t. Truncate t \<notin> set as)"
  by (induction as rule: rev_induct)
    (auto simp: last_truncate_snoc last_truncate_def [of "[]"] split: tx_table_action.splits)

lemma last_truncate_Some:
  "last_truncate as = Some (i, t) \<Longrightarrow>
     \<exists>pre post. as = pre @ Truncate t # post \<and> length pre = i \<and> (\<forall>t'. Truncate t' \<notin> set post)"
proof (induction as rule: rev_induct)
  case Nil
  then show ?case by (simp add: last_truncate_def)
next
  case (snoc a as)
  show ?case
  proof (cases "\<exists>t. a = Truncate t")
    case True
    then show ?thesis using snoc.prems
      by (intro exI [of _ as] exI [of _ "[]"]) (auto simp: last_truncate_snoc)
  next
    case False
    then have "last_truncate as = Some (i, t)"
      using snoc.prems by (simp add: last_truncate_snoc split: tx_table_action.splits)
    then obtain pre post where "as = pre @ Truncate t # post" "length pre = i" "\<forall>t'. Truncate t' \<notin> set post"
      using snoc.IH by blast
    then show ?thesis using False by (intro exI [of _ pre] exI [of _ "post @ [a]"]) auto
  qed
qed

section \<open>The plan has the effect of the log\<close>

definition plan_effect :: "('d \<Rightarrow> 's \<Rightarrow> 's) \<Rightarrow> 's \<Rightarrow> ('d, 'v, 'u, 'fv) effective_commit_action list \<Rightarrow> 's \<Rightarrow> 's" where
  "plan_effect view cleared = fold (\<lambda>a s. case a of
       EffData ep tb \<Rightarrow> batches_effect view None (batches ep) (if tb then cleared else s)
     | EffTruncateOnly \<Rightarrow> cleared
     | _ \<Rightarrow> s)"

text \<open>The plan the loop state stands for: a truncation still owed comes last.\<close>

definition finish_plan :: "('d, 'v, 'u, 'fv) plan_state \<Rightarrow> ('d, 'v, 'u, 'fv) effective_commit_action list" where
  "finish_plan st = effective_actions st @ (if pending_truncate st then [EffTruncateOnly] else [])"

definition is_definition :: "('d, 'v, 'u, 'fv, 'e, 'g) tx_table_action \<Rightarrow> bool" where
  "is_definition a = (case a of Schema _ \<Rightarrow> True | Properties _ \<Rightarrow> True | _ \<Rightarrow> False)"

definition eff_definitions :: "('d, 'v, 'u, 'fv) effective_commit_action list
    \<Rightarrow> ('d, 'v, 'u, 'fv, 'e, 'g) tx_table_action list" where
  "eff_definitions = List.map_filter (\<lambda>a. case a of
       EffSchema u \<Rightarrow> Some (Schema u) | EffProperties p \<Rightarrow> Some (Properties p) | _ \<Rightarrow> None)"

definition eff_ok :: "'d delta_api \<Rightarrow> ('d, 'v, 'u, 'fv) effective_commit_action \<Rightarrow> bool" where
  "eff_ok D a = (case a of EffData ep _ \<Rightarrow> epoch_ok D ep | _ \<Rightarrow> True)"

lemma batches_effect_Nil [simp]: "batches_effect view rc [] = (\<lambda>s. s)"
  by (simp add: batches_effect_def fun_eq_iff)

lemma eff_definitions_simps [simp]:
  "eff_definitions [] = []"
  "eff_definitions (xs @ ys) = eff_definitions xs @ eff_definitions ys"
  "eff_definitions [EffSchema u] = [Schema u]"
  "eff_definitions [EffProperties p] = [Properties p]"
  "eff_definitions [EffData ep tb] = []"
  "eff_definitions [EffTruncateOnly] = []"
  by (simp_all add: eff_definitions_def map_filter_def)

lemma eff_definitions_Cons: "eff_definitions (a # xs) = eff_definitions [a] @ eff_definitions xs"
  using eff_definitions_simps(2) [of "[a]" xs] by simp

lemma plan_loop_append:
  "plan_loop D E lt i (xs @ ys) st =
     (case plan_loop D E lt i xs st of
        (Inl e, xs') \<Rightarrow> (Inl e, xs' @ ys)
      | (Inr st', xs') \<Rightarrow> (let (r, ys') = plan_loop D E lt (i + length xs) ys st' in (r, xs' @ ys')))"
  by (induction xs arbitrary: i st) (auto simp: Let_def split: prod.splits sum.splits)

text \<open>Every step keeps the order of the definition changes and only plans coherent epochs.\<close>

lemma plan_step_definitions:
  assumes "plan_step D E lt i a st = (Inr st', a')"
  shows "eff_definitions (effective_actions st') = eff_definitions (effective_actions st) @ filter is_definition [a]"
    and "action_ok D a \<Longrightarrow> list_all (eff_ok D) (effective_actions st) \<Longrightarrow> list_all (eff_ok D) (effective_actions st')"
proof -
  have ok: "epoch_ok D ep'" if "epoch_ok D ep" "epoch_delta D ep = (r, ep')" for r ep ep'
    using epoch_delta_coherent(2) [OF that(1)] that(2) by simp
  show "eff_definitions (effective_actions st') = eff_definitions (effective_actions st) @ filter is_definition [a]"
    using assms by (auto simp: plan_step_def plan_push_def plan_keep_epoch_def is_definition_def
        split: tx_table_action.splits option.splits prod.splits sum.splits if_splits)
  show "action_ok D a \<Longrightarrow> list_all (eff_ok D) (effective_actions st) \<Longrightarrow> list_all (eff_ok D) (effective_actions st')"
    using assms by (auto simp: plan_step_def plan_push_def plan_keep_epoch_def eff_ok_def
        split: tx_table_action.splits option.splits prod.splits sum.splits if_splits dest: ok)
qed

lemma plan_loop_Cons_Inr:
  "plan_loop D E lt i (a # as) st = (Inr st', as') \<longleftrightarrow>
     (\<exists>st1 a1 as1. plan_step D E lt i a st = (Inr st1, a1)
        \<and> plan_loop D E lt (Suc i) as st1 = (Inr st', as1) \<and> as' = a1 # as1)"
  by (auto split: prod.splits sum.splits)

lemma plan_loop_definitions:
  assumes "plan_loop D E lt i as st = (Inr st', as')"
  shows "eff_definitions (effective_actions st') = eff_definitions (effective_actions st) @ filter is_definition as
       \<and> (list_all (action_ok D) as \<longrightarrow> list_all (eff_ok D) (effective_actions st) \<longrightarrow>
           list_all (eff_ok D) (effective_actions st'))"
  using assms
proof (induction as arbitrary: i st as')
  case (Cons a as)
  then obtain st1 a1 as1 where step: "plan_step D E lt i a st = (Inr st1, a1)"
    and loop: "plan_loop D E lt (Suc i) as st1 = (Inr st', as1)"
    unfolding plan_loop_Cons_Inr by blast
  show ?case using Cons.IH [OF loop] plan_step_definitions [OF step] by auto
qed simp

text \<open>Before the last truncation only definition changes are planned.\<close>

lemma plan_loop_before:
  assumes "plan_loop D E (Some ti) i as st = (Inr st', as')" and "i + length as \<le> ti"
  shows "pending_truncate st' = pending_truncate st"
  using assms
proof (induction as arbitrary: i st as')
  case (Cons a as)
  then obtain st1 a1 as1 where step: "plan_step D E (Some ti) i a st = (Inr st1, a1)"
    and loop: "plan_loop D E (Some ti) (Suc i) as st1 = (Inr st', as1)"
    unfolding plan_loop_Cons_Inr by blast
  have "pending_truncate st1 = pending_truncate st"
    using step Cons.prems(2) by (auto simp: plan_step_def plan_push_def
        split: tx_table_action.splits prod.splits sum.splits if_splits)
  then show ?case using Cons.IH [OF loop] Cons.prems(2) by simp
qed simp

text \<open>From the last truncation on each step adds the effect of its action.\<close>

lemma plan_effect_append [simp]:
  "plan_effect view cleared (xs @ ys) s = plan_effect view cleared ys (plan_effect view cleared xs s)"
  by (simp add: plan_effect_def)

lemma plan_effect_single [simp]:
  "plan_effect view cleared [] s = s"
  "plan_effect view cleared [EffSchema u] s = s"
  "plan_effect view cleared [EffProperties p] s = s"
  "plan_effect view cleared [EffData ep tb] s = batches_effect view None (batches ep) (if tb then cleared else s)"
  "plan_effect view cleared [EffTruncateOnly] s = cleared"
  by (simp_all add: plan_effect_def)

lemma plan_keep_epoch_effect:
  "plan_effect view cleared (finish_plan (plan_keep_epoch ep st)) s
     = batches_effect view None (batches ep) (plan_effect view cleared (finish_plan st) s)"
  by (simp add: plan_keep_epoch_def plan_push_def finish_plan_def epoch_is_empty_def)

lemma finish_plan_paths [simp]: "finish_plan (st \<lparr> paths := ps \<rparr>) = finish_plan st"
  by (simp add: finish_plan_def)

lemma finish_plan_init [simp]:
  "finish_plan \<lparr> effective_actions = [], paths = ps, pending_truncate = False \<rparr> = []"
  by (simp add: finish_plan_def)

lemma batches_epoch_delta: "epoch_delta D ep = (r, ep') \<Longrightarrow> batches ep' = batches ep"
  using batches_epoch(4) [of D ep] by simp

lemma plan_step_after:
  assumes "plan_step D E lt i a st = (Inr st', a')"
    and "\<And>ti. lt = Some ti \<Longrightarrow> ti \<le> i" and "\<And>t. a \<noteq> Truncate t"
  shows "plan_effect view cleared (finish_plan st') s
       = action_effect view (\<lambda>_. cleared) None a (plan_effect view cleared (finish_plan st) s)"
proof (cases a)
  case (Data ep)
  then show ?thesis
    using assms(1,2) batches_epoch_delta [of D ep]
    by (auto simp: plan_step_def action_effect_def plan_keep_epoch_effect
        split: option.splits prod.splits sum.splits if_splits)
qed (use assms in \<open>auto simp: plan_step_def action_effect_def plan_push_def finish_plan_def\<close>)

lemma plan_loop_after:
  assumes "plan_loop D E lt i as st = (Inr st', as')"
    and "\<And>ti. lt = Some ti \<Longrightarrow> ti \<le> i" and "\<And>t. Truncate t \<notin> set as"
  shows "plan_effect view cleared (finish_plan st') s
       = log_effect view (\<lambda>_. cleared) None as (plan_effect view cleared (finish_plan st) s)"
  using assms
proof (induction as arbitrary: i st as')
  case (Cons a as)
  then obtain st1 a1 as1 where step: "plan_step D E lt i a st = (Inr st1, a1)"
    and loop: "plan_loop D E lt (Suc i) as st1 = (Inr st', as1)"
    unfolding plan_loop_Cons_Inr by blast
  have later: "ti \<le> Suc i" if "lt = Some ti" for ti using Cons.prems(2) [OF that] by simp
  have tail: "Truncate t \<notin> set as" "a \<noteq> Truncate t" for t using Cons.prems(3) [of t] by auto
  show ?case
    using Cons.IH [OF loop later tail(1)] plan_step_after [OF step Cons.prems(2) tail(2), of view cleared s]
    by (simp add: log_effect_def)
qed (simp add: log_effect_def)

lemma plan_loop_effect:
  assumes "plan_loop D E (map_option fst (last_truncate as)) 0 as
             \<lparr> effective_actions = [], paths = [], pending_truncate = (last_truncate as \<noteq> None) \<rparr>
           = (Inr st', as')"
  shows "plan_effect view cleared (finish_plan st') s = log_effect view (\<lambda>_. cleared) None as s"
proof (cases "last_truncate as")
  case None
  have "Truncate t \<notin> set as" for t using None by (simp add: last_truncate_None)
  then show ?thesis
    using plan_loop_after [OF assms, of view cleared s] None by simp
next
  case (Some it)
  then obtain t pre post where as: "as = pre @ Truncate t # post" "fst it = length pre"
    and post: "\<And>t'. Truncate t' \<notin> set post"
    using last_truncate_Some [of as "fst it" "snd it"] by auto
  let ?lt = "Some (length pre)"
  obtain st1 pre' where pre: "plan_loop D E ?lt 0 pre
      \<lparr> effective_actions = [], paths = [], pending_truncate = True \<rparr> = (Inr st1, pre')"
    and "plan_loop D E ?lt (length pre) (Truncate t # post) st1 = (Inr st', drop (length pre') as')"
    using assms Some as(2) unfolding as(1) plan_loop_append
    by (auto simp del: plan_loop.simps split: prod.splits sum.splits)
  then obtain as1 where loop: "plan_loop D E ?lt (Suc (length pre)) post st1 = (Inr st', as1)"
    by (auto simp: plan_loop_Cons_Inr plan_step_def simp del: plan_loop.simps)
  have "pending_truncate st1" using plan_loop_before [OF pre] by simp
  then have "plan_effect view cleared (finish_plan st1) s = cleared"
    by (simp add: finish_plan_def)
  with plan_loop_after [OF loop _ post, of view cleared s] show ?thesis
    by (simp add: as log_effect_def action_effect_def)
qed

section \<open>Replay of the plan\<close>

text \<open>
  What the engine relies on from an Iceberg transaction: \<open>content\<close> are the files it would
  publish; definition changes leave them alone, a delta is applied to them, or to an empty table
  if it truncates the base.
\<close>

definition transaction_laws :: "('t, 'd, 'v, 'u) transaction_api \<Rightarrow> ('d \<Rightarrow> 's \<Rightarrow> 's) \<Rightarrow> 's \<Rightarrow> ('t \<Rightarrow> 's) \<Rightarrow> bool" where
  "transaction_laws X view cleared content \<longleftrightarrow>
     (\<forall>u t t'. tx_apply_schema X u t = Inr t' \<longrightarrow> content t' = content t)
   \<and> (\<forall>ps t t'. tx_update_properties X ps t = Inr t' \<longrightarrow> content t' = content t)
   \<and> (\<forall>d tb t t'. tx_snapshot_delta X d tb t = Inr t' \<longrightarrow>
        content t' = view d (if tb then cleared else content t))
   \<and> (\<forall>d vs tb t t'. tx_row_delta X d vs tb t = Inr t' \<longrightarrow>
        content t' = view d (if tb then cleared else content t))"

lemma replay_step_content:
  assumes "delta_laws D view clear" and "transaction_laws X view cleared content"
    and "replay_step U T D X a (m, t) = Inr (m', t')" and "eff_ok D a"
  shows "content t' = plan_effect view cleared [a] (content t)"
proof (cases a)
  case (EffData ep tb)
  then have ok: "epoch_ok D ep" using assms(4) by (simp add: eff_ok_def)
  obtain d where d: "epoch_compute D (batches ep) = Inr d"
    and "tx_snapshot_delta X d tb t = Inr t' \<or> tx_row_delta X d (epoch_validations ep) tb t = Inr t'"
    using assms(3) EffData epoch_delta_coherent(1) [OF ok]
    by (auto simp: replay_step_def and_then_Inr_iff split: if_splits)
  then show ?thesis
    using assms(2) epoch_compute_view [OF assms(1) d] EffData by (auto simp: transaction_laws_def)
qed (use assms(1-3) in \<open>auto simp: replay_step_def and_then_Inr_iff transaction_laws_def delta_laws_def
    property_apply_to_transaction_def\<close>)

lemma replay_content:
  assumes "delta_laws D view clear" and "transaction_laws X view cleared content"
    and "fold_result (replay_step U T D X) xs (m, t) = Inr (m', t')" and "list_all (eff_ok D) xs"
  shows "content t' = plan_effect view cleared xs (content t)"
  using assms(3,4)
proof (induction xs arbitrary: m t)
  case (Cons a xs)
  then obtain m1 t1 where 1: "replay_step U T D X a (m, t) = Inr (m1, t1)"
    and rest: "fold_result (replay_step U T D X) xs (m1, t1) = Inr (m', t')"
    by (auto simp: and_then_Inr_iff)
  have "content t1 = plan_effect view cleared [a] (content t)"
    using replay_step_content [OF assms(1,2) 1] Cons.prems(2) by simp
  with Cons.IH [OF rest] Cons.prems(2) show ?case
    using plan_effect_append [of view cleared "[a]" xs] by simp
qed simp

text \<open>The metadata the replay checks against is what readers of the transaction saw.\<close>

lemma overlay_step_other: "\<not> is_definition a \<Longrightarrow> overlay_step U T a m = Inr m"
  by (cases a) (auto simp: is_definition_def overlay_step_def)

lemma overlay_fold_definitions:
  "fold_result (overlay_step U T) (filter is_definition as) m = fold_result (overlay_step U T) as m"
proof (induction as arbitrary: m)
  case (Cons a as)
  then show ?case
    by (cases "is_definition a"; cases "overlay_step U T a m") (auto simp: overlay_step_other)
qed simp

lemma replay_step_metadata:
  "replay_step U T D X a (m, t) = Inr (m', t') \<Longrightarrow>
     fold_result (overlay_step U T) (eff_definitions [a]) m = Inr m'"
  by (cases a) (auto simp: replay_step_def and_then_Inr_iff overlay_step_def)

lemma replay_metadata:
  "fold_result (replay_step U T D X) xs (m, t) = Inr (m', t') \<Longrightarrow>
     fold_result (overlay_step U T) (eff_definitions xs) m = Inr m'"
proof (induction xs arbitrary: m t)
  case (Cons a xs)
  then obtain m1 t1 where 1: "replay_step U T D X a (m, t) = Inr (m1, t1)"
    and rest: "fold_result (replay_step U T D X) xs (m1, t1) = Inr (m', t')"
    by (auto simp: and_then_Inr_iff)
  show ?case
    by (subst eff_definitions_Cons)
      (simp add: fold_result_append replay_step_metadata [OF 1] Cons.IH [OF rest])
qed simp

lemma commit_plan_Inr:
  assumes "commit_plan D E log = (Inr plan, log')" and "exclusive_action plan = None"
  obtains st as' where "plan_loop D E (map_option fst (last_truncate (actions log))) 0 (actions log)
      \<lparr> effective_actions = [], paths = [], pending_truncate = (last_truncate (actions log) \<noteq> None) \<rparr>
      = (Inr st, as')"
    and "plan_actions plan = finish_plan st"
    and "truncate_guard plan = map_option (guard \<circ> snd) (last_truncate (actions log))"
    and "canceled_created_paths plan = sort (remdups (paths st))"
  using assms
  by (auto simp: commit_plan_def Let_def finish_plan_def split: option.splits prod.splits sum.splits if_splits)

section \<open>Obsolete files\<close>

definition epoch_paths :: "'d delta_api \<Rightarrow> ('d \<Rightarrow> string list)
    \<Rightarrow> ('d, 'v, 'u, 'fv, 'e, 'g) tx_table_action list \<Rightarrow> string list" where
  "epoch_paths D f as = concat (map (\<lambda>a. case a of
       Data ep \<Rightarrow> (case epoch_compute D (batches ep) of Inr d \<Rightarrow> f d | Inl _ \<Rightarrow> [])
     | _ \<Rightarrow> []) as)"

lemma plan_keep_epoch_paths [simp]: "paths (plan_keep_epoch ep st) = paths st"
  by (simp add: plan_keep_epoch_def plan_push_def)

lemma plan_step_paths:
  assumes "plan_step D E lt i a st = (Inr st', a')" and "action_ok D a"
  shows "paths st' = paths st @ (case lt of None \<Rightarrow> []
           | Some ti \<Rightarrow> epoch_paths D (if i < ti then sd_created_file_paths D
                                     else sd_canceled_created_file_paths D) [a])"
proof (cases a)
  case (Data ep)
  have "fst (epoch_delta D ep) = epoch_compute D (batches ep)"
    using epoch_delta_coherent(1) assms(2) Data by simp
  then show ?thesis
    using assms(1) Data
    by (cases "epoch_delta D ep")
      (auto simp: plan_step_def epoch_paths_def split: option.splits sum.splits if_splits)
qed (use assms in \<open>auto simp: plan_step_def plan_push_def epoch_paths_def split: option.splits\<close>)

lemma epoch_paths_Cons: "epoch_paths D f (a # as) = epoch_paths D f [a] @ epoch_paths D f as"
  by (simp add: epoch_paths_def)

lemma plan_loop_paths:
  assumes "plan_loop D E lt i as st = (Inr st', as')" and "list_all (action_ok D) as"
    and "f = (if early then sd_created_file_paths D else sd_canceled_created_file_paths D)"
    and "\<And>ti. lt = Some ti \<Longrightarrow> if early then i + length as \<le> ti else ti \<le> i"
  shows "paths st' = paths st @ (if lt = None then [] else epoch_paths D f as)"
  using assms
proof (induction as arbitrary: i st as')
  case Nil
  then show ?case by (simp add: epoch_paths_def)
next
  case (Cons a as)
  then obtain st1 a1 as1 where step: "plan_step D E lt i a st = (Inr st1, a1)"
    and loop: "plan_loop D E lt (Suc i) as st1 = (Inr st', as1)"
    unfolding plan_loop_Cons_Inr by blast
  have ok: "action_ok D a" "list_all (action_ok D) as" using Cons.prems(2) by auto
  have "if early then Suc i + length as \<le> ti else ti \<le> Suc i" if "lt = Some ti" for ti
    using Cons.prems(4) [OF that] by (auto split: if_splits)
  from Cons.IH [OF loop ok(2) Cons.prems(3) this] plan_step_paths [OF step ok(1)] Cons.prems(3,4)
  show ?case
    by (subst epoch_paths_Cons) (auto split: option.splits if_splits)
qed

lemma plan_loop_canceled:
  assumes "plan_loop D E (Some (length pre)) 0 (pre @ Truncate t # post) st = (Inr st', as')"
    and "list_all (action_ok D) (pre @ Truncate t # post)"
  shows "paths st' = paths st @ epoch_paths D (sd_created_file_paths D) pre
           @ epoch_paths D (sd_canceled_created_file_paths D) post"
proof -
  let ?lt = "Some (length pre)"
  obtain st1 pre' where pre: "plan_loop D E ?lt 0 pre st = (Inr st1, pre')"
    and "plan_loop D E ?lt (length pre) (Truncate t # post) st1 = (Inr st', drop (length pre') as')"
    using assms(1) unfolding plan_loop_append
    by (auto simp del: plan_loop.simps split: prod.splits sum.splits)
  then obtain as1 where post: "plan_loop D E ?lt (Suc (length pre)) post st1 = (Inr st', as1)"
    by (auto simp: plan_loop_Cons_Inr plan_step_def simp del: plan_loop.simps)
  show ?thesis
    using plan_loop_paths [OF pre, of _ True] plan_loop_paths [OF post, of _ False] assms(2) by simp
qed

section \<open>Which logs have a plan\<close>

lemma plan_step_total:
  assumes "\<And>a b e. sd_append_delta D a b \<noteq> Inl e"
  shows "(\<exists>st' a'. plan_step D E lt i a st = (Inr st', a')) \<longleftrightarrow> \<not> ends_overlay a"
proof (cases a)
  case (Data ep)
  have "epoch_compute D bs \<noteq> Inl e" for bs e
    using epoch_compute_error [of D bs e] assms by auto
  then obtain d ep' where "epoch_delta D ep = (Inr d, ep')"
    by (cases "combined ep"; cases "epoch_compute D (batches ep)") (auto simp: epoch_delta_def)
  then show ?thesis by (auto simp: Data plan_step_def ends_overlay_def split: option.splits)
qed (auto simp: plan_step_def ends_overlay_def)

lemma plan_loop_total:
  assumes "\<And>a b e. sd_append_delta D a b \<noteq> Inl e"
  shows "(\<exists>st' as'. plan_loop D E lt i as st = (Inr st', as')) \<longleftrightarrow> \<not> list_ex ends_overlay as"
proof (induction as arbitrary: i st)
  case (Cons a as)
  show ?case
    unfolding plan_loop_Cons_Inr using Cons.IH plan_step_total [OF assms, of E lt i a st]
    by (auto simp del: plan_loop.simps)
qed simp

end
