(* ===== verification/Log_Runs.thy ===== *)
theory Log_Runs
  imports Commit_Plan
begin

text \<open>
  Runs of the action log: every sequence of staging operations, savepoint rollbacks, reads and
  planning calls, starting from the empty log. The properties of reads and of commit planning are
  stated over such runs, so that they hold for every log the engine can have.
\<close>

section \<open>Operations as data\<close>

datatype ('d, 'v, 'u, 'fv, 'e, 'g) log_op =
    OpSchema 'u
  | OpProperties "'fv prepared_table_property_update"
  | OpExclusive 'e
  | OpTruncate 'g command_id
  | OpDrop
  | OpBatch "('d, 'v) tx_write_batch"
  | OpRollback tx_table_action_log_marker
  | OpVisibleDelta "command_id option"
  | OpCreatedFilePaths
  | OpCommitPlan

fun apply_log_op :: "'d delta_api \<Rightarrow> ('u, 'm) schema_api \<Rightarrow> 'e exclusive_api
    \<Rightarrow> ('d, 'v, 'u, 'fv, 'e, 'g) log_op \<Rightarrow> ('d, 'v, 'u, 'fv, 'e, 'g) tx_table_action_log
    \<Rightarrow> ('d, 'v, 'u, 'fv, 'e, 'g) tx_table_action_log" where
  "apply_log_op D U E (OpSchema u) log = stage_schema U u log"
| "apply_log_op D U E (OpProperties p) log = stage_properties p log"
| "apply_log_op D U E (OpExclusive e) log = snd (stage_exclusive E e log)"
| "apply_log_op D U E (OpTruncate g cid) log = stage_truncate g cid log"
| "apply_log_op D U E OpDrop log = stage_drop log"
| "apply_log_op D U E (OpBatch b) log = log_record_batch D b log"
| "apply_log_op D U E (OpRollback m) log = log_truncate m log"
| "apply_log_op D U E (OpVisibleDelta rc) log = snd (visible_delta D rc log)"
| "apply_log_op D U E OpCreatedFilePaths log = snd (created_file_paths D log)"
| "apply_log_op D U E OpCommitPlan log = snd (commit_plan D E log)"

definition run_log :: "'d delta_api \<Rightarrow> ('u, 'm) schema_api \<Rightarrow> 'e exclusive_api
    \<Rightarrow> ('d, 'v, 'u, 'fv, 'e, 'g) log_op list \<Rightarrow> ('d, 'v, 'u, 'fv, 'e, 'g) tx_table_action_log" where
  "run_log D U E ops = fold (apply_log_op D U E) ops log_default"

text \<open>An overlay of file paths, the concrete instance the witnesses evaluate.\<close>

definition path_overlay :: "(bool \<times> string list) delta_api" where
  "path_overlay =
     \<lparr> sd_new = (False, []),
       sd_is_empty = (\<lambda>(t, ps). \<not> t \<and> ps = []),
       sd_append_delta = (\<lambda>(t, ps) (t', ps'). Inr (if t' then (True, ps') else (t, ps @ ps'))),
       sd_truncate_table = (\<lambda>_. Inr (True, [])),
       sd_created_file_paths = snd,
       sd_canceled_created_file_paths = (\<lambda>_. []) \<rparr>"

definition path_view :: "bool \<times> string list \<Rightarrow> string list \<Rightarrow> string list" where
  "path_view d s = (if fst d then snd d else s @ snd d)"

lemma path_overlay_laws: "delta_laws path_overlay path_view (\<lambda>_. [])"
  by (auto simp: delta_laws_def path_overlay_def path_view_def fun_eq_iff)

section \<open>Every operation keeps the caches coherent\<close>

lemma caches_ok_default: "caches_ok D log_default"
  by (simp add: caches_ok_def log_default_def)

lemma caches_ok_invalidated:
  "list_all (action_ok D) as \<Longrightarrow> caches_ok D (invalidate_read_caches log \<lparr> actions := as \<rparr>)"
  by (simp add: caches_ok_def invalidate_read_caches_def)

lemma caches_ok_epochs: "caches_ok D log \<Longrightarrow> list_all (action_ok D) (actions log)"
  by (simp add: caches_ok_def)

lemma actions_invalidate [simp]: "actions (invalidate_read_caches log) = actions log"
  by (simp add: invalidate_read_caches_def)

lemma list_all_take: "list_all P xs \<Longrightarrow> list_all P (take n xs)"
  by (auto simp: list_all_iff dest: in_set_takeD)

lemma list_all_map_last_epoch:
  assumes "list_all (action_ok D) as" and "\<And>ep. epoch_ok D (f ep)"
  shows "list_all (action_ok D) (map_last_epoch f as)"
  using assms by (auto simp: map_last_epoch_def list_all_iff split: tx_table_action.splits
      dest: in_set_butlastD)

lemma fresh_loop_append:
  "fresh_loop D rc acc (xs @ ys) =
     (case fresh_loop D rc acc xs of Continue acc' \<Rightarrow> fresh_loop D rc acc' ys | c \<Rightarrow> c)"
  by (induction xs arbitrary: acc) (auto split: control.splits)

text \<open>Definition changes do not touch the overlay, so they need not invalidate the caches.\<close>

lemma caches_ok_definition:
  assumes "caches_ok D log" and "is_definition a"
  shows "caches_ok D (push_action a log)"
proof -
  have step: "fresh_step D rc acc a = Continue acc" for rc acc
    using assms(2) by (cases a) (auto simp: fresh_step_def is_definition_def)
  have d: "fresh_delta D rc (actions log @ [a]) = fresh_delta D rc (actions log)" for rc
    by (simp add: fresh_delta_def fresh_loop_append step split: control.splits)
  have "log_max_write_command_id (actions log @ [a]) = log_max_write_command_id (actions log)"
    using assms(2)
    by (cases a) (auto simp: log_max_write_command_id_def is_definition_def map_filter_def)
  moreover have "action_ok D a" using assms(2) by (cases a) (auto simp: is_definition_def)
  ultimately show ?thesis
    using assms(1) by (auto simp: caches_ok_def push_action_def d)
qed

lemma caches_ok_push:
  assumes "caches_ok D log" and "action_ok D a"
  shows "caches_ok D (push_action a (invalidate_read_caches log))"
  using caches_ok_invalidated [of D "actions log @ [a]" log] caches_ok_epochs [OF assms(1)] assms(2)
  by (simp add: push_action_def)

lemma caches_ok_record_batch:
  assumes "caches_ok D log"
  shows "caches_ok D (log_record_batch D b log)"
proof -
  have "caches_ok D (update_current_data_epoch (epoch_push b) log)"
    using caches_ok_epochs [OF assms]
    by (auto simp: update_current_data_epoch_def Let_def push_action_def invalidate_read_caches_def
        caches_ok_def intro!: list_all_map_last_epoch)
  then show ?thesis using assms by (simp add: log_record_batch_def)
qed

lemma caches_ok_truncate:
  assumes "caches_ok D log"
  shows "caches_ok D (log_truncate m log)"
  using list_all_take [OF caches_ok_epochs [OF assms]]
  by (auto simp: log_truncate_def Let_def invalidate_read_caches_def caches_ok_def
      split: option.splits intro!: list_all_map_last_epoch)

lemma apply_log_op_coherent:
  assumes "caches_ok D log"
  shows "caches_ok D (apply_log_op D U E op log)"
proof (cases op)
  case (OpSchema u)
  then show ?thesis
    using assms caches_ok_definition [OF assms] by (simp add: stage_schema_def is_definition_def)
next
  case (OpProperties p)
  then show ?thesis
    using caches_ok_definition [OF assms] by (simp add: stage_properties_def is_definition_def)
next
  case (OpExclusive e)
  then show ?thesis
    using assms caches_ok_push [OF assms] by (simp add: stage_exclusive_def)
qed (use assms in \<open>simp_all add: stage_truncate_def stage_drop_def caches_ok_push
    caches_ok_record_batch caches_ok_truncate visible_delta_coherent created_file_paths_coherent
    commit_plan_coherent\<close>)

lemma run_log_coherent: "caches_ok D (run_log D U E ops)"
proof -
  have "caches_ok D log \<Longrightarrow> caches_ok D (fold (apply_log_op D U E) ops log)" for log
    by (induction ops arbitrary: log) (simp_all add: apply_log_op_coherent)
  then show ?thesis by (simp add: run_log_def caches_ok_default)
qed

section \<open>Properties\<close>

text \<open>
  C10. No stale reads: after any sequence of staging, rollback, read and planning operations,
  \<open>visible_delta\<close> at any reader command ID returns exactly what a computation without any of the
  four caches returns on the current actions, and the read changes nothing but caches.
\<close>
theorem visible_delta_never_stale:
  "fst (visible_delta D rc (run_log D U E ops)) = fresh_visible D rc (actions (run_log D U E ops))
   \<and> map erase_action (actions (snd (visible_delta D rc (run_log D U E ops))))
     = map erase_action (actions (run_log D U E ops))"
  using visible_delta_coherent [OF run_log_coherent] by blast

text \<open>
  C18. Statement-level visibility: the overlay a reader gets has the effect of exactly the write
  batches and truncations whose command ID is below the reader's (of all of them for a reader
  without one), in completion order; a dropped or exclusively modified table has no overlay, and
  the read fails only with an error of an append or truncation of the overlay library.
\<close>
theorem visible_delta_effect:
  assumes "delta_laws D view clear"
  shows "case fst (visible_delta D rc (run_log D U E ops)) of
           Inr r \<Rightarrow> (if list_ex ends_overlay (actions (run_log D U E ops)) then r = None
                    else overlay_view view r = log_effect view clear rc (actions (run_log D U E ops)))
         | Inl e \<Rightarrow> (\<exists>c d. sd_append_delta D c d = Inl e) \<or> (\<exists>c. sd_truncate_table D c = Inl e)"
  unfolding visible_delta_coherent(1) [OF run_log_coherent]
  by (rule fresh_visible_meaning [OF assms])




section \<open>Witnesses\<close>

text \<open>
  A transaction that writes a file at command 5 and one at command 8, truncates at command 9 and
  writes a third file at command 10.
\<close>

definition demo_exclusive :: "unit exclusive_api" where
  "demo_exclusive = \<lparr> not_exclusive_invariant = ''not exclusive'', misplaced_invariant = ''misplaced'',
     conflict_error = (\<lambda>_. Vacuum ''conflict'') \<rparr>"

definition demo_schema :: "(unit, nat) schema_api" where
  "demo_schema = \<lparr> su_is_empty = (\<lambda>_. False), su_validate_base_metadata = (\<lambda>_ _. Inr ()),
     su_apply_to_metadata = (\<lambda>_ m. Inr (Suc m)) \<rparr>"

definition demo_batch :: "command_id \<Rightarrow> string \<Rightarrow> (bool \<times> string list, unit) tx_write_batch" where
  "demo_batch cid p = \<lparr> write_command_id = cid, delta = (False, [p]), validation = None \<rparr>"

definition demo_writes :: "(bool \<times> string list, unit, unit, unit, unit, unit) log_op list" where
  "demo_writes = [OpBatch (demo_batch 5 ''a''), OpVisibleDelta (Some 6), OpBatch (demo_batch 8 ''b'')]"

definition demo_ops :: "(bool \<times> string list, unit, unit, unit, unit, unit) log_op list" where
  "demo_ops = demo_writes @ [OpSchema (), OpTruncate () 9, OpBatch (demo_batch 10 ''c'')]"

definition demo_metadata :: "(nat, unit, nat) metadata_api" where
  "demo_metadata = \<lparr> tm_format_version = (\<lambda>_. ()), tm_show_version = (\<lambda>_. ''2''),
     tm_set_properties = (\<lambda>_ m. Inr m), tm_current_schema = id \<rparr>"

definition demo_transaction :: "(string list, bool \<times> string list, unit, unit) transaction_api" where
  "demo_transaction = \<lparr> tx_apply_schema = (\<lambda>_ t. Inr t), tx_update_properties = (\<lambda>_ t. Inr t),
     tx_snapshot_delta = (\<lambda>d tb t. Inr (path_view d (if tb then [] else t))),
     tx_row_delta = (\<lambda>d vs tb t. Inr (path_view d (if tb then [] else t))) \<rparr>"


lemmas demo_defs = demo_exclusive_def demo_schema_def demo_batch_def demo_writes_def demo_ops_def
  demo_metadata_def demo_transaction_def path_overlay_def run_log_def log_default_def

theorem visible_delta_effect_witness:
  "delta_laws path_overlay path_view (\<lambda>_. [])
   \<and> fst (visible_delta path_overlay (Some 6) (run_log path_overlay demo_schema demo_exclusive demo_writes))
     = Inr (Some (False, [''a'']))
   \<and> log_effect path_view (\<lambda>_. []) (Some 6)
       (actions (run_log path_overlay demo_schema demo_exclusive demo_writes)) [] = [''a'']"
proof -
  have r: "fst (visible_delta path_overlay (Some 6) (run_log path_overlay demo_schema demo_exclusive demo_writes))
     = Inr (Some (False, [''a'']))"
    by code_simp
  have n: "\<not> list_ex ends_overlay (actions (run_log path_overlay demo_schema demo_exclusive demo_writes))"
    by code_simp
  have "overlay_view path_view (Some (False, [''a''])) = log_effect path_view (\<lambda>_. []) (Some 6)
      (actions (run_log path_overlay demo_schema demo_exclusive demo_writes))"
    using visible_delta_effect [OF path_overlay_laws, where rc = "Some 6" and U = demo_schema
        and E = demo_exclusive and ops = demo_writes] n by (simp only: r) simp
  from fun_cong [OF this, of "[]"] show ?thesis
    by (simp add: path_overlay_laws r overlay_view_def path_view_def)
qed







end
