(* ===== verification/Table_State.thy ===== *)
theory Table_State
  imports Log_Runs Savepoint_Stack "HOL-Library.Sublist"
begin

text \<open>
  Per-table recoverable action state (\<open>write/transaction/table_state.rs\<close>): the action log and a
  stack of savepoint frames, each a marker into the log taken before a write inside a
  subtransaction. The state refines the abstract savepoint stack, whose snapshots are whole
  action lists, so it keeps the savepoint contract.
\<close>

section \<open>State and operations\<close>

record history_frame =
  frame_level :: nest_level
  frame_marker :: tx_table_action_log_marker

record ('d, 'v, 'u, 'fv, 'e, 'g) table_transaction_state =
  tx_actions :: "('d, 'v, 'u, 'fv, 'e, 'g) tx_table_action_log"
  level_history :: "history_frame list"

definition new_table_transaction_state :: "('d, 'v, 'u, 'fv, 'e, 'g) table_transaction_state" where
  "new_table_transaction_state = \<lparr> tx_actions = log_default, level_history = [] \<rparr>"

definition record_history :: "nest_level \<Rightarrow> ('d, 'v, 'u, 'fv, 'e, 'g) table_transaction_state
    \<Rightarrow> tx_table_action_log_marker \<times> bool \<times> ('d, 'v, 'u, 'fv, 'e, 'g) table_transaction_state" where
  "record_history n s =
     (let marker = log_mark (tx_actions s);
          should_record_history = (1 < n)
      in (marker, should_record_history,
          if should_record_history
          then s \<lparr> level_history := level_history s @ [\<lparr> frame_level = n, frame_marker = marker \<rparr>] \<rparr>
          else s))"

text \<open>A failed mutation truncates the log to the marker and pops the frame it pushed.\<close>

definition undo_mutation :: "tx_table_action_log_marker \<Rightarrow> bool
    \<Rightarrow> ('d, 'v, 'u, 'fv, 'e, 'g) table_transaction_state \<Rightarrow> ('d, 'v, 'u, 'fv, 'e, 'g) table_transaction_state" where
  "undo_mutation marker recorded s =
     s \<lparr> tx_actions := log_truncate marker (tx_actions s),
         level_history := (if recorded then butlast (level_history s) else level_history s) \<rparr>"

definition record_action_mutation :: "'e exclusive_api \<Rightarrow> nest_level
    \<Rightarrow> (('d, 'v, 'u, 'fv, 'e, 'g) tx_table_action_log
        \<Rightarrow> unit iceberg_result \<times> ('d, 'v, 'u, 'fv, 'e, 'g) tx_table_action_log)
    \<Rightarrow> ('d, 'v, 'u, 'fv, 'e, 'g) table_transaction_state
    \<Rightarrow> unit iceberg_result \<times> ('d, 'v, 'u, 'fv, 'e, 'g) table_transaction_state" where
  "record_action_mutation E n mutation s =
     (case exclusive_conflict_error E (tx_actions s) of
        Some err \<Rightarrow> (Inl err, s)
      | None \<Rightarrow>
          (let (marker, recorded, s1) = record_history n s
           in case mutation (tx_actions s1) of
                (Inl err, log) \<Rightarrow> (Inl err, undo_mutation marker recorded (s1 \<lparr> tx_actions := log \<rparr>))
              | (Inr _, log) \<Rightarrow> (Inr (), s1 \<lparr> tx_actions := log \<rparr>)))"

definition record_batch :: "'d delta_api \<Rightarrow> 'e exclusive_api \<Rightarrow> nest_level \<Rightarrow> ('d, 'v) tx_write_batch
    \<Rightarrow> ('d, 'v, 'u, 'fv, 'e, 'g) table_transaction_state
    \<Rightarrow> unit iceberg_result \<times> ('d, 'v, 'u, 'fv, 'e, 'g) table_transaction_state" where
  "record_batch D E n b s =
     (if batch_is_empty D b then (Inr (), s)
      else record_action_mutation E n (\<lambda>log. (Inr (), log_record_batch D b log)) s)"

definition record_schema_update :: "('u, 'm) schema_api \<Rightarrow> 'e exclusive_api \<Rightarrow> nest_level \<Rightarrow> 'u
    \<Rightarrow> ('d, 'v, 'u, 'fv, 'e, 'g) table_transaction_state
    \<Rightarrow> unit iceberg_result \<times> ('d, 'v, 'u, 'fv, 'e, 'g) table_transaction_state" where
  "record_schema_update U E n u s =
     (if su_is_empty U u then (Inr (), s)
      else case exclusive_conflict_error E (tx_actions s) of
          Some err \<Rightarrow> (Inl err, s)
        | None \<Rightarrow> (let (_, _, s1) = record_history n s
                  in (Inr (), s1 \<lparr> tx_actions := stage_schema U u (tx_actions s1) \<rparr>)))"

definition record_table_property_update :: "'e exclusive_api \<Rightarrow> nest_level
    \<Rightarrow> 'fv prepared_table_property_update \<Rightarrow> ('d, 'v, 'u, 'fv, 'e, 'g) table_transaction_state
    \<Rightarrow> unit iceberg_result \<times> ('d, 'v, 'u, 'fv, 'e, 'g) table_transaction_state" where
  "record_table_property_update E n p s =
     record_action_mutation E n (\<lambda>log. (Inr (), stage_properties p log)) s"

definition record_exclusive_action :: "'e exclusive_api \<Rightarrow> nest_level \<Rightarrow> 'e
    \<Rightarrow> ('d, 'v, 'u, 'fv, 'e, 'g) table_transaction_state
    \<Rightarrow> unit iceberg_result \<times> ('d, 'v, 'u, 'fv, 'e, 'g) table_transaction_state" where
  "record_exclusive_action E n e s =
     (let (marker, recorded, s1) = record_history n s
      in case stage_exclusive E e (tx_actions s1) of
           (Inl err, log) \<Rightarrow> (Inl err, undo_mutation marker recorded (s1 \<lparr> tx_actions := log \<rparr>))
         | (Inr _, log) \<Rightarrow> (Inr (), s1 \<lparr> tx_actions := log \<rparr>))"

text \<open>The command ID PostgreSQL reports at staging time is an argument.\<close>

definition record_truncate :: "'e exclusive_api \<Rightarrow> nest_level \<Rightarrow> 'g \<Rightarrow> command_id
    \<Rightarrow> ('d, 'v, 'u, 'fv, 'e, 'g) table_transaction_state
    \<Rightarrow> unit iceberg_result \<times> ('d, 'v, 'u, 'fv, 'e, 'g) table_transaction_state" where
  "record_truncate E n g cid s =
     record_action_mutation E n (\<lambda>log. (Inr (), stage_truncate g cid log)) s"

definition record_drop :: "'e exclusive_api \<Rightarrow> nest_level
    \<Rightarrow> ('d, 'v, 'u, 'fv, 'e, 'g) table_transaction_state
    \<Rightarrow> unit iceberg_result \<times> ('d, 'v, 'u, 'fv, 'e, 'g) table_transaction_state" where
  "record_drop E n s = record_action_mutation E n (\<lambda>log. (Inr (), stage_drop log)) s"

function rollback_to_level :: "nest_level \<Rightarrow> ('d, 'v, 'u, 'fv, 'e, 'g) table_transaction_state
    \<Rightarrow> ('d, 'v, 'u, 'fv, 'e, 'g) table_transaction_state" where
  "rollback_to_level target s =
     (if level_history s = [] then s
      else let frame = last (level_history s) in
        if frame_level frame < target then s
        else rollback_to_level target
               (s \<lparr> level_history := butlast (level_history s),
                    tx_actions := log_truncate (frame_marker frame) (tx_actions s) \<rparr>))"
  by pat_completeness auto
termination
  by (relation "measure (\<lambda>(_, s). length (level_history s))") auto

declare rollback_to_level.simps [simp del]

definition promote_to_level :: "nest_level \<Rightarrow> ('d, 'v, 'u, 'fv, 'e, 'g) table_transaction_state
    \<Rightarrow> ('d, 'v, 'u, 'fv, 'e, 'g) table_transaction_state" where
  "promote_to_level from_level s =
     s \<lparr> level_history := filter (\<lambda>f. 1 < frame_level f)
           (map (\<lambda>f. if from_level \<le> frame_level f then f \<lparr> frame_level := from_level - 1 \<rparr> else f)
             (level_history s)) \<rparr>"

section \<open>Operations as data\<close>

datatype ('d, 'v, 'u, 'fv, 'e, 'g) table_op =
    RecordBatch "('d, 'v) tx_write_batch"
  | RecordSchema 'u
  | RecordProperties "'fv prepared_table_property_update"
  | RecordExclusive 'e
  | RecordTruncate 'g command_id
  | RecordDrop
  | ReadDelta "command_id option"

text \<open>
  What a statement at level \<open>n\<close> does to the table state; a read goes to the shared log and may
  fill its caches.
\<close>

fun table_step :: "'d delta_api \<Rightarrow> ('u, 'm) schema_api \<Rightarrow> 'e exclusive_api \<Rightarrow> nest_level
    \<Rightarrow> ('d, 'v, 'u, 'fv, 'e, 'g) table_op \<Rightarrow> ('d, 'v, 'u, 'fv, 'e, 'g) table_transaction_state
    \<Rightarrow> ('d, 'v, 'u, 'fv, 'e, 'g) table_transaction_state" where
  "table_step D U E n (RecordBatch b) s = snd (record_batch D E n b s)"
| "table_step D U E n (RecordSchema u) s = snd (record_schema_update U E n u s)"
| "table_step D U E n (RecordProperties p) s = snd (record_table_property_update E n p s)"
| "table_step D U E n (RecordExclusive e) s = snd (record_exclusive_action E n e s)"
| "table_step D U E n (RecordTruncate g cid) s = snd (record_truncate E n g cid s)"
| "table_step D U E n RecordDrop s = snd (record_drop E n s)"
| "table_step D U E n (ReadDelta rc) s = s \<lparr> tx_actions := snd (visible_delta D rc (tx_actions s)) \<rparr>"

text \<open>
  The specification on plain action lists (epoch caches erased): \<open>None\<close> is a rejected or empty
  operation. Nothing may follow an exclusive operation, and an exclusive operation may follow
  nothing.
\<close>

definition spec_append_batch :: "('d, 'v) tx_write_batch \<Rightarrow> ('d, 'v, 'u, 'fv, 'e, 'g) tx_table_action list
    \<Rightarrow> ('d, 'v, 'u, 'fv, 'e, 'g) tx_table_action list" where
  "spec_append_batch b as = (case rev as of
       Data ep # pre \<Rightarrow> rev pre @ [Data \<lparr> batches = batches ep @ [b], combined = None \<rparr>]
     | _ \<Rightarrow> as @ [Data \<lparr> batches = [b], combined = None \<rparr>])"

definition has_exclusive :: "('d, 'v, 'u, 'fv, 'e, 'g) tx_table_action list \<Rightarrow> bool" where
  "has_exclusive as = list_ex (\<lambda>a. case a of Exclusive _ \<Rightarrow> True | _ \<Rightarrow> False) as"

fun spec_table_op :: "'d delta_api \<Rightarrow> ('u, 'm) schema_api
    \<Rightarrow> ('d, 'v, 'u, 'fv, 'e, 'g) table_op \<Rightarrow> ('d, 'v, 'u, 'fv, 'e, 'g) tx_table_action list
    \<Rightarrow> ('d, 'v, 'u, 'fv, 'e, 'g) tx_table_action list option" where
  "spec_table_op D U (RecordBatch b) as =
     (if batch_is_empty D b \<or> has_exclusive as then None else Some (spec_append_batch b as))"
| "spec_table_op D U (RecordSchema u) as =
     (if su_is_empty U u \<or> has_exclusive as then None else Some (as @ [Schema u]))"
| "spec_table_op D U (RecordProperties p) as =
     (if has_exclusive as then None else Some (as @ [Properties p]))"
| "spec_table_op D U (RecordExclusive e) as = (if as = [] then Some [Exclusive e] else None)"
| "spec_table_op D U (RecordTruncate g cid) as =
     (if has_exclusive as then None else Some (as @ [Truncate \<lparr> guard = g, command_id = cid \<rparr>]))"
| "spec_table_op D U RecordDrop as = (if has_exclusive as then None else Some (as @ [Drop]))"
| "spec_table_op D U (ReadDelta rc) as = None"

section \<open>Markers on plain action lists\<close>

abbreviation plain :: "('d, 'v, 'u, 'fv, 'e, 'g) tx_table_action list
    \<Rightarrow> ('d, 'v, 'u, 'fv, 'e, 'g) tx_table_action list" where
  "plain as \<equiv> map erase_action as"

definition mark_of :: "('d, 'v, 'u, 'fv, 'e, 'g) tx_table_action list \<Rightarrow> tx_table_action_log_marker" where
  "mark_of as = log_mark (log_default \<lparr> actions := as \<rparr>)"

definition truncate_actions :: "tx_table_action_log_marker \<Rightarrow> ('d, 'v, 'u, 'fv, 'e, 'g) tx_table_action list
    \<Rightarrow> ('d, 'v, 'u, 'fv, 'e, 'g) tx_table_action list" where
  "truncate_actions m as = actions (log_truncate m (log_default \<lparr> actions := as \<rparr>))"

text \<open>
  One action list is an earlier state of another if the log can have grown from it: it is a prefix,
  except that its last epoch may have gained batches.
\<close>

definition grown :: "('d, 'v, 'u, 'fv, 'e, 'g) tx_table_action \<Rightarrow> ('d, 'v, 'u, 'fv, 'e, 'g) tx_table_action \<Rightarrow> bool" where
  "grown a b = (case a of
       Data e \<Rightarrow> (case b of Data f \<Rightarrow> combined e = None \<and> combined f = None \<and> prefix (batches e) (batches f)
                | _ \<Rightarrow> False)
     | _ \<Rightarrow> a = b)"

definition earlier :: "('d, 'v, 'u, 'fv, 'e, 'g) tx_table_action list
    \<Rightarrow> ('d, 'v, 'u, 'fv, 'e, 'g) tx_table_action list \<Rightarrow> bool" where
  "earlier as bs \<longleftrightarrow> as = [] \<or> (\<exists>pre a b rest. as = pre @ [a] \<and> bs = pre @ b # rest \<and> grown a b)"

lemma log_mark_actions: "log_mark log = mark_of (actions log)"
  by (simp add: mark_of_def log_mark_def)

lemma log_truncate_actions: "actions (log_truncate m log) = truncate_actions m (actions log)"
  by (simp add: truncate_actions_def log_truncate_def Let_def split: option.split)

lemma truncate_actions_eq:
  "truncate_actions m as = (case current_data_epoch m of
       None \<Rightarrow> take (action_len m) as
     | Some n \<Rightarrow> map_last_epoch (epoch_truncate n) (take (action_len m) as))"
  by (simp add: truncate_actions_def log_truncate_def Let_def split: option.split)

lemma grown_trans: "grown a b \<Longrightarrow> grown b c \<Longrightarrow> grown a c"
  by (auto simp: grown_def split: tx_table_action.splits intro: prefix_order.trans)

lemma grown_erased [simp]: "grown (erase_action a) (erase_action a)"
  by (cases a) (simp_all add: grown_def)

lemma earlier_plain: "earlier (plain as) (plain as)"
  by (cases as rule: rev_cases) (auto simp: earlier_def)

lemma earlier_push: "earlier (plain as) (plain as @ [x])"
  by (cases as rule: rev_cases) (auto simp: earlier_def)

lemma earlier_last: "grown a b \<Longrightarrow> earlier (pre @ [a]) (pre @ [b])"
  by (auto simp: earlier_def)

lemma earlier_trans:
  assumes "earlier as bs" and "earlier bs cs"
  shows "earlier as cs"
proof (cases "as = []")
  case False
  then obtain pre a b rest where 1: "as = pre @ [a]" "bs = pre @ b # rest" "grown a b"
    using assms(1) by (auto simp: earlier_def)
  obtain pre2 c d rest2 where 2: "bs = pre2 @ [c]" "cs = pre2 @ d # rest2" "grown c d"
    using assms(2) 1(2) by (auto simp: earlier_def)
  show ?thesis
  proof (cases rest rule: rev_cases)
    case Nil
    then have "pre2 = pre" "c = b" using 1(2) 2(1) by auto
    then show ?thesis using 1 2 grown_trans by (auto simp: earlier_def)
  next
    case (snoc rest' z)
    then have "pre2 = pre @ b # rest'" using 1(2) 2(1) by auto
    then have "cs = pre @ b # (rest' @ d # rest2)" using 2(2) by simp
    then show ?thesis using 1 by (auto simp: earlier_def)
  qed
qed (simp add: earlier_def)

lemma truncate_mark:
  assumes "earlier as bs"
  shows "truncate_actions (mark_of as) bs = as"
proof (cases "as = []")
  case True
  then show ?thesis by (simp add: truncate_actions_eq mark_of_def log_mark_def)
next
  case False
  then obtain pre a b rest where 1: "as = pre @ [a]" "bs = pre @ b # rest" and g: "grown a b"
    using assms by (auto simp: earlier_def)
  show ?thesis
  proof (cases a)
    case (Data e)
    then obtain f ys where f: "b = Data f" "combined e = None" "batches f = batches e @ ys"
      using g by (auto simp: grown_def prefix_def split: tx_table_action.splits)
    have "epoch_truncate (length (batches e)) f = e"
      using f by (simp add: epoch_truncate_def)
    then show ?thesis
      by (simp add: 1 Data f(1) truncate_actions_eq mark_of_def log_mark_def map_last_epoch_def
          epoch_mark_def)
  qed (use g in \<open>auto simp: 1 truncate_actions_eq mark_of_def log_mark_def grown_def\<close>)
qed

lemma mark_plain [simp]: "mark_of (plain as) = mark_of as"
  by (cases as rule: rev_cases)
    (auto simp: mark_of_def log_mark_def epoch_mark_def split: tx_table_action.splits
      elim: erase_action.elims)

lemma plain_map_last:
  assumes "\<And>ep. erase_action (Data (f ep)) = Data (f (ep \<lparr> combined := None \<rparr>))"
  shows "plain (map_last_epoch f as) = map_last_epoch f (plain as)"
proof (cases as rule: rev_cases)
  case (snoc pre a)
  then show ?thesis using assms by (cases a) (auto simp: map_last_epoch_def)
qed (simp add: map_last_epoch_def)

lemma plain_truncate: "plain (truncate_actions m as) = truncate_actions m (plain as)"
proof -
  have "plain (map_last_epoch (epoch_truncate n) bs) = map_last_epoch (epoch_truncate n) (plain bs)"
    for n and bs :: "('a, 'b, 'c, 'd, 'e, 'f) tx_table_action list"
    by (rule plain_map_last) (simp add: epoch_truncate_def)
  then show ?thesis
    by (simp add: truncate_actions_eq take_map split: option.split)
qed

section \<open>Refinement of the savepoint stack\<close>

definition frame_matches :: "history_frame
    \<Rightarrow> nest_level \<times> ('d, 'v, 'u, 'fv, 'e, 'g) tx_table_action list \<Rightarrow> bool" where
  "frame_matches f = (\<lambda>(l, S). frame_level f = l \<and> frame_marker f = mark_of S)"

definition table_refines :: "'d delta_api \<Rightarrow> ('d, 'v, 'u, 'fv, 'e, 'g) table_transaction_state
    \<Rightarrow> ('d, 'v, 'u, 'fv, 'e, 'g) tx_table_action list savepoint_stack \<Rightarrow> bool" where
  "table_refines D s = (\<lambda>(h, c).
     list_all2 frame_matches (level_history s) h
   \<and> sorted_wrt earlier (map snd h @ [c])
   \<and> c = plain (actions (tx_actions s)) \<and> caches_ok D (tx_actions s))"

text \<open>What the table shows if everything at level \<open>k\<close> and deeper were rolled back.\<close>

definition table_at :: "('d, 'v, 'u, 'fv, 'e, 'g) table_transaction_state \<Rightarrow> nest_level
    \<Rightarrow> ('d, 'v, 'u, 'fv, 'e, 'g) tx_table_action list" where
  "table_at s k = (case find (\<lambda>f. k \<le> frame_level f) (level_history s) of
       None \<Rightarrow> plain (actions (tx_actions s))
     | Some f \<Rightarrow> truncate_actions (frame_marker f) (plain (actions (tx_actions s))))"

lemma find_list_all2:
  assumes "list_all2 Q xs ys" and "\<And>x y. Q x y \<Longrightarrow> P x = P' y"
  shows "case find P xs of None \<Rightarrow> find P' ys = None | Some x \<Rightarrow> \<exists>y. find P' ys = Some y \<and> Q x y \<and> y \<in> set ys"
  using assms by (induction rule: list_all2_induct) (auto split: option.splits)

lemma table_refines_at:
  assumes "table_refines D s a"
  shows "table_at s k = stack_at a k"
proof -
  obtain h c where a: "a = (h, c)" by (cases a)
  have frames: "list_all2 frame_matches (level_history s) h"
    and chain: "\<And>S. S \<in> snd ` set h \<Longrightarrow> earlier S c" and c: "c = plain (actions (tx_actions s))"
    using assms by (auto simp: table_refines_def a sorted_wrt_append)
  have "case find (\<lambda>f. k \<le> frame_level f) (level_history s) of
          None \<Rightarrow> find (\<lambda>(l, v). k \<le> l) h = None
        | Some f \<Rightarrow> \<exists>y. find (\<lambda>(l, v). k \<le> l) h = Some y \<and> frame_matches f y \<and> y \<in> set h"
    by (rule find_list_all2 [OF frames]) (auto simp: frame_matches_def)
  then show ?thesis
    using chain c truncate_mark
    by (force simp: table_at_def stack_at_def a frame_matches_def split: option.splits)
qed

lemma record_history_refines:
  assumes "table_refines D s (h, c)" and "earlier c c'" and "plain (actions log) = c'" and "caches_ok D log"
  shows "table_refines D ((snd (snd (record_history n s))) \<lparr> tx_actions := log \<rparr>)
           (if 1 < n then h @ [(n, c)] else h, c')"
  using assms
  by (auto simp: table_refines_def record_history_def Let_def sorted_wrt_append frame_matches_def
      log_mark_actions list_all2_append intro: earlier_trans intro!: list_all2_appendI)

lemma record_history_parts:
  "fst (record_history n s) = log_mark (tx_actions s)"
  "fst (snd (record_history n s)) = (1 < n)"
  "tx_actions (snd (snd (record_history n s))) = tx_actions s"
  by (simp_all add: record_history_def Let_def)

lemma exclusive_conflict_iff:
  "exclusive_conflict_error E log = None \<longleftrightarrow> \<not> has_exclusive (plain (actions log))"
  by (auto simp: exclusive_conflict_error_def find_map_None_iff has_exclusive_def list_ex_iff
      split: tx_table_action.splits elim!: erase_action.elims)

text \<open>An accepted mutation advances both machines; a rejected one advances neither.\<close>

lemma record_mutation_refines:
  assumes "table_refines D s (h, c)" and "\<not> has_exclusive c"
    and "earlier c (plain (actions (g (tx_actions s))))" and "caches_ok D (g (tx_actions s))"
  shows "table_refines D (snd (record_action_mutation E n (\<lambda>log. (Inr (), g log)) s))
           (if 1 < n then h @ [(n, c)] else h, plain (actions (g (tx_actions s))))"
proof -
  have "exclusive_conflict_error E (tx_actions s) = None"
    using assms(1,2) by (auto simp: exclusive_conflict_iff table_refines_def)
  then show ?thesis
    using record_history_refines [OF assms(1,3) refl assms(4), of n] record_history_parts(3) [of n s]
    by (cases "record_history n s") (simp add: record_action_mutation_def)
qed

lemma record_mutation_rejected:
  assumes "table_refines D s (h, c)" and "has_exclusive c"
  shows "snd (record_action_mutation E n m s) = s"
proof -
  obtain err where "exclusive_conflict_error E (tx_actions s) = Some err"
    using assms exclusive_conflict_iff [of E "tx_actions s"] by (auto simp: table_refines_def)
  then show ?thesis by (simp add: record_action_mutation_def)
qed

lemma undo_refines:
  assumes "table_refines D s (h, c)"
  shows "table_refines D (undo_mutation (log_mark (tx_actions s)) (1 < n) (snd (snd (record_history n s)))) (h, c)"
proof -
  have "plain (truncate_actions (mark_of c) (actions (tx_actions s))) = c"
    using assms truncate_mark [OF earlier_plain] by (auto simp: plain_truncate table_refines_def)
  then show ?thesis
    using assms
    by (auto simp: undo_mutation_def record_history_def Let_def table_refines_def log_mark_actions
        log_truncate_actions caches_ok_truncate)
qed

section \<open>Each operation follows its specification\<close>

lemma actions_push [simp]: "actions (push_action a log) = actions log @ [a]"
  by (simp add: push_action_def)

lemma spec_append_snoc:
  "spec_append_batch b (pre @ [Data ep]) = pre @ [Data \<lparr> batches = batches ep @ [b], combined = None \<rparr>]"
  by (simp add: spec_append_batch_def)

lemma spec_append_other:
  "(\<And>ep. as \<noteq> [] \<Longrightarrow> last as \<noteq> Data ep) \<Longrightarrow>
     spec_append_batch b as = as @ [Data \<lparr> batches = [b], combined = None \<rparr>]"
  by (cases as rule: rev_cases) (auto simp: spec_append_batch_def split: tx_table_action.splits)

lemma plain_record_batch:
  assumes "\<not> batch_is_empty D b"
  shows "plain (actions (log_record_batch D b log)) = spec_append_batch b (plain (actions log))"
proof (cases "\<exists>pre ep. actions log = pre @ [Data ep]")
  case True
  then obtain pre ep where as: "actions log = pre @ [Data ep]" by blast
  have "plain (actions (log_record_batch D b log))
      = plain pre @ [Data \<lparr> batches = batches ep @ [b], combined = None \<rparr>]"
    using assms by (simp add: log_record_batch_def update_current_data_epoch_def map_last_epoch_def as
        epoch_push_def)
  then show ?thesis using spec_append_snoc [of b "plain pre"] as by simp
next
  case False
  then have last: "last (actions log) \<noteq> Data ep" if "actions log \<noteq> []" for ep
    using that by (metis append_butlast_last_id)
  have "erase_action (last (actions log)) \<noteq> Data ep" if "actions log \<noteq> []" for ep
    using last [OF that] by (auto elim: erase_action.elims)
  then have "spec_append_batch b (plain (actions log))
      = plain (actions log) @ [Data \<lparr> batches = [b], combined = None \<rparr>]"
    by (intro spec_append_other) (simp add: last_map)
  moreover have "actions (log_record_batch D b log) = actions log @ [Data (epoch_push b epoch_default)]"
    using assms last by (auto simp: log_record_batch_def update_current_data_epoch_def Let_def
        map_last_epoch_def split: tx_table_action.splits)
  ultimately show ?thesis by (simp add: epoch_push_def epoch_default_def)
qed

lemma earlier_append_batch: "earlier (plain as) (spec_append_batch b (plain as))"
proof (cases "\<exists>pre ep. as = pre @ [Data ep]")
  case True
  then show ?thesis
    by (auto simp: spec_append_snoc grown_def intro!: earlier_last)
next
  case False
  then have "last (plain as) \<noteq> Data ep" if "as \<noteq> []" for ep
    using that by (cases as rule: rev_cases) (auto elim: erase_action.elims)
  then have "spec_append_batch b (plain as) = plain as @ [Data \<lparr> batches = [b], combined = None \<rparr>]"
    by (intro spec_append_other) simp
  then show ?thesis by (simp add: earlier_push)
qed

lemma table_step_accepted:
  assumes ref: "table_refines D s (h, c)" and spec: "spec_table_op D U op c = Some c'"
  shows "table_refines D (table_step D U E n op s) (if 1 < n then h @ [(n, c)] else h, c')"
proof -
  have c: "c = plain (actions (tx_actions s))" and ok: "caches_ok D (tx_actions s)"
    using ref by (auto simp: table_refines_def)
  note mutation = record_mutation_refines [OF ref, where E = E and n = n]
  show ?thesis
  proof (cases op)
    case (RecordBatch b)
    then have b: "\<not> batch_is_empty D b" "\<not> has_exclusive c" "c' = spec_append_batch b c"
      using spec by (auto split: if_splits)
    then show ?thesis
      using mutation [OF b(2), of "log_record_batch D b"]
      by (simp add: RecordBatch record_batch_def plain_record_batch c earlier_append_batch
          caches_ok_record_batch [OF ok])
  next
    case (RecordSchema u)
    then have u: "\<not> su_is_empty U u" "\<not> has_exclusive c" "c' = c @ [Schema u]"
      using spec by (auto split: if_splits)
    have "caches_ok D (push_action (Schema u) (tx_actions s))"
      by (rule caches_ok_definition [OF ok]) (simp add: is_definition_def)
    then show ?thesis
      using u record_history_refines [OF ref, of c' "push_action (Schema u) (tx_actions s)" n]
        record_history_parts(3) [of n s] exclusive_conflict_iff [of E "tx_actions s"]
      by (cases "record_history n s")
        (auto simp: RecordSchema record_schema_update_def stage_schema_def c earlier_push)
  next
    case (RecordProperties p)
    have "caches_ok D (stage_properties p (tx_actions s))"
      unfolding stage_properties_def by (rule caches_ok_definition [OF ok]) (simp add: is_definition_def)
    then show ?thesis
      using spec mutation [of "stage_properties p"]
      by (auto simp: RecordProperties record_table_property_update_def stage_properties_def c
          earlier_push split: if_splits)
  next
    case (RecordExclusive e)
    then have e: "actions (tx_actions s) = []" "c' = [Exclusive e]"
      using spec c by (auto split: if_splits)
    have "caches_ok D (push_action (Exclusive e) (invalidate_read_caches (tx_actions s)))"
      by (rule caches_ok_push [OF ok]) simp
    then show ?thesis
      using e record_history_refines [OF ref, of c'
          "push_action (Exclusive e) (invalidate_read_caches (tx_actions s))" n]
        record_history_parts(3) [of n s]
      by (cases "record_history n s")
        (auto simp: RecordExclusive record_exclusive_action_def stage_exclusive_def c earlier_def)
  next
    case (RecordTruncate g cid)
    have "caches_ok D (stage_truncate g cid (tx_actions s))"
      unfolding stage_truncate_def by (rule caches_ok_push [OF ok]) simp
    then show ?thesis
      using spec mutation [of "stage_truncate g cid"]
      by (auto simp: RecordTruncate record_truncate_def stage_truncate_def c earlier_push split: if_splits)
  next
    case RecordDrop
    have "caches_ok D (stage_drop (tx_actions s))"
      unfolding stage_drop_def by (rule caches_ok_push [OF ok]) simp
    then show ?thesis
      using spec mutation [of stage_drop]
      by (auto simp: RecordDrop record_drop_def stage_drop_def c earlier_push split: if_splits)
  qed (use spec in simp)
qed

lemma table_step_rejected:
  assumes ref: "table_refines D s (h, c)" and spec: "spec_table_op D U op c = None"
  shows "table_refines D (table_step D U E n op s) (h, c)"
proof (cases op)
  case (RecordExclusive e)
  then have "actions (tx_actions s) \<noteq> []"
    using spec ref by (auto simp: table_refines_def split: if_splits)
  then have "snd (record_exclusive_action E n e s)
      = undo_mutation (log_mark (tx_actions s)) (1 < n) (snd (snd (record_history n s)))"
    using record_history_parts [of n s]
    by (cases "record_history n s") (auto simp: record_exclusive_action_def stage_exclusive_def undo_mutation_def)
  then show ?thesis using undo_refines [OF ref, of n] by (simp add: RecordExclusive)
next
  case (ReadDelta rc)
  then show ?thesis
    using ref visible_delta_coherent(2,3) [of D "tx_actions s" rc]
    by (auto simp: table_refines_def)
next
  case (RecordSchema u)
  then show ?thesis
    using ref spec exclusive_conflict_iff [of E "tx_actions s"]
    by (auto simp: record_schema_update_def table_refines_def split: if_splits option.splits)
qed (use ref spec record_mutation_rejected [OF ref] in
  \<open>auto simp: record_batch_def record_table_property_update_def record_truncate_def record_drop_def
    split: if_splits\<close>)

section \<open>Release and rollback\<close>

lemma promote_refines:
  assumes "table_refines D s (h, c)"
  shows "table_refines D (promote_to_level n s) (stack_release n (h, c))"
proof -
  have chain: "sorted_wrt earlier (map snd h @ [c])"
    and frames: "list_all2 frame_matches (level_history s) h"
    using assms by (auto simp: table_refines_def)
  have "list_all2 frame_matches
      (filter (\<lambda>f. 1 < frame_level f)
        (map (\<lambda>f. if n \<le> frame_level f then f \<lparr> frame_level := n - 1 \<rparr> else f) (level_history s)))
      (filter (\<lambda>(l, v). 1 < l) (lower_levels n h))"
    using frames
    by (induction rule: list_all2_induct) (auto simp: frame_matches_def lower_levels_def)
  moreover have "sorted_wrt earlier (map snd (filter (\<lambda>(l, v). 1 < l) (lower_levels n h)) @ [c])"
    using chain
    by (induction h) (auto simp: lower_levels_def)
  ultimately show ?thesis
    using assms by (simp add: table_refines_def promote_to_level_def stack_release_def)
qed

lemma pop_refines:
  assumes "table_refines D s (h @ [(l, S)], c)"
  shows "table_refines D (s \<lparr> level_history := butlast (level_history s),
      tx_actions := log_truncate (frame_marker (last (level_history s))) (tx_actions s) \<rparr>) (h, S)"
proof -
  obtain fs f where fs: "level_history s = fs @ [f]" "list_all2 frame_matches fs h" "frame_marker f = mark_of S"
    using assms by (auto simp: table_refines_def list_all2_append2 list_all2_Cons2 frame_matches_def)
  have "plain (truncate_actions (mark_of S) (actions (tx_actions s))) = S"
    using assms truncate_mark [of S c] by (auto simp: plain_truncate table_refines_def sorted_wrt_append)
  then show ?thesis
    using assms fs
    by (auto simp: table_refines_def log_truncate_actions sorted_wrt_append caches_ok_truncate)
qed

lemma rollback_refines:
  assumes "table_refines D s (h, c)" and "sorted (map fst h)"
  shows "table_refines D (rollback_to_level n s) (stack_abort n (h, c))"
  using assms
proof (induction n s arbitrary: h c rule: rollback_to_level.induct)
  case (1 n s)
  show ?case
  proof (cases h rule: rev_cases)
    case Nil
    then have "level_history s = []" using "1.prems"(1) by (simp add: table_refines_def)
    then show ?thesis
      using "1.prems"(1) Nil by (simp add: rollback_to_level.simps stack_abort_def stack_at_def)
  next
    case (snoc h' lS)
    obtain l S where lS: "lS = (l, S)" by (cases lS)
    have ne: "level_history s \<noteq> []" and l: "frame_level (last (level_history s)) = l"
      using "1.prems"(1)
      by (auto simp: table_refines_def snoc lS list_all2_append2 list_all2_Cons2 frame_matches_def)
    show ?thesis
    proof (cases "l < n")
      case True
      then have "stack_abort n (h, c) = (h, c)"
        using "1.prems"(2) by (intro stack_abort_below) (force simp: snoc lS sorted_append)
      then show ?thesis
        using "1.prems"(1) True ne l by (simp add: rollback_to_level.simps Let_def)
    next
      case False
      have "table_refines D (rollback_to_level n (s \<lparr> level_history := butlast (level_history s),
          tx_actions := log_truncate (frame_marker (last (level_history s))) (tx_actions s) \<rparr>))
          (stack_abort n (h', S))"
        using "1.IH" [OF ne refl _ pop_refines] False l "1.prems" unfolding snoc lS
        by (simp add: sorted_append)
      moreover have "stack_abort n (h, c) = stack_abort n (h', S)"
        using False by (simp add: snoc lS stack_abort_pop)
      ultimately show ?thesis
        using False ne l by (subst rollback_to_level.simps) (simp add: Let_def)
    qed
  qed
qed

text \<open>The table state keeps the savepoint contract.\<close>

interpretation table: stack_refinement "table_refines D" "spec_table_op D U" "table_step D U E"
  promote_to_level rollback_to_level table_at
  for D :: "'d delta_api" and U :: "('u, 'm) schema_api" and E :: "'e exclusive_api"
proof
  fix n k :: nest_level and s :: "('d, 'v, 'u, 'fv, 'e, 'g) table_transaction_state" and a x
  show "table_refines D s a \<Longrightarrow> table_refines D (table_step D U E n x s) (stack_step (spec_table_op D U) n x a)"
    using table_step_accepted [of D s _ _ U x _ E n] table_step_rejected [of D s _ _ U x E n]
    by (cases a) (auto simp: stack_step_def split: option.splits)
  show "table_refines D s a \<Longrightarrow>
      table_refines D (promote_to_level (n + 1) s) (stack_release (n + 1) a)"
    by (cases a) (simp add: promote_refines)
  show "table_refines D s a \<Longrightarrow> stack_inv (n + 1) a \<Longrightarrow>
      table_refines D (rollback_to_level (n + 1) s) (stack_abort (n + 1) a)"
    by (cases a) (simp add: rollback_refines stack_inv_def)
  show "table_refines D s a \<Longrightarrow> table_at s k = stack_at a k"
    by (rule table_refines_at)
qed

section \<open>Properties\<close>

lemma new_table_refines: "table_refines D new_table_transaction_state ([], [])"
  by (simp add: table_refines_def new_table_transaction_state_def log_default_def caches_ok_def)

lemma table_at_new [simp]: "table_at new_table_transaction_state k = []"
  by (simp add: table_at_def new_table_transaction_state_def log_default_def)

lemma refines_top:
  assumes "table_refines D s a" and "stack_inv 1 a"
  shows "level_history s = []" and "table_at s 2 = plain (actions (tx_actions s))"
proof -
  have "fst a = []" using assms(2) by (cases a; cases "fst a") (auto simp: stack_inv_def)
  then show "level_history s = []" using assms(1) by (cases a) (simp add: table_refines_def)
  then show "table_at s 2 = plain (actions (tx_actions s))" by (simp add: table_at_def)
qed

text \<open>
  C6. Savepoints of a table: for every tree of nested subtransactions, with writes, definition
  changes, truncations, drops, exclusive operations and reads at any depth, each subtransaction
  released or rolled back, the action list the table ends with is the one the specification
  yields when rolled-back subtransactions never ran and released ones ran inline; no savepoint
  frame is left at the top level.
\<close>
theorem table_savepoints:
  "plain (actions (tx_actions (tx_execs (table_step D U E) promote_to_level rollback_to_level 1 ps
       new_table_transaction_state)))
     = tx_specs (accept (spec_table_op D U)) ps []
   \<and> level_history (tx_execs (table_step D U E) promote_to_level rollback_to_level 1 ps
       new_table_transaction_state) = []"
proof -
  let ?init = "new_table_transaction_state" and ?final = "tx_execs (table_step D U E) promote_to_level
      rollback_to_level 1 ps new_table_transaction_state"
  have inv: "table.refined_inv D 1 ?init"
    using new_table_refines [of D] by (auto simp: table.refined_inv_def stack_inv_def)
  have nested: "table.refined_inv D 1 ?final" "table_at ?final 2 = tx_specs (accept (spec_table_op D U)) ps (table_at ?init 2)"
    using table.execs_nested [OF _ inv, of U E ps] by simp_all
  obtain a where a: "table_refines D ?final a" "stack_inv 1 a"
    using nested(1) by (auto simp: table.refined_inv_def)
  show ?thesis using refines_top [OF a] nested(2) by simp
qed

text \<open>
  A failed recording leaves no trace: whenever one of the recording operations reports an
  error, the table shows the same action list as before, at every savepoint level, and the
  history stack is unchanged.
\<close>
lemma failed_recording_no_trace:
  assumes "table_refines D s a"
    and "(r, s') \<in> {record_batch D E n b s, record_schema_update U E n u s,
           record_table_property_update E n p s, record_exclusive_action E n e s,
           record_truncate E n g cid s, record_drop E n s}"
    and "r = Inl err"
  shows "plain (actions (tx_actions s')) = plain (actions (tx_actions s))
       \<and> level_history s' = level_history s \<and> table_at s' k = table_at s k"
proof -
  obtain h c where a: "a = (h, c)" by (cases a)
  have "s' = s \<or> s' = undo_mutation (log_mark (tx_actions s)) (1 < n) (snd (snd (record_history n s)))"
    using assms(2,3)
    by (auto simp: record_batch_def record_schema_update_def record_table_property_update_def
        record_exclusive_action_def record_truncate_def record_drop_def record_action_mutation_def
        stage_exclusive_def record_history_def undo_mutation_def Let_def
        split: if_splits option.splits)
  then show ?thesis
  proof
    assume s': "s' = undo_mutation (log_mark (tx_actions s)) (1 < n) (snd (snd (record_history n s)))"
    have h: "level_history s' = level_history s"
      by (simp add: s' undo_mutation_def record_history_def Let_def)
    have "table_refines D s' (h, c)" using undo_refines assms(1) unfolding a s' by blast
    then show ?thesis
      using assms(1) h by (auto simp: a table_refines_def table_at_def split: option.split)
  qed simp
qed

end
