(* ===== verification/Managed_State.thy ===== *)
theory Managed_State
  imports Table_State Row_Registry
begin

text \<open>
  The access method's per-table state (\<open>managed_table/catalog/metadata_tracker/state.rs\<close>): the
  shared action state of the current storage generation, the row registry, and a history of
  generations replaced by a local rebuild. \<open>FileIO\<close> is a type parameter \<open>'io\<close>; the truncate guard
  is the metadata location, a string.
\<close>

section \<open>State\<close>

type_synonym ('d, 'v, 'u, 'fv, 'e) managed_table_transaction =
  "('d, 'v, 'u, 'fv, 'e, string) table_transaction_state"

record ('d, 'v, 'u, 'fv, 'e, 'io) rebuild_frame =
  rf_nest_level :: nest_level
  rf_transaction :: "('d, 'v, 'u, 'fv, 'e) managed_table_transaction"
  rf_file_io :: "'io option"
  rf_previous_rebuild_level :: "nest_level option"

record ('d, 'v, 'u, 'fv, 'e, 'io) managed_table_state =
  transaction :: "('d, 'v, 'u, 'fv, 'e) managed_table_transaction"
  row_registry :: relation_row_registry
  file_io :: "'io option"
  rebuild_level :: "nest_level option"
  rebuild_history :: "('d, 'v, 'u, 'fv, 'e, 'io) rebuild_frame list"

definition new_managed_table_state :: "('d, 'v, 'u, 'fv, 'e, 'io) managed_table_state" where
  "new_managed_table_state =
     \<lparr> transaction = new_table_transaction_state, row_registry = registry_default, file_io = None,
       rebuild_level = None, rebuild_history = [] \<rparr>"

definition was_rebuilt :: "('d, 'v, 'u, 'fv, 'e, 'io) managed_table_state \<Rightarrow> bool" where
  "was_rebuilt s \<longleftrightarrow> rebuild_level s \<noteq> None"

definition has_changes :: "('u, 'm) schema_api \<Rightarrow> ('d, 'v, 'u, 'fv, 'e, 'io) managed_table_state \<Rightarrow> bool" where
  "has_changes U s \<longleftrightarrow> rebuild_level s \<noteq> None \<or> \<not> log_is_empty U (tx_actions (transaction s))"

section \<open>Rebuild, rollback, release\<close>

definition record_rebuild :: "nest_level \<Rightarrow> 'io \<Rightarrow> ('d, 'v, 'u, 'fv, 'e, 'io) managed_table_state
    \<Rightarrow> ('d, 'v, 'u, 'fv, 'e, 'io) managed_table_state" where
  "record_rebuild n io s =
     (let previous = transaction s;
          previous_file_io = file_io s;
          s1 = s \<lparr> transaction := new_table_transaction_state, file_io := Some io \<rparr>;
          s2 = (if 1 < n \<and> \<not> (rebuild_history s1 \<noteq> [] \<and> rf_nest_level (last (rebuild_history s1)) = n)
                then s1 \<lparr> rebuild_history := rebuild_history s1 @
                       [\<lparr> rf_nest_level = n, rf_transaction = previous, rf_file_io = previous_file_io,
                          rf_previous_rebuild_level = rebuild_level s1 \<rparr>] \<rparr>
                else s1)
      in s2 \<lparr> rebuild_level := Some n \<rparr>)"

text \<open>The loop that restores one replaced generation after the other.\<close>

function pop_rebuilds :: "nest_level \<Rightarrow> ('d, 'v, 'u, 'fv, 'e, 'io) managed_table_state
    \<Rightarrow> ('d, 'v, 'u, 'fv, 'e, 'io) managed_table_state" where
  "pop_rebuilds level s =
     (if rebuild_history s \<noteq> [] \<and> level \<le> rf_nest_level (last (rebuild_history s))
      then let frame = last (rebuild_history s) in
        pop_rebuilds level
          (s \<lparr> rebuild_history := butlast (rebuild_history s),
               transaction := rollback_to_level level (rf_transaction frame),
               file_io := rf_file_io frame,
               rebuild_level := rf_previous_rebuild_level frame \<rparr>)
      else s)"
  by pat_completeness auto
termination
  by (relation "measure (\<lambda>(_, s). length (rebuild_history s))") auto

declare pop_rebuilds.simps [simp del]

definition managed_rollback_to_level :: "nest_level \<Rightarrow> ('d, 'v, 'u, 'fv, 'e, 'io) managed_table_state
    \<Rightarrow> ('d, 'v, 'u, 'fv, 'e, 'io) managed_table_state" where
  "managed_rollback_to_level level s =
     pop_rebuilds level
       (s \<lparr> transaction := rollback_to_level level (transaction s),
            row_registry := registry_rollback_to_level level (row_registry s) \<rparr>)"

definition lower_level :: "nest_level \<Rightarrow> nest_level \<Rightarrow> nest_level" where
  "lower_level level l = (if level \<le> l then level - 1 else l)"

definition managed_promote_to_level :: "nest_level \<Rightarrow> ('d, 'v, 'u, 'fv, 'e, 'io) managed_table_state
    \<Rightarrow> ('d, 'v, 'u, 'fv, 'e, 'io) managed_table_state" where
  "managed_promote_to_level level s =
     s \<lparr> transaction := promote_to_level level (transaction s),
         row_registry := registry_promote_to_level level (row_registry s),
         rebuild_level := map_option (lower_level level) (rebuild_level s),
         rebuild_history := dedup_by_key rf_nest_level
           (filter (\<lambda>frame. 1 < rf_nest_level frame)
             (map (\<lambda>frame. frame \<lparr> rf_transaction := promote_to_level level (rf_transaction frame),
                     rf_nest_level := lower_level level (rf_nest_level frame),
                     rf_previous_rebuild_level :=
                       map_option (lower_level level) (rf_previous_rebuild_level frame) \<rparr>)
               (rebuild_history s))) \<rparr>"

section \<open>Operations as data\<close>

datatype ('d, 'v, 'u, 'fv, 'e, 'io) managed_op =
    TableOp "('d, 'v, 'u, 'fv, 'e, string) table_op"
  | Rebuild 'io
  | UseRegistry registry_op

text \<open>What happens to one table at level \<open>n\<close>.\<close>

fun managed_step :: "'d delta_api \<Rightarrow> ('u, 'm) schema_api \<Rightarrow> 'e exclusive_api \<Rightarrow> nest_level
    \<Rightarrow> ('d, 'v, 'u, 'fv, 'e, 'io) managed_op \<Rightarrow> ('d, 'v, 'u, 'fv, 'e, 'io) managed_table_state
    \<Rightarrow> ('d, 'v, 'u, 'fv, 'e, 'io) managed_table_state" where
  "managed_step D U E n (TableOp op) s = s \<lparr> transaction := table_step D U E n op (transaction s) \<rparr>"
| "managed_step D U E n (Rebuild io) s = record_rebuild n io s"
| "managed_step D U E n (UseRegistry op) s = s \<lparr> row_registry := registry_step op (row_registry s) \<rparr>"

text \<open>The specification, on the action list and whether the table was rebuilt.\<close>

fun spec_managed_op :: "'d delta_api \<Rightarrow> ('u, 'm) schema_api \<Rightarrow> ('d, 'v, 'u, 'fv, 'e, 'io) managed_op
    \<Rightarrow> ('d, 'v, 'u, 'fv, 'e, string) tx_table_action list \<times> bool
    \<Rightarrow> ('d, 'v, 'u, 'fv, 'e, string) tx_table_action list \<times> bool" where
  "spec_managed_op D U (TableOp op) (as, rebuilt) = (accept (spec_table_op D U) op as, rebuilt)"
| "spec_managed_op D U (Rebuild io) (as, rebuilt) = ([], True)"
| "spec_managed_op D U (UseRegistry op) v = v"

text \<open>What the table shows if everything at level \<open>k\<close> and deeper were rolled back.\<close>

definition managed_at :: "('d, 'v, 'u, 'fv, 'e, 'io) managed_table_state \<Rightarrow> nest_level
    \<Rightarrow> ('d, 'v, 'u, 'fv, 'e, string) tx_table_action list \<times> bool" where
  "managed_at s k = (case find (\<lambda>frame. k \<le> rf_nest_level frame) (rebuild_history s) of
       None \<Rightarrow> (table_at (transaction s) k, rebuild_level s \<noteq> None)
     | Some frame \<Rightarrow> (table_at (rf_transaction frame) k, rf_previous_rebuild_level frame \<noteq> None))"

definition managed_inv :: "'d delta_api \<Rightarrow> nest_level \<Rightarrow> ('d, 'v, 'u, 'fv, 'e, 'io) managed_table_state \<Rightarrow> bool" where
  "managed_inv D n s \<longleftrightarrow>
     table.refined_inv D n (transaction s)
   \<and> sorted_wrt (<) (map rf_nest_level (rebuild_history s))
   \<and> (\<forall>frame \<in> set (rebuild_history s). 2 \<le> rf_nest_level frame \<and> rf_nest_level frame \<le> n
        \<and> table.refined_inv D (rf_nest_level frame) (rf_transaction frame))"

section \<open>Lists of frames\<close>

lemma dedup_find:
  "find (\<lambda>x. P (f x)) (dedup_by_key f xs) = find (\<lambda>x. P (f x)) xs"
  by (induction f xs rule: dedup_by_key.induct) auto

lemma dedup_subset: "set (dedup_by_key f xs) \<subseteq> set xs"
  by (induction f xs rule: dedup_by_key.induct) auto

lemma dedup_strict:
  "sorted (map f xs) \<Longrightarrow> sorted_wrt (<) (map f (dedup_by_key f xs))"
proof (induction f xs rule: dedup_by_key.induct)
  case (3 f x y xs)
  show ?case
  proof (cases "f y = f x")
    case False
    then have "\<forall>z \<in> set (y # xs). f x < f z" using "3.prems" by force
    then have "\<forall>z \<in> set (dedup_by_key f (y # xs)). f x < f z"
      using dedup_subset [of f "y # xs"] by blast
    then show ?thesis using 3 False by simp
  qed (use 3 in auto)
qed auto

section \<open>The savepoint contract\<close>

lemma find_above:
  assumes "\<forall>x \<in> set xs. f x \<le> (n :: nest_level)" and "n < k"
  shows "find (\<lambda>x. k \<le> f x) xs = None"
  using assms by (force simp: find_None_iff)

lemma managed_at_top:
  "managed_inv D n s \<Longrightarrow> n < k \<Longrightarrow> managed_at s k = (table_at (transaction s) k, rebuild_level s \<noteq> None)"
  using find_above [of "rebuild_history s" rf_nest_level n k]
  by (auto simp: managed_at_def managed_inv_def)

lemma managed_transaction: "managed_inv D n s \<Longrightarrow> table.refined_inv D n (transaction s)"
  by (simp add: managed_inv_def)

lemma stack_inv_mono: "stack_inv l a \<Longrightarrow> l \<le> n \<Longrightarrow> stack_inv n a"
  by (cases a) (auto simp: stack_inv_def split_beta intro: order_trans)

lemma refined_mono: "table.refined_inv D l t \<Longrightarrow> l \<le> n \<Longrightarrow> table.refined_inv D n t"
  unfolding table.refined_inv_def using stack_inv_mono by blast

lemma frame_levels: "list_all2 frame_matches fs h \<Longrightarrow> map frame_level fs = map fst h"
  by (induction rule: list_all2_induct) (auto simp: frame_matches_def)

lemma refined_promote_id:
  assumes "table.refined_inv D l t" and "l < n"
  shows "promote_to_level n t = t"
proof -
  obtain a where a: "table_refines D t a" "stack_inv l a"
    using assms(1) by (auto simp: table.refined_inv_def)
  have "map frame_level (level_history t) = map fst (fst a)"
    using a(1) by (intro frame_levels) (auto simp: table_refines_def split_beta)
  moreover have "\<forall>x \<in> set (fst a). 2 \<le> fst x \<and> fst x \<le> l"
    using a(2) by (auto simp: stack_inv_def split_beta)
  ultimately have levels: "2 \<le> frame_level f \<and> frame_level f \<le> l" if "f \<in> set (level_history t)" for f
    using that by (metis (no_types, lifting) imageE image_eqI list.set_map)
  have "map (\<lambda>f. if n \<le> frame_level f then f \<lparr> frame_level := n - 1 \<rparr> else f) (level_history t)
      = level_history t"
    using levels assms(2) by (intro map_idI) fastforce
  moreover have "filter (\<lambda>f. 1 < frame_level f) (level_history t) = level_history t"
    using levels by (intro filter_True_id) fastforce
  ultimately show ?thesis by (simp add: promote_to_level_def)
qed

lemma managed_inv_deeper: "1 \<le> n \<Longrightarrow> managed_inv D n s \<Longrightarrow> managed_inv D (n + 1) s"
  using table.inv_deeper [of n D "transaction s"] by (auto simp: managed_inv_def)

lemma new_refined_inv: "table.refined_inv D n new_table_transaction_state"
  using new_table_refines [of D] by (auto simp: table.refined_inv_def stack_inv_def)

lemma record_rebuild_parts:
  "transaction (record_rebuild n io s) = new_table_transaction_state"
  "rebuild_level (record_rebuild n io s) = Some n"
  "rebuild_history (record_rebuild n io s) =
     rebuild_history s @ (if 1 < n \<and> \<not> (rebuild_history s \<noteq> [] \<and> rf_nest_level (last (rebuild_history s)) = n)
       then [\<lparr> rf_nest_level = n, rf_transaction = transaction s, rf_file_io = file_io s,
               rf_previous_rebuild_level = rebuild_level s \<rparr>] else [])"
  by (simp_all add: record_rebuild_def Let_def)

lemma managed_inv_step:
  assumes "1 \<le> n" and "managed_inv D n s"
  shows "managed_inv D n (managed_step D U E n op s)"
proof (cases op)
  case (TableOp x)
  then show ?thesis using assms table.inv_step [of n D "transaction s" U E x] by (simp add: managed_inv_def)
next
  case (Rebuild io)
  have "rf_nest_level frame < n" if "frame \<in> set (rebuild_history s)"
    "rebuild_history s \<noteq> [] \<longrightarrow> rf_nest_level (last (rebuild_history s)) \<noteq> n" for frame
  proof -
    have "rf_nest_level frame \<le> rf_nest_level (last (rebuild_history s))"
      using assms(2) that(1)
      by (cases "rebuild_history s" rule: rev_cases) (auto simp: managed_inv_def sorted_wrt_append)
    moreover have "rf_nest_level (last (rebuild_history s)) \<le> n"
      using assms(2) that(1) by (cases "rebuild_history s" rule: rev_cases) (auto simp: managed_inv_def)
    ultimately show ?thesis using that by fastforce
  qed
  then show ?thesis
    using assms by (auto simp: Rebuild managed_inv_def record_rebuild_parts new_refined_inv sorted_wrt_append)
next
  case (UseRegistry x)
  then show ?thesis using assms by (simp add: managed_inv_def)
qed

lemma managed_at_step_below:
  assumes "1 \<le> n" and "managed_inv D n s" and "2 \<le> k" and "k \<le> n"
  shows "managed_at (managed_step D U E n op s) k = managed_at s k"
proof (cases op)
  case (TableOp x)
  then show ?thesis
    using assms table.at_step_below [of n D "transaction s" k U E x]
    by (auto simp: managed_at_def managed_inv_def split: option.splits)
next
  case (Rebuild io)
  show ?thesis
  proof (cases "find (\<lambda>frame. k \<le> rf_nest_level frame) (rebuild_history s)")
    case None
    then have "\<not> (rebuild_history s \<noteq> [] \<and> rf_nest_level (last (rebuild_history s)) = n)"
      using assms(4) by (auto simp: find_None_iff)
    then show ?thesis
      using None assms(3,4) by (simp add: Rebuild managed_at_def record_rebuild_parts find_append)
  qed (simp add: Rebuild managed_at_def record_rebuild_parts find_append)
qed (simp add: managed_at_def split: option.split)

lemma managed_at_step_top:
  assumes "1 \<le> n" and "managed_inv D n s"
  shows "managed_at (managed_step D U E n op s) (n + 1) = spec_managed_op D U op (managed_at s (n + 1))"
proof -
  note top = managed_at_top [OF assms(2), of "n + 1", simplified]
    managed_at_top [OF managed_inv_step [OF assms, of U E op], of "n + 1", simplified]
  show ?thesis
  proof (cases op)
    case (TableOp x)
    then show ?thesis
      using top table.at_step_top [of n D "transaction s" U E x] assms by (simp add: managed_inv_def)
  qed (use top in \<open>simp_all add: record_rebuild_parts\<close>)
qed

text \<open>Release.\<close>

definition promote_frame :: "nest_level \<Rightarrow> ('d, 'v, 'u, 'fv, 'e, 'io) rebuild_frame
    \<Rightarrow> ('d, 'v, 'u, 'fv, 'e, 'io) rebuild_frame" where
  "promote_frame level frame =
     frame \<lparr> rf_transaction := promote_to_level level (rf_transaction frame),
             rf_nest_level := lower_level level (rf_nest_level frame),
             rf_previous_rebuild_level := map_option (lower_level level) (rf_previous_rebuild_level frame) \<rparr>"

lemma promote_history:
  "rebuild_history (managed_promote_to_level level s) =
     dedup_by_key rf_nest_level (filter (\<lambda>frame. 1 < rf_nest_level frame) (map (promote_frame level) (rebuild_history s)))"
  by (simp add: managed_promote_to_level_def promote_frame_def [abs_def])

lemma promote_frame_level [simp]: "rf_nest_level (promote_frame n frame) = lower_level n (rf_nest_level frame)"
  by (simp add: promote_frame_def)

lemma sorted_promoted:
  "sorted_wrt (<) (map rf_nest_level xs) \<Longrightarrow> sorted (map rf_nest_level (filter P (map (promote_frame n) xs)))"
  by (induction xs) (force simp: lower_level_def)+

lemma managed_inv_release:
  assumes "1 \<le> n" and "managed_inv D (n + 1) s"
  shows "managed_inv D n (managed_promote_to_level (n + 1) s)"
proof -
  have "2 \<le> rf_nest_level frame \<and> rf_nest_level frame \<le> n
      \<and> table.refined_inv D (rf_nest_level frame) (rf_transaction frame)"
    if "frame \<in> set (rebuild_history (managed_promote_to_level (n + 1) s))" for frame
  proof -
    have "frame \<in> set (filter (\<lambda>frame. 1 < rf_nest_level frame) (map (promote_frame (n + 1)) (rebuild_history s)))"
      by (rule dedup_subset [THEN subsetD, OF that [unfolded promote_history]])
    then obtain fr where fr: "fr \<in> set (rebuild_history s)" "frame = promote_frame (n + 1) fr"
      "1 < rf_nest_level frame" by auto
    have l: "rf_nest_level fr \<le> n + 1" "table.refined_inv D (rf_nest_level fr) (rf_transaction fr)"
      using assms(2) fr(1) by (simp_all add: managed_inv_def)
    show ?thesis
    proof (cases "rf_nest_level fr = n + 1")
      case True
      then show ?thesis
        using fr l table.inv_release [OF assms(1), of D "rf_transaction fr"]
        by (simp add: promote_frame_def lower_level_def)
    next
      case False
      then have "promote_to_level (n + 1) (rf_transaction fr) = rf_transaction fr"
        using refined_promote_id [OF l(2), of "n + 1"] l(1) by simp
      then show ?thesis using fr l False by (simp add: promote_frame_def lower_level_def)
    qed
  qed
  moreover have "sorted_wrt (<) (map rf_nest_level (rebuild_history (managed_promote_to_level (n + 1) s)))"
    unfolding promote_history
    using assms(2) by (intro dedup_strict sorted_promoted) (simp add: managed_inv_def)
  moreover have "table.refined_inv D n (transaction (managed_promote_to_level (n + 1) s))"
    using assms table.inv_release [of n D "transaction s"]
    by (simp add: managed_inv_def managed_promote_to_level_def)
  ultimately show ?thesis by (simp add: managed_inv_def)
qed

lemma find_promoted:
  assumes "2 \<le> k" and "k \<le> n"
  shows "find (\<lambda>frame. k \<le> rf_nest_level frame) (rebuild_history (managed_promote_to_level (n + 1) s)) =
     map_option (promote_frame (n + 1)) (find (\<lambda>frame. k \<le> rf_nest_level frame) (rebuild_history s))"
proof -
  have "find (\<lambda>frame. k \<le> rf_nest_level frame)
      (filter (\<lambda>frame. 1 < rf_nest_level frame) (map (promote_frame (n + 1)) xs)) =
      map_option (promote_frame (n + 1)) (find (\<lambda>frame. k \<le> rf_nest_level frame) xs)" for xs
    using assms by (induction xs) (auto simp: lower_level_def)
  then show ?thesis by (simp add: promote_history dedup_find)
qed

lemma managed_at_release_below:
  assumes "1 \<le> n" and "managed_inv D (n + 1) s" and "2 \<le> k" and "k \<le> n"
  shows "managed_at (managed_promote_to_level (n + 1) s) k = managed_at s k"
proof (cases "find (\<lambda>frame. k \<le> rf_nest_level frame) (rebuild_history s)")
  case None
  then show ?thesis
    using assms find_promoted [OF assms(3,4), of s] table.at_release_below [of n D "transaction s" k]
    by (simp add: managed_at_def managed_inv_def managed_promote_to_level_def)
next
  case (Some frame)
  then have "frame \<in> set (rebuild_history s)" by (auto simp: find_Some_iff)
  then have "table.refined_inv D (n + 1) (rf_transaction frame)"
    using assms(2) refined_mono [of D "rf_nest_level frame" "rf_transaction frame" "n + 1"]
    by (simp add: managed_inv_def)
  then show ?thesis
    using Some assms find_promoted [OF assms(3,4), of s] table.at_release_below [of n D "rf_transaction frame" k]
    by (simp add: managed_at_def managed_inv_def promote_frame_def)
qed

lemma managed_at_release_top:
  assumes "1 \<le> n" and "managed_inv D (n + 1) s"
  shows "managed_at (managed_promote_to_level (n + 1) s) (n + 1) = managed_at s (n + 2)"
  using managed_at_top [OF managed_inv_release [OF assms], of "n + 1"] managed_at_top [OF assms(2), of "n + 2"]
    table.at_release_top [of n D "transaction s"] assms
  by (simp add: managed_promote_to_level_def managed_inv_def)

text \<open>Rollback: at most one generation belongs to the level that ends.\<close>

lemma pop_rebuilds_none:
  "\<forall>frame \<in> set (rebuild_history s). rf_nest_level frame < level \<Longrightarrow> pop_rebuilds level s = s"
  by (subst pop_rebuilds.simps) (metis last_in_set not_le)

lemma pop_rebuilds_one:
  assumes "rebuild_history s = fs @ [frame]" and "level \<le> rf_nest_level frame"
    and "\<forall>fr \<in> set fs. rf_nest_level fr < level"
  shows "pop_rebuilds level s =
     s \<lparr> rebuild_history := fs, transaction := rollback_to_level level (rf_transaction frame),
         file_io := rf_file_io frame, rebuild_level := rf_previous_rebuild_level frame \<rparr>"
  using assms by (subst pop_rebuilds.simps) (simp add: Let_def pop_rebuilds_none)

lemma managed_rollback_cases:
  assumes "managed_inv D (n + 1) s"
  obtains (keep) "\<forall>frame \<in> set (rebuild_history s). rf_nest_level frame \<le> n"
      "rebuild_history (managed_rollback_to_level (n + 1) s) = rebuild_history s"
      "transaction (managed_rollback_to_level (n + 1) s) = rollback_to_level (n + 1) (transaction s)"
      "rebuild_level (managed_rollback_to_level (n + 1) s) = rebuild_level s"
    | (pop) fs frame where "rebuild_history s = fs @ [frame]" "rf_nest_level frame = n + 1"
      "\<forall>fr \<in> set fs. rf_nest_level fr \<le> n"
      "rebuild_history (managed_rollback_to_level (n + 1) s) = fs"
      "transaction (managed_rollback_to_level (n + 1) s) = rollback_to_level (n + 1) (rf_transaction frame)"
      "rebuild_level (managed_rollback_to_level (n + 1) s) = rf_previous_rebuild_level frame"
proof (cases "\<exists>fs frame. rebuild_history s = fs @ [frame] \<and> rf_nest_level frame = n + 1")
  case True
  then obtain fs frame where h: "rebuild_history s = fs @ [frame]" "rf_nest_level frame = n + 1" by blast
  then have fs: "\<forall>fr \<in> set fs. rf_nest_level fr < n + 1"
    using assms by (auto simp: managed_inv_def sorted_wrt_append)
  show ?thesis
    by (rule pop [OF h]) (use fs h in \<open>auto simp: managed_rollback_to_level_def pop_rebuilds_one [OF _ _ fs]\<close>)
next
  case False
  have below: "rf_nest_level frame < n + 1" if "frame \<in> set (rebuild_history s)" for frame
  proof (cases "rebuild_history s" rule: rev_cases)
    case (snoc fs last)
    then have "rf_nest_level last \<le> n" using False assms by (force simp: managed_inv_def)
    then show ?thesis using that snoc assms by (force simp: managed_inv_def sorted_wrt_append)
  qed (use that in simp)
  show ?thesis
    by (rule keep) (use below in \<open>auto simp: managed_rollback_to_level_def pop_rebuilds_none\<close>)
qed

lemma managed_inv_abort:
  assumes "1 \<le> n" and "managed_inv D (n + 1) s"
  shows "managed_inv D n (managed_rollback_to_level (n + 1) s)"
  using assms(2)
proof (cases rule: managed_rollback_cases)
  case keep
  then show ?thesis
    using assms(2) table.inv_abort [OF assms(1), of D "transaction s"] by (simp add: managed_inv_def)
next
  case (pop fs frame)
  have "table.refined_inv D (n + 1) (rf_transaction frame)"
    using assms(2) pop(1,2) by (auto simp: managed_inv_def)
  then have "table.refined_inv D n (transaction (managed_rollback_to_level (n + 1) s))"
    unfolding pop(5) by (rule table.inv_abort [OF assms(1)])
  then show ?thesis
    using assms(2) pop by (simp add: managed_inv_def sorted_wrt_append)
qed

lemma managed_at_abort:
  assumes "1 \<le> n" and "managed_inv D (n + 1) s" and "2 \<le> k" and "k \<le> n + 1"
  shows "managed_at (managed_rollback_to_level (n + 1) s) k = managed_at s k"
proof -
  have tx: "table_at (rollback_to_level (n + 1) t) k = table_at t k" if "table.refined_inv D (n + 1) t" for t
    using table.at_abort_below [OF assms(1) that assms(3)] table.at_abort_top [OF assms(1) that] assms(4)
    by (cases "k = n + 1") auto
  show ?thesis
    using assms(2)
  proof (cases rule: managed_rollback_cases)
    case keep
    then show ?thesis
      using assms(2) tx [of "transaction s"] by (auto simp: managed_at_def managed_inv_def split: option.splits)
  next
    case (pop fs frame)
    then show ?thesis
      using assms(2,4) tx [of "rf_transaction frame"]
      by (auto simp: managed_at_def managed_inv_def find_append split: option.splits)
  qed
qed

interpretation managed: savepoint_store "managed_inv D" managed_at "managed_step D U E"
  managed_promote_to_level managed_rollback_to_level "spec_managed_op D U"
  for D :: "'d delta_api" and U :: "('u, 'm) schema_api" and E :: "'e exclusive_api"
proof
  fix n k :: nest_level and s :: "('d, 'v, 'u, 'fv, 'e, 'io) managed_table_state" and x
  assume n: "1 \<le> n"
  show "managed_inv D n s \<Longrightarrow> managed_inv D (n + 1) s"
    by (rule managed_inv_deeper [OF n])
  show "managed_inv D n s \<Longrightarrow> managed_inv D n (managed_step D U E n x s)"
    by (rule managed_inv_step [OF n])
  show "managed_inv D (n + 1) s \<Longrightarrow> managed_inv D n (managed_promote_to_level (n + 1) s)"
    by (rule managed_inv_release [OF n])
  show "managed_inv D (n + 1) s \<Longrightarrow> managed_inv D n (managed_rollback_to_level (n + 1) s)"
    by (rule managed_inv_abort [OF n])
  show "managed_inv D n s \<Longrightarrow> n < k \<Longrightarrow> managed_at s k = managed_at s (n + 1)"
    using managed_at_top [of D n s k] managed_at_top [of D n s "n + 1"] managed_transaction [of D n s]
      table.at_top [OF n, of D "transaction s" k] by simp
  show "managed_inv D n s \<Longrightarrow> 2 \<le> k \<Longrightarrow> k \<le> n \<Longrightarrow> managed_at (managed_step D U E n x s) k = managed_at s k"
    by (rule managed_at_step_below [OF n])
  show "managed_inv D n s \<Longrightarrow>
      managed_at (managed_step D U E n x s) (n + 1) = spec_managed_op D U x (managed_at s (n + 1))"
    by (rule managed_at_step_top [OF n])
  show "managed_inv D (n + 1) s \<Longrightarrow> 2 \<le> k \<Longrightarrow> k \<le> n \<Longrightarrow>
      managed_at (managed_promote_to_level (n + 1) s) k = managed_at s k"
    by (rule managed_at_release_below [OF n])
  show "managed_inv D (n + 1) s \<Longrightarrow> managed_at (managed_promote_to_level (n + 1) s) (n + 1) = managed_at s (n + 2)"
    by (rule managed_at_release_top [OF n])
  show "managed_inv D (n + 1) s \<Longrightarrow> 2 \<le> k \<Longrightarrow> k \<le> n \<Longrightarrow>
      managed_at (managed_rollback_to_level (n + 1) s) k = managed_at s k"
    by (rule managed_at_abort [OF n]) simp_all
  show "managed_inv D (n + 1) s \<Longrightarrow> managed_at (managed_rollback_to_level (n + 1) s) (n + 1) = managed_at s (n + 1)"
    using n by (intro managed_at_abort [OF n]) simp_all
qed

end
