(* ===== verification/Tx_Metadata.thy ===== *)
theory Tx_Metadata
  imports Managed_State
begin

text \<open>
  The per-transaction metadata tracker (\<open>managed_table/catalog/metadata_tracker/mod.rs\<close>): every
  Iceberg table the transaction touched, keyed by relation OID, its staging entry points and the
  callbacks of the transaction framework. The nesting level, the command ID and the catalog row
  PostgreSQL reports are arguments. The hash map is an association list; nothing depends on its
  order except through the explicit sort in \<open>commit_all\<close>.
\<close>

section \<open>State\<close>

record ('d, 'v, 'u, 'fv, 'e, 'io) tx_metadata =
  tables :: "(oid \<times> ('d, 'v, 'u, 'fv, 'e, 'io) managed_table_state) list"

record ('d, 'v, 'u, 'fv, 'e, 'io) table_commit_input =
  input_actions :: "('d, 'v, 'u, 'fv, 'e, string) tx_table_action_log"
  input_file_io :: 'io

definition tx_metadata_default :: "('d, 'v, 'u, 'fv, 'e, 'io) tx_metadata" where
  "tx_metadata_default = \<lparr> tables = [] \<rparr>"

definition put_table :: "oid \<Rightarrow> ('d, 'v, 'u, 'fv, 'e, 'io) managed_table_state
    \<Rightarrow> ('d, 'v, 'u, 'fv, 'e, 'io) tx_metadata \<Rightarrow> ('d, 'v, 'u, 'fv, 'e, 'io) tx_metadata" where
  "put_table relid s t = t \<lparr> tables := map (\<lambda>(r, s'). (r, if r = relid then s else s')) (tables t) \<rparr>"

text \<open>\<open>CURRENT\<close> is the transaction's tracker, if one was installed.\<close>

definition has_local_actions :: "('u, 'm) schema_api \<Rightarrow> oid \<Rightarrow> ('d, 'v, 'u, 'fv, 'e, 'io) tx_metadata option \<Rightarrow> bool" where
  "has_local_actions U relid current = (case current of
       None \<Rightarrow> False
     | Some t \<Rightarrow> (case map_of (tables t) relid of None \<Rightarrow> False | Some s \<Rightarrow> has_changes U s))"

definition tx_metadata_current :: "('d, 'v, 'u, 'fv, 'e, 'io) tx_metadata option
    \<Rightarrow> ('d, 'v, 'u, 'fv, 'e, 'io) tx_metadata" where
  "tx_metadata_current current = (case current of Some t \<Rightarrow> t | None \<Rightarrow> tx_metadata_default)"

section \<open>Staging\<close>

definition register_table :: "oid \<Rightarrow> ('d, 'v, 'u, 'fv, 'e, 'io) tx_metadata
    \<Rightarrow> ('d, 'v, 'u, 'fv, 'e, 'io) tx_metadata" where
  "register_table relid t =
     (if map_of (tables t) relid \<noteq> None then t
      else t \<lparr> tables := tables t @ [(relid, new_managed_table_state)] \<rparr>)"

definition stage_table_mutation :: "oid \<Rightarrow> 'io
    \<Rightarrow> (('d, 'v, 'u, 'fv, 'e) managed_table_transaction \<Rightarrow> nest_level
        \<Rightarrow> unit iceberg_result \<times> ('d, 'v, 'u, 'fv, 'e) managed_table_transaction)
    \<Rightarrow> nest_level \<Rightarrow> ('d, 'v, 'u, 'fv, 'e, 'io) tx_metadata
    \<Rightarrow> unit iceberg_result \<times> ('d, 'v, 'u, 'fv, 'e, 'io) tx_metadata" where
  "stage_table_mutation relid io mutation n t =
     (let t1 = register_table relid t in
      case map_of (tables t1) relid of
        None \<Rightarrow> (Inl (MetadataTracker (''Table '' @ show_nat (unat relid)
                    @ '' not registered in metadata tracker'')), t1)
      | Some s \<Rightarrow>
          (let s1 = (if file_io s = None then s \<lparr> file_io := Some io \<rparr> else s);
               (r, tx) = mutation (transaction s1) n
           in (r, put_table relid (s1 \<lparr> transaction := tx \<rparr>) t1)))"

definition stage_batch :: "'d delta_api \<Rightarrow> 'e exclusive_api \<Rightarrow> oid \<Rightarrow> ('d, 'v) tx_write_batch \<Rightarrow> 'io
    \<Rightarrow> nest_level \<Rightarrow> ('d, 'v, 'u, 'fv, 'e, 'io) tx_metadata
    \<Rightarrow> unit iceberg_result \<times> ('d, 'v, 'u, 'fv, 'e, 'io) tx_metadata" where
  "stage_batch D E relid b io = stage_table_mutation relid io (\<lambda>tx n. record_batch D E n b tx)"

definition stage_schema_update :: "('u, 'm) schema_api \<Rightarrow> 'e exclusive_api \<Rightarrow> oid \<Rightarrow> 'u \<Rightarrow> 'io
    \<Rightarrow> nest_level \<Rightarrow> ('d, 'v, 'u, 'fv, 'e, 'io) tx_metadata
    \<Rightarrow> unit iceberg_result \<times> ('d, 'v, 'u, 'fv, 'e, 'io) tx_metadata" where
  "stage_schema_update U E relid u io = stage_table_mutation relid io (\<lambda>tx n. record_schema_update U E n u tx)"

definition stage_table_property_update :: "'e exclusive_api \<Rightarrow> oid \<Rightarrow> 'fv prepared_table_property_update \<Rightarrow> 'io
    \<Rightarrow> nest_level \<Rightarrow> ('d, 'v, 'u, 'fv, 'e, 'io) tx_metadata
    \<Rightarrow> unit iceberg_result \<times> ('d, 'v, 'u, 'fv, 'e, 'io) tx_metadata" where
  "stage_table_property_update E relid p io =
     stage_table_mutation relid io (\<lambda>tx n. record_table_property_update E n p tx)"

definition stage_vacuum :: "'e exclusive_api \<Rightarrow> oid \<Rightarrow> 'e \<Rightarrow> 'io
    \<Rightarrow> nest_level \<Rightarrow> ('d, 'v, 'u, 'fv, 'e, 'io) tx_metadata
    \<Rightarrow> unit iceberg_result \<times> ('d, 'v, 'u, 'fv, 'e, 'io) tx_metadata" where
  "stage_vacuum E relid vacuum io n t =
     (let t1 = register_table relid t in
      if (case map_of (tables t1) relid of None \<Rightarrow> False | Some s \<Rightarrow> was_rebuilt s)
      then (Inl (conflict_error E vacuum), t1)
      else stage_table_mutation relid io (\<lambda>tx n. record_exclusive_action E n vacuum tx) n t1)"

text \<open>\<open>expect("registered table")\<close> cannot fail after the registration.\<close>

definition prepare_local_rebuild :: "'e exclusive_api \<Rightarrow> oid \<Rightarrow> ('d, 'v, 'u, 'fv, 'e, 'io) tx_metadata
    \<Rightarrow> unit iceberg_result \<times> ('d, 'v, 'u, 'fv, 'e, 'io) tx_metadata" where
  "prepare_local_rebuild E relid t =
     (let t1 = register_table relid t;
          s = the (map_of (tables t1) relid)
      in case exclusive_conflict_error E (tx_actions (transaction s)) of
           Some err \<Rightarrow> (Inl err, t1)
         | None \<Rightarrow> (Inr (), t1))"

definition record_local_rebuild :: "oid \<Rightarrow> 'io \<Rightarrow> nest_level
    \<Rightarrow> ('d, 'v, 'u, 'fv, 'e, 'io) tx_metadata \<Rightarrow> ('d, 'v, 'u, 'fv, 'e, 'io) tx_metadata" where
  "record_local_rebuild relid io n t =
     (let t1 = register_table relid t;
          s = the (map_of (tables t1) relid)
      in put_table relid (record_rebuild n io s) t1)"

definition tracker_stage_truncate :: "'e exclusive_api \<Rightarrow> oid \<Rightarrow> 'io \<Rightarrow> string option iceberg_result \<Rightarrow> command_id
    \<Rightarrow> nest_level \<Rightarrow> ('d, 'v, 'u, 'fv, 'e, 'io) tx_metadata
    \<Rightarrow> unit iceberg_result \<times> ('d, 'v, 'u, 'fv, 'e, 'io) tx_metadata" where
  "tracker_stage_truncate E relid io catalog_row cid n t =
     (case catalog_row of
        Inl err \<Rightarrow> (Inl err, t)
      | Inr None \<Rightarrow> (Inl MetadataLocationNull, t)
      | Inr (Some location) \<Rightarrow>
          stage_table_mutation relid io (\<lambda>tx n. record_truncate E n location cid tx) n t)"

definition tracker_stage_drop :: "'e exclusive_api \<Rightarrow> oid \<Rightarrow> nest_level
    \<Rightarrow> ('d, 'v, 'u, 'fv, 'e, 'io) tx_metadata option
    \<Rightarrow> unit iceberg_result \<times> ('d, 'v, 'u, 'fv, 'e, 'io) tx_metadata" where
  "tracker_stage_drop E relid n current =
     (let t1 = register_table relid (tx_metadata_current current) in
      case map_of (tables t1) relid of
        None \<Rightarrow> (Inl (MetadataTracker (''Table '' @ show_nat (unat relid)
                    @ '' not registered before staging DROP'')), t1)
      | Some s \<Rightarrow>
          (let (r, tx) = record_drop E n (transaction s)
           in (r, put_table relid (s \<lparr> transaction := tx \<rparr>) t1)))"

text \<open>The registry handle of a relation and one operation through it.\<close>

definition tracker_row_registry :: "oid \<Rightarrow> ('d, 'v, 'u, 'fv, 'e, 'io) tx_metadata
    \<Rightarrow> relation_row_registry iceberg_result \<times> ('d, 'v, 'u, 'fv, 'e, 'io) tx_metadata" where
  "tracker_row_registry relid t =
     (let t1 = register_table relid t in
      case map_of (tables t1) relid of
        Some s \<Rightarrow> (Inr (row_registry s), t1)
      | None \<Rightarrow> (Inl (MetadataTracker (''table '' @ show_nat (unat relid) @ '' has no row registry'')), t1))"

definition use_registry :: "oid \<Rightarrow> registry_op \<Rightarrow> ('d, 'v, 'u, 'fv, 'e, 'io) tx_metadata
    \<Rightarrow> ('d, 'v, 'u, 'fv, 'e, 'io) tx_metadata" where
  "use_registry relid op t =
     (let t1 = snd (tracker_row_registry relid t) in
      case map_of (tables t1) relid of
        None \<Rightarrow> t1
      | Some s \<Rightarrow> put_table relid (s \<lparr> row_registry := registry_step op (row_registry s) \<rparr>) t1)"

section \<open>Commit input and callbacks\<close>

definition commit_input :: "('u, 'm) schema_api \<Rightarrow> oid \<Rightarrow> ('d, 'v, 'u, 'fv, 'e, 'io) tx_metadata
    \<Rightarrow> ('d, 'v, 'u, 'fv, 'e, 'io) table_commit_input option iceberg_result" where
  "commit_input U relid t = (case map_of (tables t) relid of
       None \<Rightarrow> Inr None
     | Some s \<Rightarrow>
         (let log = tx_actions (transaction s) in
          if log_is_empty U log then Inr None
          else if is_dropped log then Inr None
          else case file_io s of
              None \<Rightarrow> Inl (MetadataTracker (''table '' @ show_nat (unat relid)
                         @ '' has staged Iceberg metadata changes without FileIO''))
            | Some io \<Rightarrow> Inr (Some \<lparr> input_actions = log, input_file_io = io \<rparr>)))"

definition tracker_rollback_to_level :: "nest_level \<Rightarrow> ('d, 'v, 'u, 'fv, 'e, 'io) tx_metadata
    \<Rightarrow> ('d, 'v, 'u, 'fv, 'e, 'io) tx_metadata" where
  "tracker_rollback_to_level target t =
     t \<lparr> tables := map (\<lambda>(r, s). (r, managed_rollback_to_level target s)) (tables t) \<rparr>"

definition tracker_promote_to_level :: "nest_level \<Rightarrow> ('d, 'v, 'u, 'fv, 'e, 'io) tx_metadata
    \<Rightarrow> ('d, 'v, 'u, 'fv, 'e, 'io) tx_metadata" where
  "tracker_promote_to_level from_level t =
     t \<lparr> tables := map (\<lambda>(r, s). (r, managed_promote_to_level from_level s)) (tables t) \<rparr>"

definition on_pre_prepare :: "('u, 'm) schema_api \<Rightarrow> ('d, 'v, 'u, 'fv, 'e, 'io) tx_metadata \<Rightarrow> string + unit" where
  "on_pre_prepare U t =
     (if list_ex (\<lambda>(r, s). has_changes U s) (tables t)
      then Inl ''cannot PREPARE a transaction with staged Iceberg metadata changes''
      else Inr ())"

definition on_commit_sub :: "nest_level \<Rightarrow> ('d, 'v, 'u, 'fv, 'e, 'io) tx_metadata
    \<Rightarrow> ('d, 'v, 'u, 'fv, 'e, 'io) tx_metadata" where
  "on_commit_sub current_nest_level t = tracker_promote_to_level current_nest_level t"

definition on_abort_sub :: "nest_level \<Rightarrow> ('d, 'v, 'u, 'fv, 'e, 'io) tx_metadata
    \<Rightarrow> ('d, 'v, 'u, 'fv, 'e, 'io) tx_metadata" where
  "on_abort_sub current_nest_level t = tracker_rollback_to_level current_nest_level t"

text \<open>The ends of the top-level transaction, on \<open>CURRENT\<close>.\<close>

definition tracker_on_commit :: "('d, 'v, 'u, 'fv, 'e, 'io) tx_metadata option
    \<Rightarrow> ('d, 'v, 'u, 'fv, 'e, 'io) tx_metadata option" where
  "tracker_on_commit current = None"

definition tracker_on_prepare :: "('d, 'v, 'u, 'fv, 'e, 'io) tx_metadata option
    \<Rightarrow> ('d, 'v, 'u, 'fv, 'e, 'io) tx_metadata option" where
  "tracker_on_prepare current = None"

definition tracker_on_abort :: "('d, 'v, 'u, 'fv, 'e, 'io) tx_metadata option
    \<Rightarrow> ('d, 'v, 'u, 'fv, 'e, 'io) tx_metadata option" where
  "tracker_on_abort current = None"

section \<open>Operations as data\<close>

datatype ('d, 'v, 'u, 'fv, 'e, 'io) tracker_op =
    StageBatch oid "('d, 'v) tx_write_batch" 'io
  | StageSchemaUpdate oid 'u 'io
  | StageTableProperties oid "'fv prepared_table_property_update" 'io
  | StageVacuum oid 'e 'io
  | PrepareLocalRebuild oid
  | RecordLocalRebuild oid 'io
  | StageTruncate oid 'io "string option iceberg_result" command_id
  | StageDrop oid
  | UseRowRegistry oid registry_op

fun tracker_step :: "'d delta_api \<Rightarrow> ('u, 'm) schema_api \<Rightarrow> 'e exclusive_api \<Rightarrow> nest_level
    \<Rightarrow> ('d, 'v, 'u, 'fv, 'e, 'io) tracker_op \<Rightarrow> ('d, 'v, 'u, 'fv, 'e, 'io) tx_metadata
    \<Rightarrow> ('d, 'v, 'u, 'fv, 'e, 'io) tx_metadata" where
  "tracker_step D U E n (StageBatch relid b io) t = snd (stage_batch D E relid b io n t)"
| "tracker_step D U E n (StageSchemaUpdate relid u io) t = snd (stage_schema_update U E relid u io n t)"
| "tracker_step D U E n (StageTableProperties relid p io) t = snd (stage_table_property_update E relid p io n t)"
| "tracker_step D U E n (StageVacuum relid e io) t = snd (stage_vacuum E relid e io n t)"
| "tracker_step D U E n (PrepareLocalRebuild relid) t = snd (prepare_local_rebuild E relid t)"
| "tracker_step D U E n (RecordLocalRebuild relid io) t = record_local_rebuild relid io n t"
| "tracker_step D U E n (StageTruncate relid io row cid) t = snd (tracker_stage_truncate E relid io row cid n t)"
| "tracker_step D U E n (StageDrop relid) t = snd (tracker_stage_drop E relid n (Some t))"
| "tracker_step D U E n (UseRowRegistry relid op) t = use_registry relid op t"

text \<open>
  The specification, on the action list and the rebuilt flag of every relation.
\<close>

fun spec_tracker_op :: "'d delta_api \<Rightarrow> ('u, 'm) schema_api \<Rightarrow> ('d, 'v, 'u, 'fv, 'e, 'io) tracker_op
    \<Rightarrow> (oid \<Rightarrow> ('d, 'v, 'u, 'fv, 'e, string) tx_table_action list \<times> bool)
    \<Rightarrow> oid \<Rightarrow> ('d, 'v, 'u, 'fv, 'e, string) tx_table_action list \<times> bool" where
  "spec_tracker_op D U (StageBatch relid b io) v =
     v(relid := (accept (spec_table_op D U) (RecordBatch b) (fst (v relid)), snd (v relid)))"
| "spec_tracker_op D U (StageSchemaUpdate relid u io) v =
     v(relid := (accept (spec_table_op D U) (RecordSchema u) (fst (v relid)), snd (v relid)))"
| "spec_tracker_op D U (StageTableProperties relid p io) v =
     v(relid := (accept (spec_table_op D U) (RecordProperties p) (fst (v relid)), snd (v relid)))"
| "spec_tracker_op D U (StageVacuum relid e io) v =
     (if snd (v relid) then v
      else v(relid := (accept (spec_table_op D U) (RecordExclusive e) (fst (v relid)), False)))"
| "spec_tracker_op D U (PrepareLocalRebuild relid) v = v"
| "spec_tracker_op D U (RecordLocalRebuild relid io) v = v(relid := ([], True))"
| "spec_tracker_op D U (StageTruncate relid io row cid) v = (case row of
       Inr (Some location) \<Rightarrow>
         v(relid := (accept (spec_table_op D U) (RecordTruncate location cid) (fst (v relid)), snd (v relid)))
     | _ \<Rightarrow> v)"
| "spec_tracker_op D U (StageDrop relid) v =
     v(relid := (accept (spec_table_op D U) RecordDrop (fst (v relid)), snd (v relid)))"
| "spec_tracker_op D U (UseRowRegistry relid op) v = v"

definition tracker_at :: "('d, 'v, 'u, 'fv, 'e, 'io) tx_metadata \<Rightarrow> nest_level
    \<Rightarrow> oid \<Rightarrow> ('d, 'v, 'u, 'fv, 'e, string) tx_table_action list \<times> bool" where
  "tracker_at t k relid = (case map_of (tables t) relid of None \<Rightarrow> ([], False) | Some s \<Rightarrow> managed_at s k)"

definition tracker_inv :: "'d delta_api \<Rightarrow> nest_level \<Rightarrow> ('d, 'v, 'u, 'fv, 'e, 'io) tx_metadata \<Rightarrow> bool" where
  "tracker_inv D n t \<longleftrightarrow> (\<forall>(r, s) \<in> set (tables t). managed_inv D n s)"

section \<open>Touching one table\<close>

text \<open>Every staging entry point registers the relation and changes its state.\<close>

definition touch :: "oid \<Rightarrow> (('d, 'v, 'u, 'fv, 'e, 'io) managed_table_state
    \<Rightarrow> ('d, 'v, 'u, 'fv, 'e, 'io) managed_table_state)
    \<Rightarrow> ('d, 'v, 'u, 'fv, 'e, 'io) tx_metadata \<Rightarrow> ('d, 'v, 'u, 'fv, 'e, 'io) tx_metadata" where
  "touch relid f t = (let t1 = register_table relid t in put_table relid (f (the (map_of (tables t1) relid))) t1)"

definition remember_io :: "'io \<Rightarrow> ('d, 'v, 'u, 'fv, 'e, 'io) managed_table_state
    \<Rightarrow> ('d, 'v, 'u, 'fv, 'e, 'io) managed_table_state" where
  "remember_io io s = (if file_io s = None then s \<lparr> file_io := Some io \<rparr> else s)"

lemma map_of_put: "map_of (tables (put_table relid s t)) r =
    (if r = relid \<and> map_of (tables t) relid \<noteq> None then Some s else map_of (tables t) r)"
proof -
  have "map_of (map (\<lambda>(r, s'). (r, if r = relid then s else s')) xs) r =
      (if r = relid \<and> map_of xs relid \<noteq> None then Some s else map_of xs r)" for xs
    by (induction xs) auto
  then show ?thesis by (simp add: put_table_def)
qed

lemma map_of_register: "map_of (tables (register_table relid t)) r =
    (if r = relid \<and> map_of (tables t) relid = None then Some new_managed_table_state else map_of (tables t) r)"
  by (auto simp: register_table_def map_add_def split: option.splits)

lemma registered: "map_of (tables (register_table relid t)) relid \<noteq> None"
  by (simp add: map_of_register)

lemma map_of_touch: "map_of (tables (touch relid f t)) r =
    (if r = relid then Some (f (case map_of (tables t) relid of None \<Rightarrow> new_managed_table_state | Some s \<Rightarrow> s))
     else map_of (tables t) r)"
  by (auto simp: touch_def Let_def map_of_put map_of_register split: option.splits)

lemma managed_at_new [simp]: "managed_at new_managed_table_state k = ([], False)"
  by (simp add: managed_at_def new_managed_table_state_def)

lemma managed_inv_new [simp]: "managed_inv D n new_managed_table_state"
  by (simp add: managed_inv_def new_managed_table_state_def new_refined_inv)

lemma managed_io [simp]:
  "managed_at (remember_io io s) k = managed_at s k"
  "managed_inv D n (remember_io io s) = managed_inv D n s"
  "transaction (remember_io io s) = transaction s"
  by (auto simp: remember_io_def managed_at_def managed_inv_def split: option.splits)

lemma tracker_at_touch:
  "tracker_at (touch relid f t) k = (tracker_at t k)(relid :=
     managed_at (f (case map_of (tables t) relid of None \<Rightarrow> new_managed_table_state | Some s \<Rightarrow> s)) k)"
  by (auto simp: tracker_at_def map_of_touch fun_eq_iff)

lemma tracker_inv_touch:
  assumes "tracker_inv D n t" and "\<And>s. managed_inv D n s \<Longrightarrow> managed_inv D n (f s)"
  shows "tracker_inv D n (touch relid f t)"
proof -
  let ?s = "the (map_of (tables (register_table relid t)) relid)"
  have reg: "managed_inv D n s" if "(r, s) \<in> set (tables (register_table relid t))" for r s
    using that assms(1) by (auto simp: register_table_def tracker_inv_def split: if_splits)
  moreover have "(relid, ?s) \<in> set (tables (register_table relid t))"
    using registered [of relid t] by (auto dest: map_of_SomeD)
  ultimately show ?thesis
    using assms(2) by (auto simp: touch_def Let_def put_table_def tracker_inv_def)
qed

lemma stage_table_mutation_touch:
  assumes "\<And>s. snd (mutation (transaction s) n) = transaction (g s)"
    and "\<And>s. g s = s \<lparr> transaction := transaction (g s) \<rparr>"
  shows "snd (stage_table_mutation relid io mutation n t) = touch relid (g \<circ> remember_io io) t"
proof -
  obtain s where s: "map_of (tables (register_table relid t)) relid = Some s"
    using registered [of relid t] by blast
  have "(remember_io io s) \<lparr> transaction := snd (mutation (transaction (remember_io io s)) n) \<rparr>
      = g (remember_io io s)"
    unfolding assms(1) by (rule assms(2) [symmetric])
  then show ?thesis
    by (simp add: stage_table_mutation_def touch_def Let_def s split_beta remember_io_def)
qed

lemma tracker_lookup:
  assumes "tracker_inv D n t"
  shows "managed_inv D n (case map_of (tables t) relid of None \<Rightarrow> new_managed_table_state | Some s \<Rightarrow> s)"
    and "managed_at (case map_of (tables t) relid of None \<Rightarrow> new_managed_table_state | Some s \<Rightarrow> s) k
       = tracker_at t k relid"
  using assms by (auto simp: tracker_inv_def tracker_at_def split: option.splits dest!: map_of_SomeD)

text \<open>A table operation through the tracker, with or without remembering the \<open>FileIO\<close>.\<close>

definition managed_touch :: "'d delta_api \<Rightarrow> ('u, 'm) schema_api \<Rightarrow> 'e exclusive_api \<Rightarrow> nest_level \<Rightarrow> oid
    \<Rightarrow> 'io option \<Rightarrow> ('d, 'v, 'u, 'fv, 'e, 'io) managed_op
    \<Rightarrow> ('d, 'v, 'u, 'fv, 'e, 'io) tx_metadata \<Rightarrow> ('d, 'v, 'u, 'fv, 'e, 'io) tx_metadata" where
  "managed_touch D U E n relid io op =
     touch relid (managed_step D U E n op \<circ> (case io of None \<Rightarrow> id | Some i \<Rightarrow> remember_io i))"

lemma managed_io_option [simp]:
  "managed_at ((case io of None \<Rightarrow> id | Some i \<Rightarrow> remember_io i) s) k = managed_at s k"
  "managed_inv D n ((case io of None \<Rightarrow> id | Some i \<Rightarrow> remember_io i) s) = managed_inv D n s"
  by (simp_all split: option.split)

lemma managed_touch_laws:
  assumes "1 \<le> n" and "tracker_inv D n t"
  shows "tracker_inv D n (managed_touch D U E n relid io op t)"
    and "2 \<le> k \<Longrightarrow> k \<le> n \<Longrightarrow> tracker_at (managed_touch D U E n relid io op t) k = tracker_at t k"
    and "tracker_at (managed_touch D U E n relid io op t) (n + 1) =
      (tracker_at t (n + 1))(relid := spec_managed_op D U op (tracker_at t (n + 1) relid))"
proof -
  let ?io = "case io of None \<Rightarrow> id | Some i \<Rightarrow> remember_io i"
  let ?s = "case map_of (tables t) relid of None \<Rightarrow> new_managed_table_state | Some s \<Rightarrow> s"
  have inv: "managed_inv D n (?io ?s)" using tracker_lookup(1) [OF assms(2)] by simp
  show "tracker_inv D n (managed_touch D U E n relid io op t)"
    unfolding managed_touch_def
    by (rule tracker_inv_touch [OF assms(2)]) (simp add: managed.inv_step [OF assms(1)])
  show "tracker_at (managed_touch D U E n relid io op t) k = tracker_at t k" if "2 \<le> k" "k \<le> n"
    unfolding managed_touch_def tracker_at_touch o_def managed.at_step_below [OF assms(1) inv that]
    by (simp add: tracker_lookup(2) [OF assms(2)])
  show "tracker_at (managed_touch D U E n relid io op t) (n + 1) =
      (tracker_at t (n + 1))(relid := spec_managed_op D U op (tracker_at t (n + 1) relid))"
    unfolding managed_touch_def tracker_at_touch o_def managed.at_step_top [OF assms(1) inv]
    by (simp add: tracker_lookup(2) [OF assms(2)])
qed

lemma register_table_laws:
  shows "tracker_inv D n t \<Longrightarrow> tracker_inv D n (register_table relid t)"
    and "tracker_at (register_table relid t) k = tracker_at t k"
  by (auto simp: tracker_inv_def register_table_def)
    (auto simp: tracker_at_def map_of_register fun_eq_iff split: option.splits if_splits)

lemma stage_touch:
  assumes "\<And>tx. snd (mutation tx n) = table_step D U E n op tx"
  shows "snd (stage_table_mutation relid io mutation n t) = managed_touch D U E n relid (Some io) (TableOp op) t"
  unfolding managed_touch_def option.case by (rule stage_table_mutation_touch) (simp_all add: assms)

lemma touch_registered: "touch relid f (register_table relid t) = touch relid f t"
  by (simp add: touch_def register_table_def)

lemma drop_touch:
  "snd (tracker_stage_drop E relid n (Some t)) = managed_touch D U E n relid None (TableOp RecordDrop) t"
proof -
  obtain s where "map_of (tables (register_table relid t)) relid = Some s"
    using registered [of relid t] by blast
  then show ?thesis
    by (simp add: tracker_stage_drop_def tx_metadata_current_def managed_touch_def touch_def Let_def split_beta)
qed

lemma registry_touch:
  "use_registry relid op t = managed_touch D U E n relid None (UseRegistry op) t"
proof -
  obtain s where "map_of (tables (register_table relid t)) relid = Some s"
    using registered [of relid t] by blast
  then show ?thesis
    by (simp add: use_registry_def tracker_row_registry_def managed_touch_def touch_def Let_def)
qed

lemma tracker_step_touch:
  "tracker_step D U E n (StageBatch relid b io) t = managed_touch D U E n relid (Some io) (TableOp (RecordBatch b)) t"
  "tracker_step D U E n (StageSchemaUpdate relid u io) t = managed_touch D U E n relid (Some io) (TableOp (RecordSchema u)) t"
  "tracker_step D U E n (StageTableProperties relid p io) t =
     managed_touch D U E n relid (Some io) (TableOp (RecordProperties p)) t"
  "tracker_step D U E n (PrepareLocalRebuild relid) t = register_table relid t"
  "tracker_step D U E n (RecordLocalRebuild relid io) t = managed_touch D U E n relid None (Rebuild io) t"
  "tracker_step D U E n (StageTruncate relid io row cid) t = (case row of
       Inr (Some l) \<Rightarrow> managed_touch D U E n relid (Some io) (TableOp (RecordTruncate l cid)) t | _ \<Rightarrow> t)"
  "tracker_step D U E n (StageDrop relid) t = managed_touch D U E n relid None (TableOp RecordDrop) t"
  "tracker_step D U E n (UseRowRegistry relid op) t = managed_touch D U E n relid None (UseRegistry op) t"
  subgoal by (simp add: stage_batch_def stage_touch [of _ n D U E "RecordBatch b"])
  subgoal by (simp add: stage_schema_update_def stage_touch [of _ n D U E "RecordSchema u"])
  subgoal by (simp add: stage_table_property_update_def stage_touch [of _ n D U E "RecordProperties p"])
  subgoal by (simp add: prepare_local_rebuild_def Let_def split: option.split)
  subgoal by (simp add: record_local_rebuild_def managed_touch_def touch_def Let_def)
  subgoal by (simp add: tracker_stage_truncate_def stage_touch [of _ n D U E "RecordTruncate _ cid"]
      split: sum.split option.split)
  subgoal by (simp add: drop_touch)
  subgoal by (simp add: registry_touch)
  done

lemma vacuum_touch:
  assumes "tracker_inv D n t"
  shows "tracker_step D U E n (StageVacuum relid e io) t =
     (if snd (tracker_at t (n + 1) relid) then register_table relid t
      else managed_touch D U E n relid (Some io) (TableOp (RecordExclusive e)) t)"
proof -
  obtain s where s: "map_of (tables (register_table relid t)) relid = Some s"
    using registered [of relid t] by blast
  have "managed_inv D n s"
    using register_table_laws(1) [OF assms, of relid] s by (auto simp: tracker_inv_def dest: map_of_SomeD)
  then have "was_rebuilt s \<longleftrightarrow> snd (managed_at s (n + 1))"
    using managed_at_top [of D n s "n + 1"] by (simp add: was_rebuilt_def)
  moreover have "managed_at s (n + 1) = tracker_at t (n + 1) relid"
    using register_table_laws(2) [of relid t "n + 1"] s by (metis option.simps(5) tracker_at_def)
  moreover have "snd (stage_table_mutation relid io (\<lambda>tx n. record_exclusive_action E n e tx) n (register_table relid t))
      = managed_touch D U E n relid (Some io) (TableOp (RecordExclusive e)) t"
    using stage_touch [of "\<lambda>tx n. record_exclusive_action E n e tx" n D U E "RecordExclusive e" relid io
        "register_table relid t"]
    by (simp add: managed_touch_def touch_registered)
  ultimately show ?thesis by (simp add: stage_vacuum_def Let_def s)
qed

section \<open>The savepoint contract\<close>

lemma tracker_inv_step:
  assumes "1 \<le> n" and "tracker_inv D n t"
  shows "tracker_inv D n (tracker_step D U E n op t)"
  by (cases op) (simp_all add: tracker_step_touch vacuum_touch [OF assms(2)] managed_touch_laws(1) [OF assms]
      register_table_laws(1) [OF assms(2)] assms(2) del: tracker_step.simps split: sum.split option.split)

lemma tracker_at_step_below:
  assumes "1 \<le> n" and "tracker_inv D n t" and "2 \<le> k" and "k \<le> n"
  shows "tracker_at (tracker_step D U E n op t) k = tracker_at t k"
  by (cases op) (simp_all add: tracker_step_touch vacuum_touch [OF assms(2)]
      managed_touch_laws(2) [OF assms] register_table_laws(2) del: tracker_step.simps
      split: sum.split option.split)

lemma spec_managed_TableOp:
  "spec_managed_op D U (TableOp op) v = (accept (spec_table_op D U) op (fst v), snd v)"
  "spec_managed_op D U (Rebuild io) v = ([], True)"
  by (cases v; simp)+

lemma tracker_at_step_top:
  assumes "1 \<le> n" and "tracker_inv D n t"
  shows "tracker_at (tracker_step D U E n op t) (n + 1) = spec_tracker_op D U op (tracker_at t (n + 1))"
  by (cases op) (simp_all add: tracker_step_touch vacuum_touch [OF assms(2)]
      managed_touch_laws(3) [OF assms] register_table_laws(2) spec_managed_TableOp
      del: tracker_step.simps spec_managed_op.simps(1,2) split: sum.split option.split)

lemma map_of_levels:
  "map_of (tables (tracker_promote_to_level n t)) r = map_option (managed_promote_to_level n) (map_of (tables t) r)"
  "map_of (tables (tracker_rollback_to_level n t)) r = map_option (managed_rollback_to_level n) (map_of (tables t) r)"
  by (simp_all add: tracker_promote_to_level_def tracker_rollback_to_level_def map_of_map)

lemma tracker_levels_inv:
  assumes "1 \<le> n" and "tracker_inv D (n + 1) t"
  shows "tracker_inv D n (tracker_promote_to_level (n + 1) t)"
    and "tracker_inv D n (tracker_rollback_to_level (n + 1) t)"
  using assms(2)
  by (auto simp: tracker_inv_def tracker_promote_to_level_def tracker_rollback_to_level_def
      intro!: managed.inv_release [OF assms(1)] managed.inv_abort [OF assms(1)])

interpretation tracker: savepoint_store "tracker_inv D" tracker_at "tracker_step D U E"
  on_commit_sub on_abort_sub "spec_tracker_op D U"
  for D :: "'d delta_api" and U :: "('u, 'm) schema_api" and E :: "'e exclusive_api"
proof
  fix n k :: nest_level and t :: "('d, 'v, 'u, 'fv, 'e, 'io) tx_metadata" and x
  assume n: "1 \<le> n"
  note defs = tracker_at_def map_of_levels on_commit_sub_def on_abort_sub_def fun_eq_iff
  have sub: "managed_inv D l s" if "tracker_inv D l t" "map_of (tables t) r = Some s" for l r s
    using that by (auto simp: tracker_inv_def dest!: map_of_SomeD)
  show "tracker_inv D n t \<Longrightarrow> tracker_inv D (n + 1) t"
    using managed.inv_deeper [OF n, of D] by (auto simp: tracker_inv_def)
  show "tracker_inv D n t \<Longrightarrow> tracker_inv D n (tracker_step D U E n x t)"
    by (rule tracker_inv_step [OF n])
  show "tracker_inv D (n + 1) t \<Longrightarrow> tracker_inv D n (on_commit_sub (n + 1) t)"
    unfolding on_commit_sub_def by (rule tracker_levels_inv [OF n])
  show "tracker_inv D (n + 1) t \<Longrightarrow> tracker_inv D n (on_abort_sub (n + 1) t)"
    unfolding on_abort_sub_def by (rule tracker_levels_inv [OF n])
  show "tracker_inv D n t \<Longrightarrow> n < k \<Longrightarrow> tracker_at t k = tracker_at t (n + 1)"
    using managed.at_top [OF n sub, of _ _ k] by (auto simp: defs split: option.split)
  show "tracker_inv D n t \<Longrightarrow> 2 \<le> k \<Longrightarrow> k \<le> n \<Longrightarrow> tracker_at (tracker_step D U E n x t) k = tracker_at t k"
    by (rule tracker_at_step_below [OF n])
  show "tracker_inv D n t \<Longrightarrow>
      tracker_at (tracker_step D U E n x t) (n + 1) = spec_tracker_op D U x (tracker_at t (n + 1))"
    by (rule tracker_at_step_top [OF n])
  show "tracker_inv D (n + 1) t \<Longrightarrow> 2 \<le> k \<Longrightarrow> k \<le> n \<Longrightarrow> tracker_at (on_commit_sub (n + 1) t) k = tracker_at t k"
    using managed.at_release_below [OF n sub, of _ _ k] by (auto simp: defs split: option.split)
  show "tracker_inv D (n + 1) t \<Longrightarrow> tracker_at (on_commit_sub (n + 1) t) (n + 1) = tracker_at t (n + 2)"
    using managed.at_release_top [OF n sub] by (auto simp: defs split: option.split)
  show "tracker_inv D (n + 1) t \<Longrightarrow> 2 \<le> k \<Longrightarrow> k \<le> n \<Longrightarrow> tracker_at (on_abort_sub (n + 1) t) k = tracker_at t k"
    using managed.at_abort_below [OF n sub, of _ _ k] by (auto simp: defs split: option.split)
  show "tracker_inv D (n + 1) t \<Longrightarrow> tracker_at (on_abort_sub (n + 1) t) (n + 1) = tracker_at t (n + 1)"
    using managed.at_abort_top [OF n sub] by (auto simp: defs split: option.split)
qed

section \<open>Staged work always has a FileIO\<close>

definition has_real :: "('d, 'v, 'u, 'fv, 'e, 'g) tx_table_action list \<Rightarrow> bool" where
  "has_real as = list_ex (\<lambda>a. case a of Drop \<Rightarrow> False | _ \<Rightarrow> True) as"

definition io_ok :: "('d, 'v, 'u, 'fv, 'e, 'io) managed_table_state \<Rightarrow> bool" where
  "io_ok s \<longleftrightarrow>
     (has_real (actions (tx_actions (transaction s))) \<longrightarrow> file_io s \<noteq> None)
   \<and> (\<forall>frame \<in> set (rebuild_history s).
        has_real (actions (tx_actions (rf_transaction frame))) \<longrightarrow> rf_file_io frame \<noteq> None)"

lemma has_real_take: "has_real (take n as) \<Longrightarrow> has_real as"
  by (auto simp: has_real_def list_ex_iff dest: in_set_takeD)

lemma has_real_map_last [simp]: "has_real (map_last_epoch f as) = has_real as"
proof (cases as rule: rev_cases)
  case (snoc pre a)
  then show ?thesis by (cases a) (auto simp: has_real_def map_last_epoch_def)
qed (simp add: map_last_epoch_def)

lemma has_real_truncate: "has_real (actions (log_truncate m log)) \<Longrightarrow> has_real (actions log)"
  by (auto simp: log_truncate_actions truncate_actions_eq dest: has_real_take split: option.splits)

lemma has_real_rollback:
  "has_real (actions (tx_actions (rollback_to_level n tx))) \<Longrightarrow> has_real (actions (tx_actions tx))"
proof (induction n tx rule: rollback_to_level.induct)
  case (1 n tx)
  then show ?case
    by (subst (asm) (2) rollback_to_level.simps) (auto simp: Let_def split: if_splits dest: has_real_truncate)
qed

lemma has_real_drop:
  "has_real (actions (tx_actions (snd (record_drop E n tx)))) \<Longrightarrow> has_real (actions (tx_actions tx))"
  by (auto simp: record_drop_def record_action_mutation_def record_history_def stage_drop_def Let_def
      has_real_def split: option.splits if_splits)

lemma io_ok_rollback: "io_ok s \<Longrightarrow> io_ok (managed_rollback_to_level n s)"
proof -
  have pop: "io_ok s \<Longrightarrow> io_ok (pop_rebuilds n s)" for s :: "('a, 'b, 'c, 'd, 'e, 'f) managed_table_state"
  proof (induction n s rule: pop_rebuilds.induct)
    case (1 n s)
    show ?case
    proof (cases "rebuild_history s \<noteq> [] \<and> n \<le> rf_nest_level (last (rebuild_history s))")
      case True
      let ?frame = "last (rebuild_history s)"
      have "io_ok (s \<lparr> rebuild_history := butlast (rebuild_history s),
          transaction := rollback_to_level n (rf_transaction ?frame), file_io := rf_file_io ?frame,
          rebuild_level := rf_previous_rebuild_level ?frame \<rparr>)"
        using "1.prems" True by (auto simp: io_ok_def dest: has_real_rollback in_set_butlastD)
      then show ?thesis using "1.IH" [OF True refl] True by (subst pop_rebuilds.simps) (simp add: Let_def)
    qed (use "1.prems" in \<open>subst pop_rebuilds.simps, auto\<close>)
  qed
  assume "io_ok s"
  then show ?thesis
    unfolding managed_rollback_to_level_def by (intro pop) (auto simp: io_ok_def dest: has_real_rollback)
qed

lemma io_ok_promote: "io_ok s \<Longrightarrow> io_ok (managed_promote_to_level n s)"
proof -
  have tx: "tx_actions (promote_to_level n t) = tx_actions t" for t :: "('a, 'b, 'c, 'd, 'e) managed_table_transaction"
    by (simp add: promote_to_level_def)
  have fr: "rf_transaction (promote_frame n frame) = promote_to_level n (rf_transaction frame)"
    "rf_file_io (promote_frame n frame) = rf_file_io frame" for frame :: "('a, 'b, 'c, 'd, 'e, 'f) rebuild_frame"
    by (simp_all add: promote_frame_def)
  assume ok: "io_ok s"
  have "has_real (actions (tx_actions (rf_transaction frame))) \<longrightarrow> rf_file_io frame \<noteq> None"
    if "frame \<in> set (rebuild_history (managed_promote_to_level n s))" for frame
    using dedup_subset [THEN subsetD, OF that [unfolded promote_history]] ok
    by (auto simp: io_ok_def fr tx)
  then show ?thesis using ok by (simp add: io_ok_def managed_promote_to_level_def tx)
qed

lemma io_ok_step:
  assumes "io_ok s" and "\<And>op'. op = TableOp op' \<Longrightarrow> op' = RecordDrop \<or> file_io s \<noteq> None"
  shows "io_ok (managed_step D U E n op s)"
proof (cases op)
  case (TableOp op')
  then show ?thesis
    using assms(1) assms(2) [OF TableOp] has_real_drop [of E n "transaction s"] by (auto simp: io_ok_def)
next
  case (Rebuild io)
  then show ?thesis
    using assms(1) by (auto simp: io_ok_def record_rebuild_def Let_def new_table_transaction_state_def
        log_default_def has_real_def)
qed (use assms(1) in \<open>simp add: io_ok_def\<close>)

definition tracker_io_ok :: "('d, 'v, 'u, 'fv, 'e, 'io) tx_metadata \<Rightarrow> bool" where
  "tracker_io_ok t \<longleftrightarrow> (\<forall>(r, s) \<in> set (tables t). io_ok s)"

lemma io_ok_new: "io_ok new_managed_table_state"
  by (simp add: io_ok_def new_managed_table_state_def new_table_transaction_state_def log_default_def has_real_def)

lemma io_ok_remember: "io_ok s \<Longrightarrow> io_ok (remember_io io s)" "file_io (remember_io io s) = None \<longleftrightarrow> False"
  by (auto simp: io_ok_def remember_io_def)

lemma tracker_io_register: "tracker_io_ok t \<Longrightarrow> tracker_io_ok (register_table relid t)"
  using io_ok_new by (auto simp: tracker_io_ok_def register_table_def)

lemma tracker_io_touch:
  assumes "tracker_io_ok t" and "\<And>s. io_ok s \<Longrightarrow> io_ok (f s)"
  shows "tracker_io_ok (touch relid f t)"
proof -
  let ?s = "the (map_of (tables (register_table relid t)) relid)"
  have "io_ok s'" if "(r, s') \<in> set (tables (register_table relid t))" for r s'
    using tracker_io_register [OF assms(1), of relid] that by (auto simp: tracker_io_ok_def)
  moreover have "(relid, ?s) \<in> set (tables (register_table relid t))"
    using registered [of relid t] by (auto dest: map_of_SomeD)
  ultimately show ?thesis
    using assms(2) by (auto simp: touch_def Let_def put_table_def tracker_io_ok_def)
qed

lemma tracker_io_managed_touch:
  assumes "tracker_io_ok t" and "\<And>op'. op = TableOp op' \<Longrightarrow> op' = RecordDrop \<or> io \<noteq> None"
  shows "tracker_io_ok (managed_touch D U E n relid io op t)"
  unfolding managed_touch_def
proof (rule tracker_io_touch [OF assms(1)])
  fix s :: "('a, 'b, 'c, 'd, 'e, 'f) managed_table_state"
  assume ok: "io_ok s"
  show "io_ok ((managed_step D U E n op \<circ> (case io of None \<Rightarrow> id | Some i \<Rightarrow> remember_io i)) s)"
    unfolding o_def
    by (rule io_ok_step) (use ok assms(2) in \<open>auto simp: io_ok_remember split: option.splits\<close>)
qed

lemma tracker_io_step:
  assumes "tracker_io_ok t"
  shows "tracker_io_ok (tracker_step D U E n op t)"
proof (cases op)
  case (StageVacuum relid e io)
  have "snd (stage_table_mutation relid io (\<lambda>tx n. record_exclusive_action E n e tx) n (register_table relid t))
      = managed_touch D U E n relid (Some io) (TableOp (RecordExclusive e)) (register_table relid t)"
    by (rule stage_touch) simp
  then show ?thesis
    by (simp add: StageVacuum stage_vacuum_def Let_def tracker_io_managed_touch tracker_io_register assms)
qed (use assms in \<open>auto simp: tracker_step_touch tracker_io_register simp del: tracker_step.simps
    split: sum.splits option.splits intro!: tracker_io_managed_touch\<close>)

lemma tracker_io_levels:
  assumes "tracker_io_ok t"
  shows "tracker_io_ok (on_commit_sub n t)" and "tracker_io_ok (on_abort_sub n t)"
  using assms
  by (auto simp: tracker_io_ok_def on_commit_sub_def on_abort_sub_def tracker_promote_to_level_def
      tracker_rollback_to_level_def intro!: io_ok_promote io_ok_rollback)

lemma tracker_io_execs:
  "tracker_io_ok t \<Longrightarrow> tracker_io_ok (tx_execs (tracker_step D U E) on_commit_sub on_abort_sub n ps t)"
  by (rule tx_exec_preserves(2)) (simp_all add: tracker_io_step tracker_io_levels)

section \<open>Properties\<close>

lemma tracker_default: "tracker_inv D n tx_metadata_default" "tracker_at tx_metadata_default k = (\<lambda>_. ([], False))"
  by (simp_all add: tracker_inv_def tracker_at_def tx_metadata_default_def fun_eq_iff)

lemma has_real_log: "\<not> log_is_empty U log \<Longrightarrow> \<not> is_dropped log \<Longrightarrow> has_real (actions log)"
  by (cases "actions log" rule: rev_cases)
    (auto simp: log_is_empty_def is_dropped_def has_real_def split: tx_table_action.splits)

text \<open>What a table of the tracker holds now.\<close>

definition tracker_view :: "('d, 'v, 'u, 'fv, 'e, 'io) tx_metadata \<Rightarrow> oid
    \<Rightarrow> ('d, 'v, 'u, 'fv, 'e, string) tx_table_action list \<times> bool" where
  "tracker_view t relid = (case map_of (tables t) relid of
       None \<Rightarrow> ([], False)
     | Some s \<Rightarrow> (plain (actions (tx_actions (transaction s))), was_rebuilt s))"

lemma tracker_view_at:
  assumes "tracker_inv D 1 t"
  shows "tracker_view t = tracker_at t 2"
proof
  fix relid
  have "managed_at s 2 = (plain (actions (tx_actions (transaction s))), was_rebuilt s)"
    if "map_of (tables t) relid = Some s" for s
  proof -
    have inv: "managed_inv D 1 s" using assms that by (auto simp: tracker_inv_def dest!: map_of_SomeD)
    obtain a where "table_refines D (transaction s) a" "stack_inv 1 a"
      using managed_transaction [OF inv] by (auto simp: table.refined_inv_def)
    then show ?thesis
      using managed_at_top [OF inv, of 2] refines_top(2) by (simp add: was_rebuilt_def)
  qed
  then show "tracker_view t relid = tracker_at t 2 relid"
    by (simp add: tracker_view_def tracker_at_def split: option.split)
qed

text \<open>
  C1. Savepoints of the metadata tracker: for every tree of nested subtransactions over any number
  of tables, with staging of batches, schema and property updates, truncations, drops, VACUUM, local
  rebuilds that replace a table's storage generation, and row-registry use at any depth, what the
  tracker holds for every relation at the end (the staged actions and whether it was rebuilt) is
  what the specification yields when rolled-back subtransactions never ran and released ones ran
  inline.
\<close>
theorem tracker_savepoints:
  "tracker_view (tx_execs (tracker_step D U E) on_commit_sub on_abort_sub 1 ps tx_metadata_default)
     = tx_specs (spec_tracker_op D U) ps (\<lambda>_. ([], False))"
  using tracker.execs_nested [OF _ tracker_default(1), of 1 D U E ps]
  by (subst tracker_view_at [of D]) (simp_all add: tracker_default(2))

text \<open>
  Commit input: after any tree of subtransactions, detaching a relation's commit input never
  fails for want of a \<open>FileIO\<close>; it yields nothing for an unknown relation, an empty log or a dropped
  table, and otherwise the relation's log with the \<open>FileIO\<close> remembered for it.
\<close>
lemma commit_input_total:
  "let t = tx_execs (tracker_step D U E) on_commit_sub on_abort_sub 1 ps tx_metadata_default in
   case map_of (tables t) relid of
     None \<Rightarrow> commit_input U relid t = Inr None
   | Some s \<Rightarrow>
       if log_is_empty U (tx_actions (transaction s)) \<or> is_dropped (tx_actions (transaction s))
       then commit_input U relid t = Inr None
       else \<exists>io. file_io s = Some io
              \<and> commit_input U relid t = Inr (Some \<lparr> input_actions = tx_actions (transaction s), input_file_io = io \<rparr>)"
proof -
  let ?t = "tx_execs (tracker_step D U E) on_commit_sub on_abort_sub 1 ps tx_metadata_default"
  have "tracker_io_ok ?t"
    by (rule tracker_io_execs) (simp add: tracker_io_ok_def tx_metadata_default_def)
  then have "io_ok s" if "map_of (tables ?t) relid = Some s" for s
    using that by (auto simp: tracker_io_ok_def dest!: map_of_SomeD)
  then show ?thesis
    by (auto simp: commit_input_def Let_def io_ok_def split: option.split dest: has_real_log)
qed

end
