(* ===== verification/Storage_Resources.thy ===== *)
theory Storage_Resources
  imports Savepoints
begin

text \<open>
  Files and objects created by a transaction (\<open>storage/transaction_resources.rs\<close>,
  \<open>transaction_resources/resource.rs\<close> and \<open>transaction_resources/registry.rs\<close>): what is tracked,
  who owns it, and what the end of a subtransaction, of a metadata materialization attempt or of
  the transaction does to it.

  The file system, the table \<open>FileIO\<close>, the object store and the warning channel are the outside
  world \<open>'w\<close>, reached through a record of functions. Object locations, file handles and storage
  services are type parameters \<open>'l\<close>, \<open>'io\<close>, \<open>'svc\<close>.
\<close>

section \<open>The outside world\<close>

text \<open>The result of a deletion: \<open>Ok\<close>, the error kind \<open>NotFound\<close>, any other error.\<close>

datatype removal = Removed | Missing | RemovalFailed string

record ('io, 'l, 'svc, 'w) storage_env =
  remove_file :: "string \<Rightarrow> 'w \<Rightarrow> removal \<times> 'w"
  remove_dir_all :: "'io \<Rightarrow> string \<Rightarrow> 'w \<Rightarrow> (string + unit) \<times> 'w"
  delete_object :: "'svc \<Rightarrow> 'l \<Rightarrow> 'w \<Rightarrow> removal \<times> 'w"
  report_warning :: "string \<Rightarrow> 'w \<Rightarrow> 'w"
  show_location :: "'l \<Rightarrow> string"

section \<open>One resource\<close>

datatype object_file_state = Staged | Uploaded

datatype ('io, 'l, 'svc) storage_resource =
    CreatedLocalFile string
  | CreatedTableDir string 'io
  | ObjectFile 'l string 'svc object_file_state

definition unlink_file :: "('io, 'l, 'svc, 'w) storage_env \<Rightarrow> string \<Rightarrow> 'w \<Rightarrow> bool \<times> 'w" where
  "unlink_file E path w = (case remove_file E path w of
       (Removed, w) \<Rightarrow> (True, w)
     | (Missing, w) \<Rightarrow> (True, w)
     | (RemovalFailed error, w) \<Rightarrow>
         (False, report_warning E (''failed to unlink '' @ quoted path @ '': '' @ error) w))"

fun resource_on_commit :: "('io, 'l, 'svc, 'w) storage_env \<Rightarrow> ('io, 'l, 'svc) storage_resource \<Rightarrow> 'w \<Rightarrow> 'w" where
  "resource_on_commit E (ObjectFile location staging_path service Uploaded) w =
     snd (unlink_file E staging_path w)"
| "resource_on_commit E (ObjectFile location staging_path service Staged) w =
     snd (unlink_file E staging_path
       (report_warning E (''committing staged object file '' @ quoted (show_location E location)
          @ '' before upload completed; removing staging file '' @ quoted staging_path) w))"
| "resource_on_commit E r w = w"

definition delete_uploaded :: "('io, 'l, 'svc, 'w) storage_env \<Rightarrow> 'svc \<Rightarrow> 'l \<Rightarrow> object_file_state
    \<Rightarrow> 'w \<Rightarrow> bool \<times> 'w" where
  "delete_uploaded E service location state w =
     (if state = Uploaded then
        (case delete_object E service location w of
           (Removed, w) \<Rightarrow> (True, w)
         | (Missing, w) \<Rightarrow> (True, w)
         | (RemovalFailed error, w) \<Rightarrow>
             (False, report_warning E (''failed to delete uploaded object '' @ quoted (show_location E location)
                @ '': '' @ error) w))
      else (True, w))"

fun resource_cleanup :: "('io, 'l, 'svc, 'w) storage_env \<Rightarrow> ('io, 'l, 'svc) storage_resource \<Rightarrow> 'w \<Rightarrow> bool \<times> 'w" where
  "resource_cleanup E (CreatedLocalFile path) w = unlink_file E path w"
| "resource_cleanup E (CreatedTableDir location io) w = (case remove_dir_all E io location w of
       (Inr _, w) \<Rightarrow> (True, w)
     | (Inl error, w) \<Rightarrow>
         (False, report_warning E (''failed to delete table directory '' @ quoted location @ '': '' @ error) w))"
| "resource_cleanup E (ObjectFile location staging_path service state) w =
     (let (remote_deleted, w) = delete_uploaded E service location state w;
          (staging_unlinked, w) = unlink_file E staging_path w
      in (remote_deleted \<and> staging_unlinked, w))"

text \<open>The resource comes back when it could not be removed.\<close>

definition resource_on_abort :: "('io, 'l, 'svc, 'w) storage_env \<Rightarrow> ('io, 'l, 'svc) storage_resource
    \<Rightarrow> 'w \<Rightarrow> ('io, 'l, 'svc) storage_resource option \<times> 'w" where
  "resource_on_abort E r w = (let (cleaned, w) = resource_cleanup E r w in (if cleaned then None else Some r, w))"

section \<open>The registry\<close>

type_synonym metadata_attempt_id = "32 word"

definition top_level_nest_level :: nest_level where "top_level_nest_level = 1"

record ('io, 'l, 'svc) tracked_resource =
  tr_nest_level :: nest_level
  tr_resource :: "('io, 'l, 'svc) storage_resource"

record ('io, 'l, 'svc) metadata_attempt_state =
  attempt_id :: metadata_attempt_id
  attempt_resources :: "('io, 'l, 'svc) storage_resource list"

record ('io, 'l, 'svc) metadata_resource_registry =
  active_attempt :: "('io, 'l, 'svc) metadata_attempt_state option"
  promoted :: "('io, 'l, 'svc) storage_resource list"
  cleanup_required :: "('io, 'l, 'svc) storage_resource list"
  next_attempt_id :: metadata_attempt_id

record ('io, 'l, 'svc) storage_resource_registry =
  storage_entries :: "('io, 'l, 'svc) tracked_resource list"
  metadata_registry :: "('io, 'l, 'svc) metadata_resource_registry"

definition new_metadata_registry :: "('io, 'l, 'svc) metadata_resource_registry" where
  "new_metadata_registry =
     \<lparr> active_attempt = None, promoted = [], cleanup_required = [], next_attempt_id = 1 \<rparr>"

definition new_storage_registry :: "('io, 'l, 'svc) storage_resource_registry" where
  "new_storage_registry = \<lparr> storage_entries = [], metadata_registry = new_metadata_registry \<rparr>"

definition begin_attempt :: "nest_level \<Rightarrow> ('io, 'l, 'svc) metadata_resource_registry
    \<Rightarrow> metadata_attempt_id iceberg_result \<times> ('io, 'l, 'svc) metadata_resource_registry" where
  "begin_attempt nest_level m =
     (if nest_level \<noteq> top_level_nest_level then
        (Inl (InvariantViolated ''metadata resource attempts require top-level transaction context''), m)
      else if active_attempt m \<noteq> None then
        (Inl (InvariantViolated ''metadata resource attempts cannot be nested''), m)
      else case checked_add_u32 (next_attempt_id m) 1 of
          None \<Rightarrow> (Inl (InvariantViolated ''metadata resource attempt id overflow''), m)
        | Some following \<Rightarrow>
            (Inr (next_attempt_id m),
             m \<lparr> next_attempt_id := following,
                 active_attempt := Some \<lparr> attempt_id = next_attempt_id m, attempt_resources = [] \<rparr> \<rparr>))"

definition take_attempt :: "metadata_attempt_id \<Rightarrow> ('io, 'l, 'svc) metadata_resource_registry
    \<Rightarrow> ('io, 'l, 'svc) storage_resource list iceberg_result \<times> ('io, 'l, 'svc) metadata_resource_registry" where
  "take_attempt i m = (case active_attempt m of
       None \<Rightarrow> (Inl (InvariantViolated ''metadata resource attempt is not active''), m)
     | Some attempt \<Rightarrow>
         if attempt_id attempt \<noteq> i
         then (Inl (InvariantViolated ''metadata resource attempt is not active''), m)
         else (Inr (attempt_resources attempt), m \<lparr> active_attempt := None \<rparr>))"

definition promote_attempt :: "metadata_attempt_id \<Rightarrow> ('io, 'l, 'svc) metadata_resource_registry
    \<Rightarrow> unit iceberg_result \<times> ('io, 'l, 'svc) metadata_resource_registry" where
  "promote_attempt i m = (case take_attempt i m of
       (Inl e, m) \<Rightarrow> (Inl e, m)
     | (Inr resources, m) \<Rightarrow> (Inr (), m \<lparr> promoted := promoted m @ resources \<rparr>))"

text \<open>Promoted resources, resources to clean up, and the emptied registry.\<close>

definition drain_metadata :: "('io, 'l, 'svc) metadata_resource_registry
    \<Rightarrow> ('io, 'l, 'svc) storage_resource list \<times> ('io, 'l, 'svc) storage_resource list" where
  "drain_metadata m =
     (promoted m, cleanup_required m @ (case active_attempt m of
        None \<Rightarrow> [] | Some active \<Rightarrow> rev (attempt_resources active)))"

definition track_resource :: "nest_level \<Rightarrow> ('io, 'l, 'svc) storage_resource
    \<Rightarrow> ('io, 'l, 'svc) storage_resource_registry \<Rightarrow> ('io, 'l, 'svc) storage_resource_registry" where
  "track_resource nest_level r reg = (case active_attempt (metadata_registry reg) of
       Some attempt \<Rightarrow> reg \<lparr> metadata_registry := metadata_registry reg \<lparr> active_attempt :=
           Some (attempt \<lparr> attempt_resources := attempt_resources attempt @ [r] \<rparr>) \<rparr> \<rparr>
     | None \<Rightarrow> reg \<lparr> storage_entries := storage_entries reg @ [\<lparr> tr_nest_level = nest_level, tr_resource = r \<rparr>] \<rparr>)"

text \<open>
  The resources a writer may finalize, in the order the registry searches them: those of the active
  attempt, then the transaction's. The update replaces the resource at one position of that order.
\<close>

definition current_write_resources :: "('io, 'l, 'svc) storage_resource_registry
    \<Rightarrow> ('io, 'l, 'svc) storage_resource list" where
  "current_write_resources reg =
     (case active_attempt (metadata_registry reg) of None \<Rightarrow> [] | Some attempt \<Rightarrow> attempt_resources attempt)
     @ map tr_resource (storage_entries reg)"

fun ensure_staged_in :: "('io, 'l, 'svc, 'w) storage_env \<Rightarrow> 'l \<Rightarrow> ('io, 'l, 'svc) storage_resource list
    \<Rightarrow> string + unit" where
  "ensure_staged_in E location [] = Inl (''no staged entry found for '' @ quoted (show_location E location)
     @ ''; finalize_write called without a prior writer() registration'')"
| "ensure_staged_in E location (ObjectFile tracked_location path service state # rs) =
     (if tracked_location = location then
        (case state of
           Staged \<Rightarrow> Inr ()
         | Uploaded \<Rightarrow> Inl (''object '' @ quoted (show_location E location)
             @ '' is already in Uploaded state; duplicate finalize_write?''))
      else ensure_staged_in E location rs)"
| "ensure_staged_in E location (_ # rs) = ensure_staged_in E location rs"

definition ensure_object_file_staged :: "('io, 'l, 'svc, 'w) storage_env \<Rightarrow> 'l
    \<Rightarrow> ('io, 'l, 'svc) storage_resource_registry \<Rightarrow> string + unit" where
  "ensure_object_file_staged E location reg = ensure_staged_in E location (current_write_resources reg)"

text \<open>\<open>mark_uploaded_in\<close> is the loop body over one sequence; \<open>None\<close> means the loop went past its end.\<close>

fun mark_uploaded_in :: "('io, 'l, 'svc, 'w) storage_env \<Rightarrow> 'l \<Rightarrow> ('io, 'l, 'svc) storage_resource list
    \<Rightarrow> (string + unit) option \<times> ('io, 'l, 'svc) storage_resource list" where
  "mark_uploaded_in E location [] = (None, [])"
| "mark_uploaded_in E location (ObjectFile tracked_location path service state # rs) =
     (if tracked_location = location then
        (if state = Staged then (Some (Inr ()), ObjectFile tracked_location path service Uploaded # rs)
         else (Some (Inl (''object '' @ quoted (show_location E location)
                @ '' is already Uploaded; state machine error'')),
               ObjectFile tracked_location path service state # rs))
      else let (res, rs') = mark_uploaded_in E location rs
           in (res, ObjectFile tracked_location path service state # rs'))"
| "mark_uploaded_in E location (r # rs) = (let (res, rs') = mark_uploaded_in E location rs in (res, r # rs'))"

definition mark_in_entries :: "('io, 'l, 'svc, 'w) storage_env \<Rightarrow> 'l
    \<Rightarrow> ('io, 'l, 'svc) storage_resource_registry
    \<Rightarrow> (string + unit) \<times> ('io, 'l, 'svc) storage_resource_registry" where
  "mark_in_entries E location reg =
     (case mark_uploaded_in E location (map tr_resource (storage_entries reg)) of
        (Some res, rs) \<Rightarrow>
          (res, reg \<lparr> storage_entries := map2 (\<lambda>e r. e \<lparr> tr_resource := r \<rparr>) (storage_entries reg) rs \<rparr>)
      | (None, rs) \<Rightarrow> (Inl (''no entry found for '' @ quoted (show_location E location)
                      @ '' during mark_uploaded''), reg))"

definition mark_object_file_uploaded :: "('io, 'l, 'svc, 'w) storage_env \<Rightarrow> 'l
    \<Rightarrow> ('io, 'l, 'svc) storage_resource_registry
    \<Rightarrow> (string + unit) \<times> ('io, 'l, 'svc) storage_resource_registry" where
  "mark_object_file_uploaded E location reg = (case active_attempt (metadata_registry reg) of
       None \<Rightarrow> mark_in_entries E location reg
     | Some attempt \<Rightarrow> (case mark_uploaded_in E location (attempt_resources attempt) of
           (Some res, rs) \<Rightarrow> (res, reg \<lparr> metadata_registry := metadata_registry reg
              \<lparr> active_attempt := Some (attempt \<lparr> attempt_resources := rs \<rparr>) \<rparr> \<rparr>)
         | (None, rs) \<Rightarrow> mark_in_entries E location reg))"

definition promote_subtransaction_resources :: "nest_level \<Rightarrow> ('io, 'l, 'svc) storage_resource_registry
    \<Rightarrow> ('io, 'l, 'svc) storage_resource_registry" where
  "promote_subtransaction_resources nest_level reg =
     reg \<lparr> storage_entries := map (\<lambda>e. if nest_level \<le> tr_nest_level e
         then e \<lparr> tr_nest_level := nest_level - 1 \<rparr> else e) (storage_entries reg) \<rparr>"

definition take_aborted_subtransaction_resources :: "nest_level \<Rightarrow> ('io, 'l, 'svc) storage_resource_registry
    \<Rightarrow> ('io, 'l, 'svc) tracked_resource list \<times> ('io, 'l, 'svc) storage_resource_registry" where
  "take_aborted_subtransaction_resources nest_level reg =
     (filter (\<lambda>e. nest_level \<le> tr_nest_level e) (storage_entries reg),
      reg \<lparr> storage_entries := filter (\<lambda>e. \<not> nest_level \<le> tr_nest_level e) (storage_entries reg) \<rparr>)"

section \<open>The transaction resource\<close>

text \<open>
  Running \<open>on_abort\<close> over a sequence of resources; the first component keeps those that could not be
  removed (\<open>filter_map\<close>).
\<close>

fun abort_all :: "('io, 'l, 'svc, 'w) storage_env \<Rightarrow> ('io, 'l, 'svc) storage_resource list \<Rightarrow> 'w
    \<Rightarrow> ('io, 'l, 'svc) storage_resource list \<times> 'w" where
  "abort_all E [] w = ([], w)"
| "abort_all E (r # rs) w =
     (let (kept, w) = resource_on_abort E r w;
          (rest, w) = abort_all E rs w
      in ((case kept of None \<Rightarrow> rest | Some r \<Rightarrow> r # rest), w))"

definition begin_metadata_attempt :: "nest_level \<Rightarrow> ('io, 'l, 'svc) storage_resource_registry
    \<Rightarrow> metadata_attempt_id iceberg_result \<times> ('io, 'l, 'svc) storage_resource_registry" where
  "begin_metadata_attempt nest_level reg =
     (let (res, m) = begin_attempt nest_level (metadata_registry reg) in (res, reg \<lparr> metadata_registry := m \<rparr>))"

definition promote_metadata_attempt :: "metadata_attempt_id \<Rightarrow> ('io, 'l, 'svc) storage_resource_registry
    \<Rightarrow> unit iceberg_result \<times> ('io, 'l, 'svc) storage_resource_registry" where
  "promote_metadata_attempt i reg =
     (let (res, m) = promote_attempt i (metadata_registry reg) in (res, reg \<lparr> metadata_registry := m \<rparr>))"

definition cleanup_metadata_attempt :: "('io, 'l, 'svc, 'w) storage_env \<Rightarrow> ('io, 'l, 'svc) storage_resource list
    \<Rightarrow> ('io, 'l, 'svc) storage_resource_registry \<Rightarrow> 'w \<Rightarrow> ('io, 'l, 'svc) storage_resource_registry \<times> 'w" where
  "cleanup_metadata_attempt E resources reg w =
     (let (required, w) = abort_all E (rev resources) w
      in (reg \<lparr> metadata_registry := metadata_registry reg
            \<lparr> cleanup_required := cleanup_required (metadata_registry reg) @ required \<rparr> \<rparr>, w))"

definition discard_metadata_attempt :: "('io, 'l, 'svc, 'w) storage_env \<Rightarrow> metadata_attempt_id
    \<Rightarrow> ('io, 'l, 'svc) storage_resource_registry \<Rightarrow> 'w
    \<Rightarrow> unit iceberg_result \<times> ('io, 'l, 'svc) storage_resource_registry \<times> 'w" where
  "discard_metadata_attempt E i reg w = (case take_attempt i (metadata_registry reg) of
       (Inl e, m) \<Rightarrow> (Inl e, reg, w)
     | (Inr resources, m) \<Rightarrow>
         (Inr (), cleanup_metadata_attempt E resources (reg \<lparr> metadata_registry := m \<rparr>) w))"

text \<open>
  The callbacks. \<open>None\<close> is the cleared \<open>CURRENT\<close> slot; the commit and abort callbacks drain the
  registry first.
\<close>

definition storage_on_commit :: "('io, 'l, 'svc, 'w) storage_env \<Rightarrow> ('io, 'l, 'svc) storage_resource_registry
    \<Rightarrow> 'w \<Rightarrow> ('io, 'l, 'svc) storage_resource_registry option \<times> 'w" where
  "storage_on_commit E reg w =
     (let (promoted_metadata, cleanup_metadata) = drain_metadata (metadata_registry reg);
          w = fold (resource_on_commit E) (map tr_resource (storage_entries reg) @ promoted_metadata) w
      in (None, snd (abort_all E cleanup_metadata w)))"

definition storage_on_abort :: "('io, 'l, 'svc, 'w) storage_env \<Rightarrow> ('io, 'l, 'svc) storage_resource_registry
    \<Rightarrow> 'w \<Rightarrow> ('io, 'l, 'svc) storage_resource_registry option \<times> 'w" where
  "storage_on_abort E reg w =
     (let (promoted_metadata, cleanup_metadata) = drain_metadata (metadata_registry reg)
      in (None, snd (abort_all E (map tr_resource (storage_entries reg) @ promoted_metadata @ cleanup_metadata) w)))"

definition storage_on_prepare :: "('io, 'l, 'svc) storage_resource_registry
    \<Rightarrow> ('io, 'l, 'svc) storage_resource_registry option" where
  "storage_on_prepare reg = None"

definition storage_on_commit_sub :: "nest_level \<Rightarrow> ('io, 'l, 'svc) storage_resource_registry
    \<Rightarrow> ('io, 'l, 'svc) storage_resource_registry" where
  "storage_on_commit_sub current_nest_level reg = promote_subtransaction_resources current_nest_level reg"

definition storage_on_abort_sub :: "('io, 'l, 'svc, 'w) storage_env \<Rightarrow> nest_level
    \<Rightarrow> ('io, 'l, 'svc) storage_resource_registry \<Rightarrow> 'w \<Rightarrow> ('io, 'l, 'svc) storage_resource_registry \<times> 'w" where
  "storage_on_abort_sub E current_nest_level reg w =
     (let (aborted, reg) = take_aborted_subtransaction_resources current_nest_level reg
      in (reg, snd (abort_all E (map tr_resource aborted) w)))"

end
