(* ===== verification/Storage_Lifecycle.thy ===== *)
theory Storage_Lifecycle
  imports Storage_Resources
begin

text \<open>
  What the storage registry guarantees over a whole transaction. A run interleaves writers that
  create files and upload objects, metadata attempts, and the ends of subtransactions; its
  environment is only known by the laws of its deletions. An abort leaves nothing behind that was
  not there before (unless the environment refused a deletion), a commit keeps what it committed,
  and the entries follow savepoints.
\<close>

section \<open>Artifacts and the laws of the environment\<close>

datatype ('io, 'l, 'svc) artifact = LocalFile string | TableDir 'io string | RemoteObject 'svc 'l

text \<open>
  What can be observed of the world: the artifacts that exist, those whose deletion the
  environment refused so far, and what a directory contains.
\<close>

record ('io, 'l, 'svc, 'w) storage_view =
  present :: "'w \<Rightarrow> ('io, 'l, 'svc) artifact set"
  refused :: "'w \<Rightarrow> ('io, 'l, 'svc) artifact set"
  within :: "'io \<Rightarrow> string \<Rightarrow> ('io, 'l, 'svc) artifact set"

definition deletes :: "('io, 'l, 'svc, 'w) storage_view \<Rightarrow> ('io, 'l, 'svc) artifact \<Rightarrow> removal \<Rightarrow> 'w \<Rightarrow> 'w \<Rightarrow> bool" where
  "deletes V a r w w' = (case r of
       RemovalFailed e \<Rightarrow> present V w' = present V w \<and> refused V w' = insert a (refused V w)
     | _ \<Rightarrow> present V w' = present V w - {a} \<and> refused V w' = refused V w)"

definition storage_laws :: "('io, 'l, 'svc, 'w) storage_env \<Rightarrow> ('io, 'l, 'svc, 'w) storage_view \<Rightarrow> bool" where
  "storage_laws E V \<longleftrightarrow>
     (\<forall>p w. deletes V (LocalFile p) (fst (remove_file E p w)) w (snd (remove_file E p w)))
   \<and> (\<forall>svc l w. deletes V (RemoteObject svc l) (fst (delete_object E svc l w)) w (snd (delete_object E svc l w)))
   \<and> (\<forall>io d w. let (r, w') = remove_dir_all E io d w in
        present V w' \<subseteq> present V w \<and> present V w - present V w' \<subseteq> within V io d
      \<and> (case r of Inr _ \<Rightarrow> TableDir io d \<notin> present V w' \<and> refused V w' = refused V w
          | Inl _ \<Rightarrow> refused V w' = insert (TableDir io d) (refused V w)))
   \<and> (\<forall>m w. present V (report_warning E m w) = present V w \<and> refused V (report_warning E m w) = refused V w)"

text \<open>What a resource stands for, and what removing it may take away.\<close>

fun artifacts :: "('io, 'l, 'svc) storage_resource \<Rightarrow> ('io, 'l, 'svc) artifact set" where
  "artifacts (CreatedLocalFile path) = {LocalFile path}"
| "artifacts (CreatedTableDir location io) = {TableDir io location}"
| "artifacts (ObjectFile location path service Staged) = {LocalFile path}"
| "artifacts (ObjectFile location path service Uploaded) = {LocalFile path, RemoteObject service location}"

fun staging :: "('io, 'l, 'svc) storage_resource \<Rightarrow> ('io, 'l, 'svc) artifact set" where
  "staging (ObjectFile location path service state) = {LocalFile path}"
| "staging r = {}"

fun removable :: "('io, 'l, 'svc, 'w) storage_view \<Rightarrow> ('io, 'l, 'svc) storage_resource \<Rightarrow> ('io, 'l, 'svc) artifact set" where
  "removable V (CreatedTableDir location io) = within V io location"
| "removable V r = artifacts r"

definition durable :: "('io, 'l, 'svc) storage_resource \<Rightarrow> ('io, 'l, 'svc) artifact set" where
  "durable r = artifacts r - staging r"

section \<open>Removing resources\<close>

text \<open>One step of the world that only deletes: what it may take away is bounded by \<open>D\<close>.\<close>

definition shrinks :: "('io, 'l, 'svc, 'w) storage_view \<Rightarrow> ('io, 'l, 'svc) artifact set \<Rightarrow> 'w \<Rightarrow> 'w \<Rightarrow> bool" where
  "shrinks V D w w' \<longleftrightarrow> present V w' \<subseteq> present V w \<and> present V w - present V w' \<subseteq> D \<and> refused V w \<subseteq> refused V w'"

lemma shrinks_refl [simp]: "shrinks V D w w"
  by (simp add: shrinks_def)

lemma shrinks_trans: "shrinks V D w w' \<Longrightarrow> shrinks V D' w' w'' \<Longrightarrow> shrinks V (D \<union> D') w w''"
  by (auto simp: shrinks_def)

lemma shrinks_mono: "shrinks V D w w' \<Longrightarrow> D \<subseteq> D' \<Longrightarrow> shrinks V D' w w'"
  by (auto simp: shrinks_def)

text \<open>\<open>gone V A w\<close>: nothing of \<open>A\<close> is left but what the environment refused to delete.\<close>

definition gone :: "('io, 'l, 'svc, 'w) storage_view \<Rightarrow> ('io, 'l, 'svc) artifact set \<Rightarrow> 'w \<Rightarrow> bool" where
  "gone V A w \<longleftrightarrow> A \<inter> present V w \<subseteq> refused V w"

lemma gone_shrinks: "gone V A w \<Longrightarrow> shrinks V D w w' \<Longrightarrow> gone V A w'"
  by (auto simp: gone_def shrinks_def)

lemma gone_Un: "gone V (A \<union> B) w \<longleftrightarrow> gone V A w \<and> gone V B w"
  by (auto simp: gone_def)

lemma gone_empty [simp]: "gone V {} w"
  by (simp add: gone_def)

lemma deletes_effect:
  "deletes V a r w w' \<Longrightarrow> shrinks V {a} w w' \<and> gone V {a} w'"
  by (cases r) (auto simp: deletes_def shrinks_def gone_def)

lemma storage_lawsD:
  assumes "storage_laws E V"
  shows "deletes V (LocalFile p) (fst (remove_file E p w)) w (snd (remove_file E p w))"
    and "deletes V (RemoteObject svc l) (fst (delete_object E svc l w)) w (snd (delete_object E svc l w))"
    and "present V (report_warning E m w) = present V w"
    and "refused V (report_warning E m w) = refused V w"
    and "remove_dir_all E io d w = (r, w') \<Longrightarrow>
        present V w' \<subseteq> present V w \<and> present V w - present V w' \<subseteq> within V io d
      \<and> (case r of Inr _ \<Rightarrow> TableDir io d \<notin> present V w' \<and> refused V w' = refused V w
          | Inl _ \<Rightarrow> refused V w' = insert (TableDir io d) (refused V w))"
  using assms by (auto simp: storage_laws_def Let_def split: prod.splits sum.splits)

lemma warning_effect [simp]:
  assumes "storage_laws E V"
  shows "shrinks V D w (report_warning E m w') = shrinks V D w w'"
    and "gone V A (report_warning E m w) = gone V A w"
  using assms by (simp_all add: storage_lawsD(3,4) shrinks_def gone_def)

lemma unlink_file_effect:
  assumes laws: "storage_laws E V"
  shows "shrinks V {LocalFile p} w (snd (unlink_file E p w)) \<and> gone V {LocalFile p} (snd (unlink_file E p w))"
  using deletes_effect [OF storage_lawsD(1) [OF laws, of p w]] laws
  by (auto simp: unlink_file_def split: prod.splits removal.splits)

lemma delete_uploaded_effect:
  assumes laws: "storage_laws E V"
  shows "shrinks V {RemoteObject svc l} w (snd (delete_uploaded E svc l Uploaded w))
    \<and> gone V {RemoteObject svc l} (snd (delete_uploaded E svc l Uploaded w))"
  using deletes_effect [OF storage_lawsD(2) [OF laws, of svc l w]] laws
  by (auto simp: delete_uploaded_def split: prod.splits removal.splits)

lemma remove_dir_effect:
  assumes laws: "storage_laws E V"
  shows "shrinks V (within V io d) w (snd (resource_cleanup E (CreatedTableDir d io) w))
    \<and> gone V {TableDir io d} (snd (resource_cleanup E (CreatedTableDir d io) w))"
proof (cases "remove_dir_all E io d w")
  case (Pair r w1)
  then have "shrinks V (within V io d) w w1 \<and> gone V {TableDir io d} w1"
    using storage_lawsD(5) [OF laws Pair] by (cases r) (auto simp: shrinks_def gone_def)
  then show ?thesis using laws by (cases r) (simp_all add: Pair)
qed

lemma cleanup_effect:
  assumes laws: "storage_laws E V"
  shows "shrinks V (removable V r) w (snd (resource_cleanup E r w)) \<and> gone V (artifacts r) (snd (resource_cleanup E r w))"
proof (cases r)
  case (CreatedLocalFile p)
  then show ?thesis using unlink_file_effect [OF laws] by simp
next
  case (CreatedTableDir d io)
  then show ?thesis using remove_dir_effect [OF laws, of io d w] by simp
next
  case (ObjectFile l p svc st)
  define w1 where "w1 = snd (delete_uploaded E svc l st w)"
  have w1: "snd (resource_cleanup E r w) = snd (unlink_file E p w1)"
    by (simp add: ObjectFile w1_def split_beta Let_def)
  have one: "shrinks V (removable V r) w w1 \<and> gone V (artifacts r - {LocalFile p}) w1"
  proof (cases st)
    case Staged
    then show ?thesis by (simp add: ObjectFile w1_def delete_uploaded_def)
  next
    case Uploaded
    then have "shrinks V {RemoteObject svc l} w w1 \<and> gone V {RemoteObject svc l} w1"
      using delete_uploaded_effect [OF laws] by (simp add: w1_def)
    then show ?thesis
      by (auto simp: Uploaded ObjectFile gone_def elim!: shrinks_mono)
  qed
  note two = unlink_file_effect [OF laws, of p w1]
  have "shrinks V (removable V r) w (snd (unlink_file E p w1))"
    using shrinks_trans [OF one [THEN conjunct1] two [THEN conjunct1]]
    by (rule shrinks_mono) (cases st, auto simp: ObjectFile)
  moreover have "gone V (artifacts r) (snd (unlink_file E p w1))"
    using gone_shrinks [OF one [THEN conjunct2] two [THEN conjunct1]] two [THEN conjunct2]
    by (auto simp: gone_def)
  ultimately show ?thesis by (simp add: w1)
qed

lemma abort_all_effect:
  assumes laws: "storage_laws E V"
  shows "shrinks V (\<Union>(removable V ` set rs)) w (snd (abort_all E rs w))
    \<and> gone V (\<Union>(artifacts ` set rs)) (snd (abort_all E rs w))"
proof (induction rs arbitrary: w)
  case Nil
  then show ?case by simp
next
  case (Cons r rs)
  let ?w = "snd (resource_on_abort E r w)"
  have w: "?w = snd (resource_cleanup E r w)"
    by (simp add: resource_on_abort_def split_beta Let_def)
  have eq: "snd (abort_all E (r # rs) w) = snd (abort_all E rs ?w)"
    by (simp add: split_beta Let_def)
  note one = cleanup_effect [OF laws, of r w, folded w] and rest = Cons.IH [of ?w]
  have "shrinks V (removable V r \<union> \<Union>(removable V ` set rs)) w (snd (abort_all E rs ?w))"
    by (rule shrinks_trans [OF conjunct1 [OF one] conjunct1 [OF rest]])
  moreover have "gone V (artifacts r) (snd (abort_all E rs ?w))"
    by (rule gone_shrinks [OF conjunct2 [OF one] conjunct1 [OF rest]])
  ultimately show ?case unfolding eq using rest by (simp add: gone_Un)
qed

lemma commit_all_effect:
  assumes laws: "storage_laws E V"
  shows "shrinks V (\<Union>(staging ` set rs)) w (fold (resource_on_commit E) rs w)
    \<and> gone V (\<Union>(staging ` set rs)) (fold (resource_on_commit E) rs w)"
proof (induction rs arbitrary: w)
  case Nil
  then show ?case by simp
next
  case (Cons r rs)
  let ?w = "resource_on_commit E r w"
  have one: "shrinks V (staging r) w ?w \<and> gone V (staging r) ?w"
  proof (cases "(E, r, w)" rule: resource_on_commit.cases)
    case (2 E' l p svc w')
    have "shrinks V {LocalFile p} (report_warning E m w) (snd (unlink_file E p (report_warning E m w)))
        \<Longrightarrow> shrinks V {LocalFile p} w (snd (unlink_file E p (report_warning E m w)))" for m
      using laws by (simp add: shrinks_def storage_lawsD(3,4))
    with 2 unlink_file_effect [OF laws] show ?thesis by simp
  qed (use unlink_file_effect [OF laws] in simp_all)
  note rest = Cons.IH [of ?w]
  have "shrinks V (staging r \<union> \<Union>(staging ` set rs)) w (fold (resource_on_commit E) rs ?w)"
    by (rule shrinks_trans [OF conjunct1 [OF one] conjunct1 [OF rest]])
  moreover have "gone V (staging r) (fold (resource_on_commit E) rs ?w)"
    by (rule gone_shrinks [OF conjunct2 [OF one] conjunct1 [OF rest]])
  ultimately show ?case using rest by (simp add: gone_Un)
qed

section \<open>What the registry holds\<close>

definition metadata_held :: "('io, 'l, 'svc) metadata_resource_registry \<Rightarrow> ('io, 'l, 'svc) storage_resource list" where
  "metadata_held m = fst (drain_metadata m) @ snd (drain_metadata m)"

definition held :: "('io, 'l, 'svc) storage_resource_registry \<Rightarrow> ('io, 'l, 'svc) storage_resource list" where
  "held reg = map tr_resource (storage_entries reg) @ metadata_held (metadata_registry reg)"

definition held_artifacts :: "('io, 'l, 'svc) storage_resource_registry \<Rightarrow> ('io, 'l, 'svc) artifact set" where
  "held_artifacts reg = \<Union>(artifacts ` set (held reg))"

lemmas held_defs = held_artifacts_def held_def metadata_held_def drain_metadata_def

lemma held_new [simp]: "held_artifacts new_storage_registry = {}"
  by (simp add: held_defs new_storage_registry_def new_metadata_registry_def)

lemma held_track: "held_artifacts (track_resource n r reg) = held_artifacts reg \<union> artifacts r"
  by (auto simp: held_defs track_resource_def split: option.splits)

lemma held_begin: "held_artifacts (snd (begin_metadata_attempt n reg)) = held_artifacts reg"
  by (auto simp: held_defs begin_metadata_attempt_def begin_attempt_def split: option.splits prod.splits if_splits)

lemma take_attempt_Inr:
  assumes "take_attempt i m = (Inr rs, m')"
  shows "set (metadata_held m) = set rs \<union> set (metadata_held m')"
  using assms
  by (auto simp: metadata_held_def drain_metadata_def take_attempt_def split: option.splits if_splits)

lemma held_promote: "held_artifacts (snd (promote_metadata_attempt i reg)) = held_artifacts reg"
proof -
  have "set (metadata_held (snd (promote_attempt i m))) = set (metadata_held m)" for m :: "('a, 'b, 'c) metadata_resource_registry"
  proof (cases "take_attempt i m")
    case (Pair res m')
    show ?thesis
    proof (cases res)
      case (Inl e)
      then show ?thesis using Pair
        by (auto simp: promote_attempt_def take_attempt_def split: option.splits if_splits)
    next
      case (Inr rs)
      then have "set (metadata_held (snd (promote_attempt i m))) = set rs \<union> set (metadata_held m')"
        using Pair by (auto simp: promote_attempt_def metadata_held_def drain_metadata_def split: option.splits)
      then show ?thesis using take_attempt_Inr [of i m rs m'] Pair Inr by simp
    qed
  qed
  then show ?thesis
    by (simp add: held_artifacts_def held_def promote_metadata_attempt_def split_beta Let_def)
qed

lemma held_release: "held_artifacts (promote_subtransaction_resources n reg) = held_artifacts reg"
  by (simp add: held_artifacts_def held_def promote_subtransaction_resources_def image_image if_distrib comp_def cong: if_cong)

lemma held_take_aborted:
  "held_artifacts reg = held_artifacts (snd (take_aborted_subtransaction_resources n reg))
     \<union> \<Union>(artifacts ` tr_resource ` set (fst (take_aborted_subtransaction_resources n reg)))"
  by (auto simp: held_artifacts_def held_def take_aborted_subtransaction_resources_def)

text \<open>The object file an upload refers to: the first one with its location.\<close>

fun object_at :: "'l \<Rightarrow> ('io, 'l, 'svc) storage_resource \<Rightarrow> bool" where
  "object_at location (ObjectFile tracked_location path service state) = (tracked_location = location)"
| "object_at location r = False"

fun uploaded :: "('io, 'l, 'svc) storage_resource \<Rightarrow> ('io, 'l, 'svc) storage_resource" where
  "uploaded (ObjectFile location path service state) = ObjectFile location path service Uploaded"
| "uploaded r = r"

fun is_staged :: "('io, 'l, 'svc) storage_resource \<Rightarrow> bool" where
  "is_staged (ObjectFile location path service state) = (state = Staged)"
| "is_staged r = False"

lemma mark_uploaded_in_unfold:
  "mark_uploaded_in E l rs = (case dropWhile (\<lambda>r. \<not> object_at l r) rs of
       [] \<Rightarrow> (None, rs)
     | r # bs \<Rightarrow>
         if is_staged r then (Some (Inr ()), takeWhile (\<lambda>r. \<not> object_at l r) rs @ uploaded r # bs)
         else (Some (Inl (''object '' @ quoted (show_location E l) @ '' is already Uploaded; state machine error'')), rs))"
  by (induction E l rs rule: mark_uploaded_in.induct) (auto simp: Let_def simp del: dropWhile_eq_Nil_conv split: list.splits)

lemma ensure_staged_in_unfold:
  "ensure_staged_in E l rs = Inr () \<longleftrightarrow>
     (\<exists>r bs. dropWhile (\<lambda>r. \<not> object_at l r) rs = r # bs \<and> is_staged r)"
proof (induction E l rs rule: ensure_staged_in.induct)
  case (2 E l l' p svc st rs)
  then show ?case by (cases st) auto
qed auto

lemma mark_uploaded_in_Inr:
  assumes "mark_uploaded_in E l rs = (Some (Inr ()), rs')"
  shows "\<exists>as p svc bs. rs = as @ ObjectFile l p svc Staged # bs \<and> (\<forall>a \<in> set as. \<not> object_at l a)
    \<and> rs' = as @ ObjectFile l p svc Uploaded # bs"
proof -
  obtain r bs where r: "dropWhile (\<lambda>r. \<not> object_at l r) rs = r # bs" "is_staged r"
      "rs' = takeWhile (\<lambda>r. \<not> object_at l r) rs @ uploaded r # bs"
    using assms by (auto simp: mark_uploaded_in_unfold split: list.splits if_splits)
  have "object_at l r" using hd_dropWhile [of "\<lambda>r. \<not> object_at l r" rs] r(1) by simp
  with r(2) obtain p svc where "r = ObjectFile l p svc Staged" by (cases r) auto
  then show ?thesis using r takeWhile_dropWhile_id [of "\<lambda>r. \<not> object_at l r" rs]
    by (intro exI [of _ "takeWhile (\<lambda>r. \<not> object_at l r) rs"] exI [of _ p] exI [of _ svc] exI [of _ bs])
      (auto dest: set_takeWhileD)
qed

lemma held_current:
  "set (held reg) = set (current_write_resources reg)
     \<union> set (promoted (metadata_registry reg)) \<union> set (cleanup_required (metadata_registry reg))"
  by (auto simp: held_def metadata_held_def drain_metadata_def current_write_resources_def split: option.splits)

lemma map2_resources:
  "length rs = length es \<Longrightarrow> map tr_resource (map2 (\<lambda>e r. e \<lparr> tr_resource := r \<rparr>) es rs) = rs"
  "length rs = length es \<Longrightarrow> map tr_nest_level (map2 (\<lambda>e r. e \<lparr> tr_resource := r \<rparr>) es rs) = map tr_nest_level es"
  by (induction rs es rule: list_induct2) auto

lemma map2_same [simp]: "map2 (\<lambda>e r. e \<lparr> tr_resource := r \<rparr>) es (map tr_resource es) = es"
  by (induction es) auto

lemma mark_Inr:
  assumes "mark_object_file_uploaded E l reg = (Inr (), reg')"
  shows "\<exists>as p svc bs. current_write_resources reg = as @ ObjectFile l p svc Staged # bs
    \<and> (\<forall>a \<in> set as. \<not> object_at l a)
    \<and> current_write_resources reg' = as @ ObjectFile l p svc Uploaded # bs
    \<and> promoted (metadata_registry reg') = promoted (metadata_registry reg)
    \<and> cleanup_required (metadata_registry reg') = cleanup_required (metadata_registry reg)
    \<and> map tr_nest_level (storage_entries reg') = map tr_nest_level (storage_entries reg)"
proof -
  let ?at = "case active_attempt (metadata_registry reg) of None \<Rightarrow> [] | Some a \<Rightarrow> attempt_resources a"
  have entries: ?thesis
    if m: "mark_in_entries E l reg = (Inr (), reg')" and none: "\<forall>a \<in> set ?at. \<not> object_at l a"
  proof -
    obtain rs where rs: "mark_uploaded_in E l (map tr_resource (storage_entries reg)) = (Some (Inr ()), rs)"
        "reg' = reg \<lparr> storage_entries := map2 (\<lambda>e r. e \<lparr> tr_resource := r \<rparr>) (storage_entries reg) rs \<rparr>"
      using m by (auto simp: mark_in_entries_def split: prod.splits option.splits)
    from mark_uploaded_in_Inr [OF this(1)] obtain as p svc bs
      where split: "map tr_resource (storage_entries reg) = as @ ObjectFile l p svc Staged # bs"
        "\<forall>a \<in> set as. \<not> object_at l a" "rs = as @ ObjectFile l p svc Uploaded # bs" by auto
    have len: "length rs = length (storage_entries reg)"
      using arg_cong [OF split(1), of length] split(3) by simp
    show ?thesis
      using split none rs(2) map2_resources [OF len]
      by (intro exI [of _ "?at @ as"] exI [of _ p] exI [of _ svc] exI [of _ bs])
        (auto simp: current_write_resources_def split: option.splits)
  qed
  show ?thesis
  proof (cases "active_attempt (metadata_registry reg)")
    case None
    then show ?thesis using assms entries by (simp add: mark_object_file_uploaded_def)
  next
    case (Some a)
    show ?thesis
    proof (cases "mark_uploaded_in E l (attempt_resources a)")
      case (Pair found rs)
      show ?thesis
      proof (cases found)
        case None
        then have "dropWhile (\<lambda>r. \<not> object_at l r) (attempt_resources a) = []"
          using Pair by (auto simp: mark_uploaded_in_unfold simp del: dropWhile_eq_Nil_conv split: list.splits if_splits)
        then show ?thesis using assms entries Some None Pair by (simp add: mark_object_file_uploaded_def)
      next
        case (Some res)
        with assms Pair \<open>active_attempt (metadata_registry reg) = Some a\<close>
        have reg': "res = Inr ()" "reg' = reg \<lparr> metadata_registry := metadata_registry reg
              \<lparr> active_attempt := Some (a \<lparr> attempt_resources := rs \<rparr>) \<rparr> \<rparr>"
          by (simp_all add: mark_object_file_uploaded_def)
        with Pair Some obtain as p svc bs
          where "attempt_resources a = as @ ObjectFile l p svc Staged # bs"
            "\<forall>a \<in> set as. \<not> object_at l a" "rs = as @ ObjectFile l p svc Uploaded # bs"
          using mark_uploaded_in_Inr [of E l "attempt_resources a" rs] by auto
        then show ?thesis using reg'(2) \<open>active_attempt (metadata_registry reg) = Some a\<close>
          by (intro exI [of _ as] exI [of _ p] exI [of _ svc]
                exI [of _ "bs @ map tr_resource (storage_entries reg)"])
            (simp add: current_write_resources_def)
      qed
    qed
  qed
qed

lemma held_mark:
  assumes "mark_object_file_uploaded E l reg = (Inr (), reg')"
    and "find (object_at l) (current_write_resources reg) = Some (ObjectFile l p svc st)"
  shows "held_artifacts reg' = insert (RemoteObject svc l) (held_artifacts reg)"
proof -
  from mark_Inr [OF assms(1)] obtain as q s bs
    where m: "current_write_resources reg = as @ ObjectFile l q s Staged # bs"
      "\<forall>a \<in> set as. \<not> object_at l a"
      "current_write_resources reg' = as @ ObjectFile l q s Uploaded # bs"
      "promoted (metadata_registry reg') = promoted (metadata_registry reg)"
      "cleanup_required (metadata_registry reg') = cleanup_required (metadata_registry reg)"
    by auto
  have "find (object_at l) (as @ ObjectFile l q s Staged # bs) = Some (ObjectFile l q s Staged)"
    using m(2) by (induction as) auto
  then have "s = svc" using assms(2) m(1) by simp
  then show ?thesis using m(1,3-5) by (auto simp: held_artifacts_def held_current)
qed

section \<open>Runs of a transaction\<close>

text \<open>
  \<open>storage_run E V w0 n reg w\<close>: starting with an empty registry in world \<open>w0\<close>, the transaction can
  be at nesting level \<open>n\<close> with registry \<open>reg\<close> in world \<open>w\<close>. A writer makes at most the artifacts of
  the resource it registers; an upload makes at most the remote object of the file it finalizes.
  A dropped attempt is a discarded one.
\<close>

inductive storage_run :: "('io, 'l, 'svc, 'w) storage_env \<Rightarrow> ('io, 'l, 'svc, 'w) storage_view \<Rightarrow> 'w
    \<Rightarrow> nest_level \<Rightarrow> ('io, 'l, 'svc) storage_resource_registry \<Rightarrow> 'w \<Rightarrow> bool"
  for E V w0 where
  run_start: "storage_run E V w0 1 new_storage_registry w0"
| run_create: "storage_run E V w0 n reg w \<Longrightarrow> present V w' \<subseteq> present V w \<union> artifacts r \<Longrightarrow>
    refused V w \<subseteq> refused V w' \<Longrightarrow> storage_run E V w0 n (track_resource n r reg) w'"
| run_upload: "storage_run E V w0 n reg w \<Longrightarrow> ensure_object_file_staged E l reg = Inr () \<Longrightarrow>
    find (object_at l) (current_write_resources reg) = Some (ObjectFile l p svc st) \<Longrightarrow>
    present V w' \<subseteq> insert (RemoteObject svc l) (present V w) \<Longrightarrow> refused V w \<subseteq> refused V w' \<Longrightarrow>
    mark_object_file_uploaded E l reg = (Inr (), reg') \<Longrightarrow> storage_run E V w0 n reg' w'"
| run_begin: "storage_run E V w0 n reg w \<Longrightarrow> begin_metadata_attempt n reg = (res, reg') \<Longrightarrow>
    storage_run E V w0 n reg' w"
| run_promote: "storage_run E V w0 n reg w \<Longrightarrow> promote_metadata_attempt i reg = (res, reg') \<Longrightarrow>
    storage_run E V w0 n reg' w"
| run_discard: "storage_run E V w0 n reg w \<Longrightarrow> discard_metadata_attempt E i reg w = (res, reg', w') \<Longrightarrow>
    storage_run E V w0 n reg' w'"
| run_savepoint: "storage_run E V w0 n reg w \<Longrightarrow> storage_run E V w0 (n + 1) reg w"
| run_release: "storage_run E V w0 n reg w \<Longrightarrow> 1 < n \<Longrightarrow>
    storage_run E V w0 (n - 1) (storage_on_commit_sub n reg) w"
| run_rollback: "storage_run E V w0 n reg w \<Longrightarrow> 1 < n \<Longrightarrow> storage_on_abort_sub E n reg w = (reg', w') \<Longrightarrow>
    storage_run E V w0 (n - 1) reg' w'"

text \<open>Everything that exists was there before, is tracked, or was refused deletion.\<close>

definition accounted :: "('io, 'l, 'svc, 'w) storage_view \<Rightarrow> 'w \<Rightarrow> ('io, 'l, 'svc) artifact set \<Rightarrow> 'w \<Rightarrow> bool" where
  "accounted V w0 A w \<longleftrightarrow> present V w \<subseteq> present V w0 \<union> A \<union> refused V w"

lemma accounted_drop:
  assumes "accounted V w0 (A \<union> B) w" "shrinks V D w w'" "gone V B w'"
  shows "accounted V w0 A w'"
  using assms by (auto simp: accounted_def shrinks_def gone_def)

lemma storage_on_abort_sub_accounted:
  assumes "storage_laws E V" "accounted V w0 (held_artifacts reg) w"
    and "storage_on_abort_sub E n reg w = (reg', w')"
  shows "accounted V w0 (held_artifacts reg') w'"
proof -
  obtain ab reg1 where t: "take_aborted_subtransaction_resources n reg = (ab, reg1)" by fastforce
  with assms(3) have r: "reg' = reg1" "w' = snd (abort_all E (map tr_resource ab) w)"
    by (simp_all add: storage_on_abort_sub_def)
  have "accounted V w0 (held_artifacts reg' \<union> \<Union>(artifacts ` set (map tr_resource ab))) w"
    using assms(2) held_take_aborted [of reg n] t r(1) by simp
  then show ?thesis
    using abort_all_effect [OF assms(1), of "map tr_resource ab" w] r(2) by (blast intro: accounted_drop)
qed

lemma discard_accounted:
  assumes laws: "storage_laws E V" and acc: "accounted V w0 (held_artifacts reg) w"
    and d: "discard_metadata_attempt E i reg w = (res, reg', w')"
  shows "accounted V w0 (held_artifacts reg') w'"
proof (cases "take_attempt i (metadata_registry reg)")
  case (Pair r m)
  show ?thesis
  proof (cases r)
    case (Inl e)
    then show ?thesis using Pair acc d by (simp add: discard_metadata_attempt_def)
  next
    case (Inr rs)
    let ?reg = "reg \<lparr> metadata_registry := m \<rparr>"
    have w': "w' = snd (abort_all E (rev rs) w)"
      and "reg' = reg \<lparr> metadata_registry := m \<lparr> cleanup_required := cleanup_required m @ fst (abort_all E (rev rs) w) \<rparr> \<rparr>"
      using Pair Inr d
      by (simp_all add: discard_metadata_attempt_def cleanup_metadata_attempt_def split_beta Let_def)
    then have "set (held ?reg) \<subseteq> set (held reg')"
      unfolding held_current by (auto simp: current_write_resources_def)
    then have reg': "held_artifacts ?reg \<subseteq> held_artifacts reg'"
      unfolding held_artifacts_def by blast
    have "held_artifacts reg = held_artifacts ?reg \<union> \<Union>(artifacts ` set (rev rs))"
      using take_attempt_Inr [OF Pair [unfolded Inr]] by (auto simp: held_artifacts_def held_def)
    then have "accounted V w0 (held_artifacts ?reg) w'"
      using abort_all_effect [OF laws, of "rev rs" w] acc w' by (auto intro: accounted_drop)
    then show ?thesis using reg' by (auto simp: accounted_def)
  qed
qed

lemma storage_run_accounted:
  assumes laws: "storage_laws E V" and run: "storage_run E V w0 n reg w"
  shows "accounted V w0 (held_artifacts reg) w"
  using run
proof induction
  case (run_create n reg w w' r)
  then show ?case by (auto simp: accounted_def held_track)
next
  case (run_upload n reg w l p svc st w' reg')
  then show ?case using held_mark [OF run_upload.hyps(6,3)] by (auto simp: accounted_def)
next
  case (run_begin n reg w res reg')
  then show ?case using held_begin [of n reg] by simp
next
  case (run_promote n reg w i res reg')
  then show ?case using held_promote [of i reg] by simp
next
  case (run_release n reg w)
  then show ?case by (simp add: storage_on_commit_sub_def held_release)
next
  case (run_discard n reg w i res reg' w')
  then show ?case by (blast intro: discard_accounted [OF laws])
next
  case (run_rollback n reg w reg' w')
  then show ?case by (blast intro: storage_on_abort_sub_accounted [OF laws])
qed (auto simp: accounted_def)

section \<open>The guarantees\<close>

lemma left_over:
  "P' \<subseteq> P \<Longrightarrow> P \<subseteq> P0 \<union> A \<union> B \<union> F \<Longrightarrow> A \<subseteq> C \<union> S \<Longrightarrow> P' \<inter> (S \<union> B) \<subseteq> F' \<Longrightarrow> F \<subseteq> F' \<Longrightarrow>
    P' \<subseteq> P0 \<union> C \<union> F'"
  by blast

text \<open>
  C4. A transaction that aborts leaves nothing behind: after any interleaving of writers, uploads,
  metadata attempts and nested subtransactions, the top-level abort removes every file, directory and
  uploaded object the transaction created. What exists afterwards existed before the transaction,
  or the environment refused to delete it.
\<close>
theorem abort_leaves_nothing:
  assumes "storage_laws E V" and "storage_run E V w0 n reg w"
  shows "fst (storage_on_abort E reg w) = None
    \<and> present V (snd (storage_on_abort E reg w)) \<subseteq> present V w0 \<union> refused V (snd (storage_on_abort E reg w))"
proof -
  have "snd (storage_on_abort E reg w) = snd (abort_all E (held reg) w)"
    by (simp add: storage_on_abort_def held_def metadata_held_def split_beta Let_def)
  moreover have "accounted V w0 ({} \<union> \<Union>(artifacts ` set (held reg))) w"
    using storage_run_accounted [OF assms] by (simp add: held_artifacts_def)
  ultimately have "accounted V w0 {} (snd (storage_on_abort E reg w))"
    using abort_all_effect [OF assms(1), of "held reg" w] accounted_drop by metis
  then show ?thesis by (simp add: accounted_def storage_on_abort_def split_beta Let_def)
qed

text \<open>
  C12. A transaction that commits keeps its data and drops its scaffolding: what the commit takes away
  is staging files of its own objects and the leavings of rejected metadata attempts, and what the
  transaction adds to the world is the files, directories and uploaded objects of the resources it
  tracked or promoted.
\<close>
theorem commit_keeps_data:
  assumes laws: "storage_laws E V" and "storage_run E V w0 n reg w"
  defines "committed \<equiv> map tr_resource (storage_entries reg) @ promoted (metadata_registry reg)"
    and "rejected \<equiv> snd (drain_metadata (metadata_registry reg))"
    and "w' \<equiv> snd (storage_on_commit E reg w)"
  shows "present V w - \<Union>(staging ` set committed) - \<Union>(removable V ` set rejected) \<subseteq> present V w'
    \<and> present V w' \<subseteq> present V w0 \<union> \<Union>(durable ` set committed) \<union> refused V w'"
proof -
  define w1 where "w1 = fold (resource_on_commit E) committed w"
  have w': "w' = snd (abort_all E rejected w1)"
    by (simp add: w'_def storage_on_commit_def rejected_def w1_def committed_def drain_metadata_def split_beta Let_def)
  note one = commit_all_effect [OF laws, of committed w, folded w1_def]
    and two = abort_all_effect [OF laws, of rejected w1, folded w']
  have "shrinks V (\<Union>(staging ` set committed) \<union> \<Union>(removable V ` set rejected)) w w'"
    by (rule shrinks_trans [OF conjunct1 [OF one] conjunct1 [OF two]])
  then have kept: "present V w - \<Union>(staging ` set committed) - \<Union>(removable V ` set rejected) \<subseteq> present V w'"
    and mono: "present V w' \<subseteq> present V w" "refused V w \<subseteq> refused V w'"
    by (auto simp: shrinks_def)
  have "gone V (\<Union>(staging ` set committed)) w'"
    by (rule gone_shrinks [OF conjunct2 [OF one] conjunct1 [OF two]])
  then have gone: "present V w' \<inter> (\<Union>(staging ` set committed) \<union> \<Union>(artifacts ` set rejected)) \<subseteq> refused V w'"
    using two by (auto simp: gone_def)
  have "present V w \<subseteq> present V w0 \<union> \<Union>(artifacts ` set committed) \<union> \<Union>(artifacts ` set rejected) \<union> refused V w"
    using storage_run_accounted [OF assms(1,2)]
    by (simp add: held_artifacts_def held_def metadata_held_def committed_def rejected_def drain_metadata_def
        accounted_def image_Un Un_assoc)
  moreover have "\<Union>(artifacts ` set committed) \<subseteq> \<Union>(durable ` set committed) \<union> \<Union>(staging ` set committed)"
    by (auto simp: durable_def)
  ultimately have "present V w' \<subseteq> present V w0 \<union> \<Union>(durable ` set committed) \<union> refused V w'"
    by (rule left_over [OF mono(1) _ _ gone mono(2)])
  then show ?thesis using kept by simp
qed

subsection \<open>A concrete environment\<close>

text \<open>A world that is the set of existing artifacts and never refuses a deletion.\<close>

definition demo_delete :: "'a \<Rightarrow> 'a set \<Rightarrow> removal \<times> 'a set" where
  "demo_delete a w = (if a \<in> w then Removed else Missing, w - {a})"

definition demo_env :: "(unit, string, unit, (unit, string, unit) artifact set) storage_env" where
  "demo_env = \<lparr> remove_file = (\<lambda>p. demo_delete (LocalFile p)),
     remove_dir_all = (\<lambda>io d w. (Inr (), w - {TableDir io d})),
     delete_object = (\<lambda>svc l. demo_delete (RemoteObject svc l)),
     report_warning = (\<lambda>m w. w), show_location = (\<lambda>l. l) \<rparr>"

definition demo_view :: "(unit, string, unit, (unit, string, unit) artifact set) storage_view" where
  "demo_view = \<lparr> present = (\<lambda>w. w), refused = (\<lambda>w. {}), within = (\<lambda>io d. {TableDir io d}) \<rparr>"

lemma demo_laws: "storage_laws demo_env demo_view"
  by (auto simp: storage_laws_def demo_env_def demo_view_def demo_delete_def deletes_def)

definition demo_object :: "object_file_state \<Rightarrow> (unit, string, unit) storage_resource" where
  "demo_object st = ObjectFile ''o'' ''staging'' () st"

definition demo_registry :: "(unit, string, unit) storage_resource_registry" where
  "demo_registry = snd (mark_object_file_uploaded demo_env ''o''
     (track_resource 2 (demo_object Staged) (track_resource 1 (CreatedLocalFile ''data'') new_storage_registry)))"

definition demo_world :: "(unit, string, unit) artifact set" where
  "demo_world = {LocalFile ''old'', LocalFile ''data'', LocalFile ''staging'', RemoteObject () ''o''}"

lemma demo_registry_eq:
  "demo_registry = \<lparr> storage_entries =
       [\<lparr> tr_nest_level = 1, tr_resource = CreatedLocalFile ''data'' \<rparr>,
        \<lparr> tr_nest_level = 2, tr_resource = demo_object Uploaded \<rparr>],
     metadata_registry = new_metadata_registry \<rparr>"
  by (simp add: demo_registry_def demo_object_def track_resource_def new_storage_registry_def
      new_metadata_registry_def mark_object_file_uploaded_def mark_in_entries_def)

lemma demo_run: "storage_run demo_env demo_view {LocalFile ''old''} 2 demo_registry demo_world"
proof -
  let ?r = "storage_run demo_env demo_view {LocalFile ''old''}"
  let ?reg = "track_resource 1 (CreatedLocalFile ''data'') new_storage_registry"
  let ?reg2 = "track_resource 2 (demo_object Staged) ?reg"
  have "?r 1 ?reg {LocalFile ''old'', LocalFile ''data''}"
    by (rule run_create [OF run_start]) (auto simp: demo_view_def)
  then have "?r (1 + 1) ?reg {LocalFile ''old'', LocalFile ''data''}" by (rule run_savepoint)
  then have "?r 2 ?reg {LocalFile ''old'', LocalFile ''data''}" by simp
  then have two: "?r 2 ?reg2 {LocalFile ''old'', LocalFile ''data'', LocalFile ''staging''}"
    by (rule run_create) (auto simp: demo_view_def demo_object_def)
  show ?thesis
  proof (rule run_upload [OF two])
    show "mark_object_file_uploaded demo_env ''o'' ?reg2 = (Inr (), demo_registry)"
      by (simp add: demo_registry_eq demo_object_def track_resource_def new_storage_registry_def
          new_metadata_registry_def mark_object_file_uploaded_def mark_in_entries_def)
    show "ensure_object_file_staged demo_env ''o'' ?reg2 = Inr ()"
      and "find (object_at ''o'') (current_write_resources ?reg2) = Some (ObjectFile ''o'' ''staging'' () Staged)"
      by (simp_all add: ensure_object_file_staged_def current_write_resources_def demo_object_def
          track_resource_def new_storage_registry_def new_metadata_registry_def)
  qed (auto simp: demo_view_def demo_world_def)
qed

theorem abort_leaves_nothing_witness:
  "storage_laws demo_env demo_view
   \<and> storage_run demo_env demo_view {LocalFile ''old''} 2 demo_registry demo_world
   \<and> RemoteObject () ''o'' \<in> demo_world
   \<and> snd (storage_on_abort demo_env demo_registry demo_world) \<subseteq> {LocalFile ''old''}"
  using abort_leaves_nothing [OF demo_laws demo_run] demo_laws demo_run
  by (simp add: demo_view_def demo_world_def)

theorem commit_keeps_data_witness:
  "storage_laws demo_env demo_view
   \<and> storage_run demo_env demo_view {LocalFile ''old''} 2 demo_registry demo_world
   \<and> RemoteObject () ''o'' \<in> snd (storage_on_commit demo_env demo_registry demo_world)
   \<and> LocalFile ''data'' \<in> snd (storage_on_commit demo_env demo_registry demo_world)
   \<and> LocalFile ''staging'' \<notin> snd (storage_on_commit demo_env demo_registry demo_world)"
  using commit_keeps_data [OF demo_laws demo_run] demo_laws demo_run
  by (auto simp: demo_registry_eq demo_object_def new_metadata_registry_def drain_metadata_def
      demo_view_def demo_world_def durable_def)

section \<open>Savepoints\<close>

datatype ('io, 'l, 'svc) storage_op = TrackResource "('io, 'l, 'svc) storage_resource" | MarkUploaded 'l

fun storage_step :: "('io, 'l, 'svc, 'w) storage_env \<Rightarrow> nest_level \<Rightarrow> ('io, 'l, 'svc) storage_op
    \<Rightarrow> ('io, 'l, 'svc) storage_resource_registry \<times> 'w \<Rightarrow> ('io, 'l, 'svc) storage_resource_registry \<times> 'w" where
  "storage_step E n (TrackResource r) (reg, w) = (track_resource n r reg, w)"
| "storage_step E n (MarkUploaded l) (reg, w) = (snd (mark_object_file_uploaded E l reg), w)"

text \<open>
  An upload in a subtransaction may finalize a file of an enclosing one, so the upload state is
  not rolled back; the rest of an entry is.
\<close>

fun added_resources :: "('io, 'l, 'svc) storage_op \<Rightarrow> ('io, 'l, 'svc) storage_resource list" where
  "added_resources (TrackResource r) = [uploaded r]"
| "added_resources (MarkUploaded l) = []"

definition tagged_resources :: "('io, 'l, 'svc) storage_resource_registry
    \<Rightarrow> (nest_level \<times> ('io, 'l, 'svc) storage_resource) list" where
  "tagged_resources reg = map (\<lambda>e. (tr_nest_level e, uploaded (tr_resource e))) (storage_entries reg)"

lemma uploaded_idem [simp]: "uploaded (uploaded r) = uploaded r"
  by (cases r) auto

lemma mark_uploaded_in_uploaded: "map uploaded (snd (mark_uploaded_in E l rs)) = map uploaded rs"
  by (induction E l rs rule: mark_uploaded_in.induct) (auto simp: Let_def split: prod.splits)

lemma map2_tagged:
  "map uploaded rs = map (uploaded \<circ> tr_resource) es \<Longrightarrow>
    map (\<lambda>e. (tr_nest_level e, uploaded (tr_resource e))) (map2 (\<lambda>e r. e \<lparr> tr_resource := r \<rparr>) es rs)
      = map (\<lambda>e. (tr_nest_level e, uploaded (tr_resource e))) es"
proof (induction es arbitrary: rs)
  case (Cons e es)
  then show ?case by (cases rs) auto
qed simp

lemma tagged_mark [simp]: "tagged_resources (snd (mark_object_file_uploaded E l reg)) = tagged_resources reg"
proof -
  have "tagged_resources (snd (mark_in_entries E l reg)) = tagged_resources reg"
    using map2_tagged [of "snd (mark_uploaded_in E l (map tr_resource (storage_entries reg)))" "storage_entries reg"]
      mark_uploaded_in_uploaded [of E l "map tr_resource (storage_entries reg)"]
    by (auto simp: mark_in_entries_def tagged_resources_def split: prod.splits option.splits)
  then show ?thesis
    by (auto simp: mark_object_file_uploaded_def tagged_resources_def split: prod.splits option.splits)
qed

lemma attempt_mark [simp]:
  "active_attempt (metadata_registry reg) = None \<Longrightarrow>
    active_attempt (metadata_registry (snd (mark_object_file_uploaded E l reg))) = None"
  by (auto simp: mark_object_file_uploaded_def mark_in_entries_def split: prod.splits option.splits)

lemma tagged_track:
  "active_attempt (metadata_registry reg) = None \<Longrightarrow>
    tagged_resources (track_resource n r reg) = tagged_resources reg @ [(n, uploaded r)]"
  by (simp add: tagged_resources_def track_resource_def)

lemma new_registry [simp]:
  "tagged_resources new_storage_registry = []" "active_attempt (metadata_registry new_storage_registry) = None"
  by (simp_all add: tagged_resources_def new_storage_registry_def new_metadata_registry_def)

interpretation storage: levelled_store
  "\<lambda>(reg, w). active_attempt (metadata_registry reg) = None" "\<lambda>(reg, w). tagged_resources reg"
  "storage_step E" added_resources "\<lambda>n (reg, w). (storage_on_commit_sub n reg, w)"
  "\<lambda>n (reg, w). storage_on_abort_sub E n reg w"
proof
  fix n x and s :: "('a, 'b, 'c) storage_resource_registry \<times> 'd"
  obtain reg w where s: "s = (reg, w)" by fastforce
  show "case storage_step E n x s of (reg, w) \<Rightarrow> active_attempt (metadata_registry reg) = None"
    if "case s of (reg, w) \<Rightarrow> active_attempt (metadata_registry reg) = None"
    using that s by (cases x) (auto simp: track_resource_def)
  show "(case storage_step E n x s of (reg, w) \<Rightarrow> tagged_resources reg)
      = (case s of (reg, w) \<Rightarrow> tagged_resources reg) @ map (Pair n) (added_resources x)"
    if "case s of (reg, w) \<Rightarrow> active_attempt (metadata_registry reg) = None"
    using that s by (cases x) (auto simp: tagged_track)
qed (auto simp: storage_on_commit_sub_def promote_subtransaction_resources_def tagged_resources_def lower_levels_def
    storage_on_abort_sub_def take_aborted_subtransaction_resources_def filter_map comp_def split_beta Let_def not_le
    split: prod.splits)

text \<open>
  C25. Tracked resources follow savepoints: after any tree of nested subtransactions that register
  resources and finish uploads, the transaction owns exactly the resources registered outside the
  rolled-back subtransactions, in registration order (the upload state of a resource aside).
\<close>
theorem storage_savepoints:
  "map (uploaded \<circ> tr_resource) (storage_entries (fst (tx_execs (storage_step E)
       (\<lambda>n (reg, w). (storage_on_commit_sub n reg, w)) (\<lambda>n (reg, w). storage_on_abort_sub E n reg w)
       1 ps (new_storage_registry, w))))
     = tx_specs (\<lambda>x rs. rs @ added_resources x) ps []"
proof -
  let ?s = "(new_storage_registry, w)"
  have "storage.levels_within 1 ?s"
    by (simp add: storage.levels_within_def)
  from storage.execs_nested [OF _ this, of E ps]
  have "storage.levels_within 1 (tx_execs (storage_step E)
       (\<lambda>n (reg, w). (storage_on_commit_sub n reg, w)) (\<lambda>n (reg, w). storage_on_abort_sub E n reg w) 1 ps ?s)"
    and "owned_below 2 (case tx_execs (storage_step E)
       (\<lambda>n (reg, w). (storage_on_commit_sub n reg, w)) (\<lambda>n (reg, w). storage_on_abort_sub E n reg w) 1 ps ?s of
         (reg, w) \<Rightarrow> tagged_resources reg) = tx_specs (\<lambda>x rs. rs @ added_resources x) ps []"
    by (simp_all add: owned_below_def)
  then show ?thesis
    using storage.owned_all [of 1 "tx_execs (storage_step E) (\<lambda>n (reg, w). (storage_on_commit_sub n reg, w))
        (\<lambda>n (reg, w). storage_on_abort_sub E n reg w) 1 ps ?s" 2]
    by (simp add: tagged_resources_def split_beta comp_def)
qed

section \<open>Uploads and attempts\<close>

lemma dropWhile_append_first:
  "\<forall>a \<in> set as. \<not> object_at l a \<Longrightarrow>
    dropWhile (\<lambda>r. \<not> object_at l r) (as @ ObjectFile l p s st # bs) = ObjectFile l p s st # bs"
  by (induction as) auto

lemma ensure_skip:
  "l' \<noteq> l \<Longrightarrow> ensure_staged_in E l' (as @ ObjectFile l p s st # bs) = ensure_staged_in E l' (as @ bs)"
proof (induction as)
  case (Cons a as)
  then show ?case by (cases a) (auto split: object_file_state.splits)
qed simp

lemma ensure_append_none:
  "dropWhile (\<lambda>r. \<not> object_at l r) rs = [] \<Longrightarrow> ensure_staged_in E l (rs @ rs') = ensure_staged_in E l rs'"
proof (induction rs)
  case (Cons r rs)
  then show ?case by (cases r) (auto split: if_splits)
qed simp

lemma ensure_append_found:
  assumes "dropWhile (\<lambda>r. \<not> object_at l r) rs = r # bs"
  shows "ensure_staged_in E l (rs @ rs') = Inr () \<longleftrightarrow> is_staged r"
proof -
  have "dropWhile (\<lambda>r. \<not> object_at l r) (rs @ rs') = r # bs @ rs'"
    using assms by (induction rs) (auto split: if_splits)
  then show ?thesis by (simp add: ensure_staged_in_unfold)
qed

lemma mark_found:
  "fst (mark_object_file_uploaded E l reg) = Inr () \<longleftrightarrow> ensure_object_file_staged E l reg = Inr ()"
proof -
  have entries: "fst (mark_in_entries E l reg) = Inr () \<longleftrightarrow>
      ensure_staged_in E l (map tr_resource (storage_entries reg)) = Inr ()"
    by (auto simp: mark_in_entries_def ensure_staged_in_unfold mark_uploaded_in_unfold
        simp del: dropWhile_eq_Nil_conv split: list.splits prod.splits)
  show ?thesis
  proof (cases "active_attempt (metadata_registry reg)")
    case None
    then show ?thesis using entries
      by (simp add: mark_object_file_uploaded_def ensure_object_file_staged_def current_write_resources_def)
  next
    case (Some a)
    show ?thesis
    proof (cases "dropWhile (\<lambda>r. \<not> object_at l r) (attempt_resources a)")
      case Nil
      then show ?thesis using Some entries ensure_append_none [OF Nil, where E = E]
        by (simp add: mark_object_file_uploaded_def ensure_object_file_staged_def current_write_resources_def
            mark_uploaded_in_unfold del: dropWhile_eq_Nil_conv)
    next
      case (Cons r bs)
      then show ?thesis using Some ensure_append_found [OF Cons, where E = E]
        by (simp add: mark_object_file_uploaded_def ensure_object_file_staged_def current_write_resources_def
            mark_uploaded_in_unfold)
    qed
  qed
qed

text \<open>
  The upload state machine: finishing an upload succeeds exactly when the check made before the
  upload succeeds; it then moves that one object from staged to uploaded, so that a second finish or
  check fails, without a change for any other object; when it fails, nothing changes.
\<close>
lemma upload_once:
  "let (res, reg') = mark_object_file_uploaded E l reg in
   (res = Inr () \<longleftrightarrow> ensure_object_file_staged E l reg = Inr ())
   \<and> (if res = Inr ()
       then fst (mark_object_file_uploaded E l reg') \<noteq> Inr ()
          \<and> (if l' = l then ensure_object_file_staged E l' reg' \<noteq> Inr ()
             else ensure_object_file_staged E l' reg' = ensure_object_file_staged E l' reg)
       else reg' = reg)"
proof (cases "mark_object_file_uploaded E l reg")
  case (Pair res reg')
  have found: "res = Inr () \<longleftrightarrow> ensure_object_file_staged E l reg = Inr ()"
    using mark_found [of E l reg] Pair by simp
  show ?thesis
  proof (cases "res = Inr ()")
    case True
    from mark_Inr [OF Pair [unfolded True]] obtain as p s bs
      where m: "current_write_resources reg = as @ ObjectFile l p s Staged # bs"
        "\<forall>a \<in> set as. \<not> object_at l a"
        "current_write_resources reg' = as @ ObjectFile l p s Uploaded # bs" by auto
    then have "ensure_object_file_staged E l reg' \<noteq> Inr ()"
      by (simp add: ensure_object_file_staged_def ensure_staged_in_unfold dropWhile_append_first)
    then show ?thesis
      using True Pair found mark_found [of E l reg'] m(1,3)
      by (simp add: ensure_object_file_staged_def ensure_skip)
  next
    case False
    then have "reg' = reg" using Pair
      by (auto simp: mark_object_file_uploaded_def mark_in_entries_def mark_uploaded_in_unfold
          simp del: dropWhile_eq_Nil_conv split: option.splits prod.splits list.splits if_splits)
    then show ?thesis using False Pair found by simp
  qed
qed




end
