(* ===== verification/Tx_Callbacks.thy ===== *)
theory Tx_Callbacks
  imports Savepoints
begin

text \<open>
  The transaction-event framework of \<open>lagodb-core/src/transaction/mod.rs\<close>: a backend-local list of
  registered resources and the callbacks PostgreSQL invokes for the events of a transaction and of
  its subtransactions.

  A resource is a handle \<open>'r\<close> (an \<open>Rc<dyn TransactionResource>\<close>); the state behind the handles is
  part of the backend state, so a callback is a function of the handle and the whole backend, and it
  may register further resources. What PostgreSQL provides (its active-snapshot stack and the
  registration of the two callbacks) is a record of functions on the outside \<open>'w\<close>.
\<close>

section \<open>Resources and the backend\<close>

record ('r, 'w) backend =
  resources :: "'r list"
  callback_registered :: bool
  outside :: 'w

record 'w postgres =
  register_xact_callbacks :: "'w \<Rightarrow> 'w"
  active_snapshot_set :: "'w \<Rightarrow> bool"
  push_active_snapshot :: "'w \<Rightarrow> 'w"
  pop_active_snapshot :: "'w \<Rightarrow> 'w"

text \<open>The trait \<open>TransactionResource\<close>. An error is the report PostgreSQL raises.\<close>

record ('r, 'w) transaction_resource =
  res_on_commit :: "'r \<Rightarrow> ('r, 'w) backend \<Rightarrow> ('r, 'w) backend"
  res_on_abort :: "'r \<Rightarrow> ('r, 'w) backend \<Rightarrow> ('r, 'w) backend"
  res_on_pre_commit :: "'r \<Rightarrow> ('r, 'w) backend \<Rightarrow> (string + unit) \<times> ('r, 'w) backend"
  res_on_pre_prepare :: "'r \<Rightarrow> ('r, 'w) backend \<Rightarrow> (string + unit) \<times> ('r, 'w) backend"
  res_on_prepare :: "'r \<Rightarrow> ('r, 'w) backend \<Rightarrow> ('r, 'w) backend"
  res_on_commit_sub :: "'r \<Rightarrow> nest_level \<Rightarrow> ('r, 'w) backend \<Rightarrow> ('r, 'w) backend"
  res_on_abort_sub :: "'r \<Rightarrow> nest_level \<Rightarrow> ('r, 'w) backend \<Rightarrow> ('r, 'w) backend"
  res_nest_level :: "'r \<Rightarrow> ('r, 'w) backend \<Rightarrow> nest_level"
  res_set_nest_level :: "'r \<Rightarrow> nest_level \<Rightarrow> ('r, 'w) backend \<Rightarrow> ('r, 'w) backend"

datatype xact_event = XactCommit | XactParallelCommit | XactAbort | XactParallelAbort
  | XactPreCommit | XactParallelPreCommit | XactPrePrepare | XactPrepare

datatype subxact_event = SubxactStart | SubxactCommit | SubxactAbort | SubxactPreCommit

section \<open>Registration\<close>

definition init_callbacks :: "'w postgres \<Rightarrow> ('r, 'w) backend \<Rightarrow> ('r, 'w) backend" where
  "init_callbacks P s =
     (if callback_registered s then s
      else s \<lparr> outside := register_xact_callbacks P (outside s), callback_registered := True \<rparr>)"

definition register_resource :: "'w postgres \<Rightarrow> 'r \<Rightarrow> ('r, 'w) backend \<Rightarrow> ('r, 'w) backend" where
  "register_resource P r s = (let s = init_callbacks P s in s \<lparr> resources := resources s @ [r] \<rparr>)"

definition resource_count :: "('r, 'w) backend \<Rightarrow> nat" where
  "resource_count s = length (resources s)"

section \<open>Events\<close>

text \<open>A loop that calls \<open>f\<close> on every listed resource of level \<open>n\<close> or deeper.\<close>

fun each_resource :: "('r, 'w) transaction_resource \<Rightarrow> nest_level
    \<Rightarrow> ('r \<Rightarrow> ('r, 'w) backend \<Rightarrow> ('r, 'w) backend) \<Rightarrow> 'r list \<Rightarrow> ('r, 'w) backend \<Rightarrow> ('r, 'w) backend" where
  "each_resource T n f [] s = s"
| "each_resource T n f (r # rs) s =
     each_resource T n f rs (if n \<le> res_nest_level T r s then f r s else s)"

text \<open>The same loop, left at the first error.\<close>

fun try_each_resource :: "('r, 'w) transaction_resource \<Rightarrow> nest_level
    \<Rightarrow> ('r \<Rightarrow> ('r, 'w) backend \<Rightarrow> (string + unit) \<times> ('r, 'w) backend) \<Rightarrow> 'r list
    \<Rightarrow> ('r, 'w) backend \<Rightarrow> (string + unit) \<times> ('r, 'w) backend" where
  "try_each_resource T n f [] s = (Inr (), s)"
| "try_each_resource T n f (r # rs) s =
     (if n \<le> res_nest_level T r s
      then (case f r s of (Inl e, s) \<Rightarrow> (Inl e, s) | (Inr _, s) \<Rightarrow> try_each_resource T n f rs s)
      else try_each_resource T n f rs s)"

text \<open>\<open>PreCommitSnapshot\<close>: push a snapshot unless one is active, pop it when the guard is dropped.\<close>

definition snapshot_ensure :: "'w postgres \<Rightarrow> ('r, 'w) backend \<Rightarrow> bool \<times> ('r, 'w) backend" where
  "snapshot_ensure P s =
     (if active_snapshot_set P (outside s) then (False, s)
      else (True, s \<lparr> outside := push_active_snapshot P (outside s) \<rparr>))"

definition snapshot_drop :: "'w postgres \<Rightarrow> bool \<Rightarrow> ('r, 'w) backend \<Rightarrow> ('r, 'w) backend" where
  "snapshot_drop P pushed s =
     (if pushed then s \<lparr> outside := pop_active_snapshot P (outside s) \<rparr> else s)"

definition finish_all :: "('r, 'w) transaction_resource \<Rightarrow> nest_level
    \<Rightarrow> ('r \<Rightarrow> ('r, 'w) backend \<Rightarrow> ('r, 'w) backend) \<Rightarrow> ('r, 'w) backend \<Rightarrow> ('r, 'w) backend" where
  "finish_all T n f s = each_resource T n f (resources s) (s \<lparr> resources := [] \<rparr>)"

definition pre_commit_all :: "('r, 'w) transaction_resource \<Rightarrow> 'w postgres \<Rightarrow> nest_level
    \<Rightarrow> ('r, 'w) backend \<Rightarrow> (string + unit) \<times> ('r, 'w) backend" where
  "pre_commit_all T P n s =
     (let snapshot = resources s in
      if snapshot = [] then (Inr (), s)
      else let (pushed, s) = snapshot_ensure P s;
               (res, s) = try_each_resource T n (res_on_pre_commit T) snapshot s
           in (res, snapshot_drop P pushed s))"

definition xact_callback :: "('r, 'w) transaction_resource \<Rightarrow> 'w postgres \<Rightarrow> nest_level \<Rightarrow> xact_event
    \<Rightarrow> ('r, 'w) backend \<Rightarrow> (string + unit) \<times> ('r, 'w) backend" where
  "xact_callback T P n event s = (case event of
       XactCommit \<Rightarrow> (Inr (), finish_all T n (res_on_commit T) s)
     | XactParallelCommit \<Rightarrow> (Inr (), finish_all T n (res_on_commit T) s)
     | XactAbort \<Rightarrow> (Inr (), finish_all T n (res_on_abort T) s)
     | XactParallelAbort \<Rightarrow> (Inr (), finish_all T n (res_on_abort T) s)
     | XactPreCommit \<Rightarrow> pre_commit_all T P n s
     | XactParallelPreCommit \<Rightarrow> pre_commit_all T P n s
     | XactPrePrepare \<Rightarrow> try_each_resource T n (res_on_pre_prepare T) (resources s) s
     | XactPrepare \<Rightarrow> (Inr (), finish_all T n (res_on_prepare T) s))"

text \<open>The end of a subtransaction at level \<open>n\<close>.\<close>

definition release_one :: "('r, 'w) transaction_resource \<Rightarrow> nest_level \<Rightarrow> 'r \<Rightarrow> ('r, 'w) backend
    \<Rightarrow> ('r, 'w) backend" where
  "release_one T n r s =
     (let s = res_on_commit_sub T r n s in
      if n \<le> res_nest_level T r s then res_set_nest_level T r (n - 1) s else s)"

definition subxact_callback :: "('r, 'w) transaction_resource \<Rightarrow> nest_level \<Rightarrow> subxact_event
    \<Rightarrow> ('r, 'w) backend \<Rightarrow> ('r, 'w) backend" where
  "subxact_callback T n event s = (case event of
       SubxactCommit \<Rightarrow> fold (release_one T n) (resources s) s
     | SubxactAbort \<Rightarrow>
         (let s = fold (\<lambda>r. res_on_abort_sub T r n) (resources s) s
          in s \<lparr> resources := filter (\<lambda>r. res_nest_level T r s < n) (resources s) \<rparr>)
     | _ \<Rightarrow> s)"

section \<open>Snapshots during pre-commit\<close>

text \<open>The depth of the active-snapshot stack, and callbacks that leave the stack as they found it.\<close>

definition snapshot_laws :: "'w postgres \<Rightarrow> ('w \<Rightarrow> nat) \<Rightarrow> bool" where
  "snapshot_laws P depth \<longleftrightarrow> (\<forall>w. active_snapshot_set P w \<longleftrightarrow> 0 < depth w)
     \<and> (\<forall>w. depth (push_active_snapshot P w) = depth w + 1)
     \<and> (\<forall>w. 0 < depth w \<longrightarrow> depth (pop_active_snapshot P w) = depth w - 1)"

definition balanced_callbacks :: "('r, 'w) transaction_resource \<Rightarrow> ('w \<Rightarrow> nat) \<Rightarrow> bool" where
  "balanced_callbacks T depth \<longleftrightarrow> (\<forall>r s. depth (outside (snd (res_on_pre_commit T r s))) = depth (outside s))"

text \<open>The resources with a pre-commit callback that refuses to work without a snapshot.\<close>

definition needing_snapshot :: "('w \<Rightarrow> nat) \<Rightarrow> ('r, 'w) transaction_resource \<Rightarrow> ('r, 'w) transaction_resource" where
  "needing_snapshot depth T = T \<lparr> res_on_pre_commit := (\<lambda>r s.
     if 0 < depth (outside s) then res_on_pre_commit T r s else (Inl ''no active snapshot'', s)) \<rparr>"

lemma try_each_guarded:
  assumes "balanced_callbacks T depth" and "0 < depth (outside s)"
  shows "try_each_resource (needing_snapshot depth T) n (res_on_pre_commit (needing_snapshot depth T)) rs s
      = try_each_resource T n (res_on_pre_commit T) rs s
    \<and> depth (outside (snd (try_each_resource T n (res_on_pre_commit T) rs s))) = depth (outside s)"
  using assms(2)
proof (induction rs arbitrary: s)
  case (Cons r rs)
  obtain res t where call: "res_on_pre_commit T r s = (res, t)" by (rule prod.exhaust)
  then have "depth (outside t) = depth (outside s)"
    using assms(1) by (metis balanced_callbacks_def snd_conv)
  with call Cons show ?case
    by (cases res) (simp_all add: needing_snapshot_def)
qed simp

text \<open>
  C31. Every pre-commit callback runs under an active snapshot, also in commands that commit after
  popping theirs, and the snapshot stack is back at its old depth afterwards, whether the callbacks
  succeeded or one of them failed.
\<close>
theorem pre_commit_under_snapshot:
  assumes "snapshot_laws P depth" and "balanced_callbacks T depth"
  shows "pre_commit_all (needing_snapshot depth T) P n s = pre_commit_all T P n s
    \<and> depth (outside (snd (pre_commit_all T P n s))) = depth (outside s)"
proof -
  obtain pushed t where ensure: "snapshot_ensure P s = (pushed, t)" by (rule prod.exhaust)
  then have t: "resources t = resources s" "0 < depth (outside t)" "depth (outside t) = (if pushed then 1 else 0) + depth (outside s)"
    using assms(1) by (auto simp: snapshot_ensure_def snapshot_laws_def split: if_splits)
  obtain res u where loop: "try_each_resource T n (res_on_pre_commit T) (resources s) t = (res, u)" by (rule prod.exhaust)
  have u: "try_each_resource (needing_snapshot depth T) n (res_on_pre_commit (needing_snapshot depth T)) (resources s) t = (res, u)"
      "depth (outside u) = depth (outside t)"
    using try_each_guarded [OF assms(2) t(2), of n "resources s"] loop by simp_all
  then have "depth (outside (snapshot_drop P pushed u)) = depth (outside s)"
    using t assms(1) by (auto simp: snapshot_drop_def snapshot_laws_def)
  then show ?thesis
    by (simp add: pre_commit_all_def ensure loop u(1) Let_def)
qed

text \<open>A stack counted by a number, and one resource that notes the depth it saw.\<close>

definition demo_stack :: "(nat \<times> nat list) postgres" where
  "demo_stack = \<lparr> register_xact_callbacks = \<lambda>w. w, active_snapshot_set = \<lambda>(d, _). 0 < d,
     push_active_snapshot = \<lambda>(d, l). (d + 1, l), pop_active_snapshot = \<lambda>(d, l). (d - 1, l) \<rparr>"

definition demo_noting :: "(unit, nat \<times> nat list) transaction_resource" where
  "demo_noting = \<lparr> res_on_commit = \<lambda>_ s. s, res_on_abort = \<lambda>_ s. s,
     res_on_pre_commit = \<lambda>_ s. (Inr (), s \<lparr> outside := (fst (outside s), snd (outside s) @ [fst (outside s)]) \<rparr>),
     res_on_pre_prepare = \<lambda>_ s. (Inr (), s), res_on_prepare = \<lambda>_ s. s, res_on_commit_sub = \<lambda>_ _ s. s,
     res_on_abort_sub = \<lambda>_ _ s. s, res_nest_level = \<lambda>_ _. 1, res_set_nest_level = \<lambda>_ _ s. s \<rparr>"

definition demo_backend :: "(unit, nat \<times> nat list) backend" where
  "demo_backend = \<lparr> resources = [(), ()], callback_registered = True, outside = (0, []) \<rparr>"

theorem pre_commit_under_snapshot_witness:
  "snapshot_laws demo_stack fst \<and> balanced_callbacks demo_noting fst
   \<and> pre_commit_all (needing_snapshot fst demo_noting) demo_stack 1 demo_backend
       = (Inr (), demo_backend \<lparr> outside := (0, [1, 1]) \<rparr>)"
proof -
  have laws: "snapshot_laws demo_stack fst" "balanced_callbacks demo_noting fst"
    by (auto simp: snapshot_laws_def demo_stack_def balanced_callbacks_def demo_noting_def)
  from pre_commit_under_snapshot [OF laws, of 1 demo_backend] laws show ?thesis
    by (simp add: pre_commit_all_def snapshot_ensure_def snapshot_drop_def demo_stack_def demo_noting_def demo_backend_def)
qed

end
