(* ===== verification/Metadata_Catalog.thy ===== *)
theory Metadata_Catalog
  imports Prelude
begin

text \<open>
  The catalog table \<open>iceberg.iceberg_metadata\<close> (\<open>managed_table/catalog/metadata_table.rs\<close> and
  \<open>metadata_table/rebuild.rs\<close>): one row per relation with the current and the previous metadata
  location and the maintenance deadline, and the operations that read and change it, each a scan
  followed by an optimistic update of the tuple version it saw.

  PostgreSQL's catalog access (name resolution, relation locks, index scans, tuple updates) is a
  record of functions on a state \<open>'w\<close> that other sessions change too; a tuple version is a value
  \<open>'v\<close>, a tuple is its four decoded columns (\<open>None\<close> for SQL NULL or an undecodable datum).
\<close>

section \<open>Tuples\<close>

type_synonym timestamp_tz = int

record heap_tuple =
  relid_col :: "oid option"
  metadata_location_col :: "string option"
  previous_metadata_location_col :: "string option"
  maintenance_due_at_col :: "timestamp_tz option"

datatype column = RELID | METADATA_LOCATION | PREVIOUS_METADATA_LOCATION | MAINTENANCE_DUE_AT

text \<open>\<open>TupleFields::new\<close>: every column is NULL until it is set.\<close>

definition new_tuple_fields :: heap_tuple where
  "new_tuple_fields = \<lparr> relid_col = None, metadata_location_col = None,
     previous_metadata_location_col = None, maintenance_due_at_col = None \<rparr>"

text \<open>\<open>TupleReplacement\<close>: values and the columns to replace. \<open>set\<close> marks its column.\<close>

record tuple_replacement =
  repl_fields :: heap_tuple
  repls :: "column \<Rightarrow> bool"

definition new_tuple_replacement :: tuple_replacement where
  "new_tuple_replacement = \<lparr> repl_fields = new_tuple_fields, repls = (\<lambda>_. False) \<rparr>"

definition set_location :: "string option \<Rightarrow> tuple_replacement \<Rightarrow> tuple_replacement" where
  "set_location v t = \<lparr> repl_fields = repl_fields t \<lparr> metadata_location_col := v \<rparr>,
     repls = (repls t)(METADATA_LOCATION := True) \<rparr>"

definition set_previous :: "string option \<Rightarrow> tuple_replacement \<Rightarrow> tuple_replacement" where
  "set_previous v t = \<lparr> repl_fields = repl_fields t \<lparr> previous_metadata_location_col := v \<rparr>,
     repls = (repls t)(PREVIOUS_METADATA_LOCATION := True) \<rparr>"

definition set_due :: "timestamp_tz option \<Rightarrow> tuple_replacement \<Rightarrow> tuple_replacement" where
  "set_due v t = \<lparr> repl_fields = repl_fields t \<lparr> maintenance_due_at_col := v \<rparr>,
     repls = (repls t)(MAINTENANCE_DUE_AT := True) \<rparr>"

definition apply_replacement :: "tuple_replacement \<Rightarrow> heap_tuple \<Rightarrow> heap_tuple" where
  "apply_replacement t old =
     \<lparr> relid_col = (if repls t RELID then relid_col (repl_fields t) else relid_col old),
       metadata_location_col = (if repls t METADATA_LOCATION
         then metadata_location_col (repl_fields t) else metadata_location_col old),
       previous_metadata_location_col = (if repls t PREVIOUS_METADATA_LOCATION
         then previous_metadata_location_col (repl_fields t) else previous_metadata_location_col old),
       maintenance_due_at_col = (if repls t MAINTENANCE_DUE_AT
         then maintenance_due_at_col (repl_fields t) else maintenance_due_at_col old) \<rparr>"

section \<open>Rows\<close>

record iceberg_metadata =
  im_relid :: oid
  metadata_location :: "string option"
  previous_metadata_location :: "string option"
  maintenance_due_at :: "timestamp_tz option"

definition new_iceberg_metadata :: "oid \<Rightarrow> iceberg_metadata" where
  "new_iceberg_metadata r = \<lparr> im_relid = r, metadata_location = None, previous_metadata_location = None,
     maintenance_due_at = None \<rparr>"

definition with_metadata_location :: "string \<Rightarrow> iceberg_metadata \<Rightarrow> iceberg_metadata" where
  "with_metadata_location location m = m \<lparr> metadata_location := Some location \<rparr>"

datatype maintenance_schedule_update =
    Preserve
  | ScheduleNoLaterThan timestamp_tz
  | CompleteIfDueMatches "timestamp_tz option"

record cas_update_values =
  new_metadata_location :: "string option"
  new_previous_metadata_location :: "string option"
  maintenance_schedule :: maintenance_schedule_update

record maintenance_completion_token =
  token_metadata_location :: string
  token_maintenance_due_at :: "timestamp_tz option"

record maintenance_candidate =
  cand_relid :: oid
  cand_metadata_location :: "string option"
  cand_due_at :: timestamp_tz

definition candidate_matches :: "maintenance_candidate \<Rightarrow> maintenance_completion_token \<Rightarrow> bool" where
  "candidate_matches c token \<longleftrightarrow>
     cand_metadata_location c = Some (token_metadata_location token)
   \<and> Some (cand_due_at c) = token_maintenance_due_at token"

section \<open>Catalog access\<close>

datatype catalog_snapshot = DefaultSnapshot | SelfVisible

text \<open>A failed tuple update is a version conflict or another error.\<close>

datatype tuple_error = TupleConflict | TupleError string

record ('v, 'w) catalog_env =
  cat_resolve :: "(string, unit, 'w) act"
  cat_open :: "(string, unit, 'w) act"
  cat_scan :: "catalog_snapshot \<Rightarrow> oid \<Rightarrow> (string, ('v \<times> heap_tuple) option, 'w) act"
  cat_due_scan :: "timestamp_tz option \<Rightarrow> (string, (string + heap_tuple) list, 'w) act"
  cat_update :: "'v \<Rightarrow> heap_tuple \<Rightarrow> (tuple_error, unit, 'w) act"
  cat_insert :: "heap_tuple \<Rightarrow> (string, unit, 'w) act"
  cat_delete :: "'v \<Rightarrow> (string, unit, 'w) act"

definition catalog_failure :: "metadata_catalog_operation \<Rightarrow> string \<Rightarrow> iceberg_error" where
  "catalog_failure op source = MetadataCatalog (OperationFailed op source)"

definition open_catalog :: "('v, 'w) catalog_env \<Rightarrow> metadata_catalog_operation \<Rightarrow> (iceberg_error, unit, 'w) act" where
  "open_catalog C op =
     bind_act (map_err_act (catalog_failure CatalogAccess) (cat_resolve C))
       (\<lambda>_. map_err_act (catalog_failure op) (cat_open C))"

definition scan_relid :: "('v, 'w) catalog_env \<Rightarrow> metadata_catalog_operation \<Rightarrow> catalog_snapshot \<Rightarrow> oid
    \<Rightarrow> (iceberg_error, ('v \<times> heap_tuple) option, 'w) act" where
  "scan_relid C op snapshot r =
     bind_act (map_err_act (catalog_failure CatalogAccess) (cat_resolve C))
       (\<lambda>_. map_err_act (catalog_failure op) (cat_scan C snapshot r))"

text \<open>\<open>catalog_update_optimistic\<close>: a version conflict is a result (\<open>False\<close>), not an error.\<close>

definition update_optimistic :: "('v, 'w) catalog_env \<Rightarrow> 'v \<Rightarrow> heap_tuple \<Rightarrow> (string, bool, 'w) act" where
  "update_optimistic C v t w = (case cat_update C v t w of
       (Inr _, w) \<Rightarrow> (Inr True, w)
     | (Inl TupleConflict, w) \<Rightarrow> (Inr False, w)
     | (Inl (TupleError e), w) \<Rightarrow> (Inl e, w))"

definition required :: "'a option \<Rightarrow> string \<Rightarrow> nat \<Rightarrow> 'a iceberg_result" where
  "required v field_name attno = (case v of
       Some a \<Rightarrow> Inr a
     | None \<Rightarrow> Inl (MetadataCatalog (InvalidRecord
         (field_name @ '' (attno '' @ show_nat attno @ '') is null or undecodable''))))"

definition from_tuple :: "heap_tuple \<Rightarrow> iceberg_metadata iceberg_result" where
  "from_tuple t = and_then (required (relid_col t) ''relid'' 1) (\<lambda>r. Inr
     \<lparr> im_relid = r, metadata_location = metadata_location_col t,
       previous_metadata_location = previous_metadata_location_col t,
       maintenance_due_at = maintenance_due_at_col t \<rparr>)"

definition insert_row :: "('v, 'w) catalog_env \<Rightarrow> iceberg_metadata \<Rightarrow> (iceberg_error, unit, 'w) act" where
  "insert_row C m = bind_act (open_catalog C CatalogInsert)
     (\<lambda>_. map_err_act (catalog_failure CatalogInsert) (cat_insert C
        \<lparr> relid_col = Some (im_relid m), metadata_location_col = metadata_location m,
          previous_metadata_location_col = previous_metadata_location m,
          maintenance_due_at_col = maintenance_due_at m \<rparr>))"

section \<open>Reading\<close>

definition find_with_snapshot :: "('v, 'w) catalog_env \<Rightarrow> oid \<Rightarrow> catalog_snapshot
    \<Rightarrow> (iceberg_error, iceberg_metadata option, 'w) act" where
  "find_with_snapshot C r snapshot =
     bind_act (open_catalog C CatalogRead) (\<lambda>_.
     bind_act (scan_relid C CatalogRead snapshot r) (\<lambda>found.
       case found of
         None \<Rightarrow> ok_act None
       | Some (v, tuple) \<Rightarrow> lift_act (and_then (from_tuple tuple) (\<lambda>row. Inr (Some row)))))"

definition get_with_snapshot :: "('v, 'w) catalog_env \<Rightarrow> oid \<Rightarrow> catalog_snapshot
    \<Rightarrow> (iceberg_error, iceberg_metadata, 'w) act" where
  "get_with_snapshot C r snapshot = bind_act (find_with_snapshot C r snapshot) (\<lambda>found.
     case found of None \<Rightarrow> fail_act (MetadataCatalog (NotFound r)) | Some row \<Rightarrow> ok_act row)"

definition get_row :: "('v, 'w) catalog_env \<Rightarrow> oid \<Rightarrow> (iceberg_error, iceberg_metadata, 'w) act" where
  "get_row C r = get_with_snapshot C r DefaultSnapshot"

text \<open>The loop over the tuples of the ordered scan, up to \<open>limit\<close> candidates.\<close>

fun collect_candidates :: "nat \<Rightarrow> (string + heap_tuple) list \<Rightarrow> maintenance_candidate list
    \<Rightarrow> maintenance_candidate list iceberg_result" where
  "collect_candidates limit [] acc = Inr acc"
| "collect_candidates limit (item # rest) acc =
     (if limit \<le> length acc then Inr acc
      else and_then (map_err (catalog_failure CatalogRead) item) (\<lambda>tuple.
           and_then (required (relid_col tuple) ''relid'' 1) (\<lambda>r.
           and_then (required (maintenance_due_at_col tuple) ''maintenance_due_at'' 4) (\<lambda>due_at.
             collect_candidates limit rest (acc @ [\<lparr> cand_relid = r,
               cand_metadata_location = metadata_location_col tuple, cand_due_at = due_at \<rparr>])))))"

definition maintenance_candidates :: "('v, 'w) catalog_env \<Rightarrow> nat \<Rightarrow> timestamp_tz
    \<Rightarrow> (iceberg_error, maintenance_candidate list, 'w) act" where
  "maintenance_candidates C limit now =
     (if limit = 0 then ok_act []
      else bind_act (open_catalog C CatalogRead) (\<lambda>_.
           bind_act (map_err_act (catalog_failure CatalogAccess) (cat_resolve C)) (\<lambda>_.
           bind_act (map_err_act (catalog_failure CatalogRead) (cat_due_scan C (Some now))) (\<lambda>tuples.
             lift_act (collect_candidates limit tuples [])))))"

definition next_maintenance_due_at :: "('v, 'w) catalog_env \<Rightarrow> (iceberg_error, timestamp_tz option, 'w) act" where
  "next_maintenance_due_at C =
     bind_act (open_catalog C CatalogRead) (\<lambda>_.
     bind_act (map_err_act (catalog_failure CatalogAccess) (cat_resolve C)) (\<lambda>_.
     bind_act (map_err_act (catalog_failure CatalogRead) (cat_due_scan C None)) (\<lambda>tuples.
       case tuples of
         [] \<Rightarrow> ok_act None
       | item # _ \<Rightarrow> lift_act (and_then (map_err (catalog_failure CatalogRead) item)
           (\<lambda>tuple. Inr (maintenance_due_at_col tuple))))))"

section \<open>Writing\<close>

definition defer_maintenance :: "('v, 'w) catalog_env \<Rightarrow> maintenance_candidate \<Rightarrow> timestamp_tz
    \<Rightarrow> (iceberg_error, bool, 'w) act" where
  "defer_maintenance C candidate retry_at =
     bind_act (open_catalog C CatalogUpdate) (\<lambda>_.
     bind_act (scan_relid C CatalogUpdate DefaultSnapshot (cand_relid candidate)) (\<lambda>found.
       case found of
         None \<Rightarrow> ok_act False
       | Some (v, old_tuple) \<Rightarrow>
           if metadata_location_col old_tuple \<noteq> cand_metadata_location candidate
            \<or> maintenance_due_at_col old_tuple \<noteq> Some (cand_due_at candidate)
           then ok_act False
           else map_err_act (catalog_failure CatalogUpdate) (update_optimistic C v
                  (apply_replacement (set_due (Some retry_at) new_tuple_replacement) old_tuple))))"

text \<open>\<open>Success\<close> is \<open>Ok(value)\<close>, a tuple-version conflict the error \<open>Conflict\<close>.\<close>

definition conclude_update :: "('v, 'w) catalog_env \<Rightarrow> 'v \<Rightarrow> heap_tuple \<Rightarrow> 'a \<Rightarrow> (iceberg_error, 'a, 'w) act" where
  "conclude_update C v t value = bind_act (map_err_act (catalog_failure CatalogUpdate) (update_optimistic C v t))
     (\<lambda>success. if success then ok_act value else fail_act (MetadataCatalog Conflict))"

definition finish_maintenance :: "('v, 'w) catalog_env \<Rightarrow> oid \<Rightarrow> string \<Rightarrow> maintenance_schedule_update
    \<Rightarrow> (iceberg_error, unit, 'w) act" where
  "finish_maintenance C r expected_location schedule =
     bind_act (open_catalog C CatalogUpdate) (\<lambda>_.
     bind_act (scan_relid C CatalogUpdate DefaultSnapshot r) (\<lambda>found.
       case found of
         None \<Rightarrow> fail_act (MetadataCatalog (NotFound r))
       | Some (v, old_tuple) \<Rightarrow>
           if metadata_location_col old_tuple \<noteq> Some expected_location
           then fail_act (MetadataCatalog Conflict)
           else case schedule of
               CompleteIfDueMatches expected_due \<Rightarrow>
                 conclude_update C v (apply_replacement
                   (if maintenance_due_at_col old_tuple = expected_due
                    then set_due None new_tuple_replacement else new_tuple_replacement) old_tuple) ()
             | Preserve \<Rightarrow> conclude_update C v (apply_replacement new_tuple_replacement old_tuple) ()
             | ScheduleNoLaterThan _ \<Rightarrow> fail_act (InvariantViolated
                 ''maintenance completion cannot schedule new maintenance work'')))"

text \<open>What the schedule update does to the deadline, and whether it brought it forward.\<close>

definition schedule_replacement :: "maintenance_schedule_update \<Rightarrow> timestamp_tz option \<Rightarrow> tuple_replacement
    \<Rightarrow> tuple_replacement \<times> bool" where
  "schedule_replacement schedule current_due t = (case schedule of
       Preserve \<Rightarrow> (t, False)
     | ScheduleNoLaterThan proposed \<Rightarrow>
         if (case current_due of None \<Rightarrow> True | Some current \<Rightarrow> proposed < current)
         then (set_due (Some proposed) t, True) else (t, False)
     | CompleteIfDueMatches expected_due \<Rightarrow>
         if current_due = expected_due \<and> current_due \<noteq> None
         then (set_due None t, False) else (t, False))"

definition cas_update :: "('v, 'w) catalog_env \<Rightarrow> oid \<Rightarrow> string option \<Rightarrow> cas_update_values
    \<Rightarrow> (iceberg_error, bool, 'w) act" where
  "cas_update C r expected_previous_location new =
     bind_act (open_catalog C CatalogUpdate) (\<lambda>_.
     bind_act (scan_relid C CatalogUpdate DefaultSnapshot r) (\<lambda>found.
       case found of
         None \<Rightarrow> fail_act (MetadataCatalog (NotFound r))
       | Some (v, old_tuple) \<Rightarrow>
           if metadata_location_col old_tuple \<noteq> expected_previous_location
           then fail_act (MetadataCatalog Conflict)
           else let (replacement, advanced) =
                  schedule_replacement (maintenance_schedule new) (maintenance_due_at_col old_tuple)
                    (set_previous (new_previous_metadata_location new)
                      (set_location (new_metadata_location new) new_tuple_replacement))
                in conclude_update C v (apply_replacement replacement old_tuple) advanced))"

definition delete_if_exists :: "('v, 'w) catalog_env \<Rightarrow> oid \<Rightarrow> (iceberg_error, unit, 'w) act" where
  "delete_if_exists C r =
     bind_act (open_catalog C CatalogDelete) (\<lambda>_.
     bind_act (scan_relid C CatalogDelete DefaultSnapshot r) (\<lambda>found.
       case found of
         None \<Rightarrow> ok_act ()
       | Some (v, tuple) \<Rightarrow> map_err_act (catalog_failure CatalogDelete) (cat_delete C v)))"

text \<open>
  Publication of a rebuilt table: \<open>for _ in 0..=max_retries\<close>, so \<open>attempts\<close> is \<open>max_retries + 1\<close> at
  the start.
\<close>

primrec publish_attempts :: "('v, 'w) catalog_env \<Rightarrow> oid \<Rightarrow> string \<Rightarrow> int \<Rightarrow> nat
    \<Rightarrow> (iceberg_error, unit, 'w) act" where
  "publish_attempts C r location max_retries 0 = fail_act (MetadataCommitConflict r max_retries)"
| "publish_attempts C r location max_retries (Suc attempts) =
     bind_act (map_err_act (catalog_failure CatalogUpdate) (cat_scan C SelfVisible r)) (\<lambda>found.
       case found of
         None \<Rightarrow> fail_act (MetadataCatalog (NotFound r))
       | Some (v, tuple) \<Rightarrow>
           bind_act (map_err_act (catalog_failure CatalogUpdate) (update_optimistic C v
             (apply_replacement (set_due None (set_previous None (set_location (Some location)
                new_tuple_replacement))) tuple)))
             (\<lambda>success. if success then ok_act () else publish_attempts C r location max_retries attempts))"

definition publish_rebuilt_table :: "('v, 'w) catalog_env \<Rightarrow> int \<Rightarrow> oid \<Rightarrow> string option
    \<Rightarrow> (iceberg_error, unit, 'w) act" where
  "publish_rebuilt_table C max_retries r table_location = (case table_location of
       None \<Rightarrow> fail_act MetadataLocationNull
     | Some location \<Rightarrow>
         bind_act (open_catalog C CatalogUpdate) (\<lambda>_.
         bind_act (map_err_act (catalog_failure CatalogAccess) (cat_resolve C)) (\<lambda>_.
           publish_attempts C r location max_retries (nat (max_retries + 1)))))"

section \<open>The replaced columns\<close>

lemma apply_replacement_cas:
  "apply_replacement (fst (schedule_replacement schedule (maintenance_due_at_col t)
       (set_previous p (set_location l new_tuple_replacement)))) t
     = t \<lparr> metadata_location_col := l, previous_metadata_location_col := p,
          maintenance_due_at_col := (case schedule of
              Preserve \<Rightarrow> maintenance_due_at_col t
            | ScheduleNoLaterThan d \<Rightarrow> (case maintenance_due_at_col t of
                None \<Rightarrow> Some d | Some c \<Rightarrow> Some (min d c))
            | CompleteIfDueMatches e \<Rightarrow>
                if maintenance_due_at_col t = e then None else maintenance_due_at_col t) \<rparr>"
  by (cases schedule)
    (auto simp: schedule_replacement_def apply_replacement_def set_previous_def set_location_def set_due_def
      new_tuple_replacement_def min_def split: option.splits)


section \<open>The laws of the catalog\<close>

text \<open>
  What is relied on of PostgreSQL: every relation has at most one newest tuple; a tuple version names
  its relation and content for good; an update of a version succeeds only if that version is still
  the newest one of its relation and then replaces it; a failed update changes nothing. Scans may
  return older versions, and other sessions may change any row between two calls.
\<close>

record ('v, 'w) catalog_view =
  rows :: "'w \<Rightarrow> oid \<Rightarrow> ('v \<times> heap_tuple) option"
  version_content :: "'v \<Rightarrow> oid \<times> heap_tuple"

definition catalog_laws :: "('v, 'w) catalog_env \<Rightarrow> ('v, 'w) catalog_view \<Rightarrow> bool" where
  "catalog_laws C V \<longleftrightarrow>
     (\<forall>w r v t. rows V w r = Some (v, t) \<longrightarrow> version_content V v = (r, t))
   \<and> (\<forall>s r w v t w'. cat_scan C s r w = (Inr (Some (v, t)), w') \<longrightarrow> version_content V v = (r, t))
   \<and> (\<forall>v t w w'. cat_update C v t w = (Inr (), w') \<longrightarrow>
        (\<exists>r old v'. rows V w r = Some (v, old) \<and> rows V w' = (rows V w)(r \<mapsto> (v', t))))
   \<and> (\<forall>v t w e w'. cat_update C v t w = (Inl e, w') \<longrightarrow> rows V w' = rows V w)"

text \<open>One row replaced: the newest tuple of \<open>r\<close> was \<open>old\<close> and is \<open>new\<close> afterwards, nothing else changed.\<close>

definition replaced :: "('v, 'w) catalog_view \<Rightarrow> oid \<Rightarrow> heap_tuple \<Rightarrow> heap_tuple \<Rightarrow> 'w \<Rightarrow> 'w \<Rightarrow> bool" where
  "replaced V r old new w w' \<longleftrightarrow>
     (\<exists>v v'. rows V w r = Some (v, old) \<and> rows V w' = (rows V w)(r \<mapsto> (v', new)))"

lemma update_replaces:
  assumes "catalog_laws C V" and "version_content V v = (r, old)"
    and "update_optimistic C v t w = (Inr True, w')"
  shows "replaced V r old t w w'"
proof -
  have "cat_update C v t w = (Inr (), w')"
    using assms(3) by (auto simp: update_optimistic_def split: prod.splits sum.splits tuple_error.splits)
  with assms(1) obtain r' old' v' where u: "rows V w r' = Some (v, old')" "rows V w' = (rows V w)(r' \<mapsto> (v', t))"
    unfolding catalog_laws_def by metis
  moreover have "version_content V v = (r', old')" using assms(1) u(1) by (auto simp: catalog_laws_def)
  ultimately show ?thesis using assms(2) by (auto simp: replaced_def)
qed

lemma scan_version:
  assumes "catalog_laws C V" and "scan_relid C op s r w = (Inr (Some (v, t)), w')"
  shows "version_content V v = (r, t)"
proof -
  obtain w1 where "cat_scan C s r w1 = (Inr (Some (v, t)), w')"
    using assms(2) by (auto simp: scan_relid_def bind_act_Inr_iff)
  then show ?thesis using assms(1) unfolding catalog_laws_def by blast
qed

text \<open>Every writer opens the catalog, scans for its relation and then acts on what it found.\<close>

lemma open_scan_cases:
  assumes "bind_act (open_catalog C op) (\<lambda>_. bind_act (scan_relid C op s r) (\<lambda>found.
      case found of None \<Rightarrow> absent | Some (v, t) \<Rightarrow> present v t)) w = (Inr b, w')"
  obtains (absent) w1 where "absent w1 = (Inr b, w')"
    | (present) w0 w1 v t where "scan_relid C op s r w0 = (Inr (Some (v, t)), w1)" "present v t w1 = (Inr b, w')"
proof -
  obtain w0 found w1 where "scan_relid C op s r w0 = (Inr found, w1)"
      "(case found of None \<Rightarrow> absent | Some (v, t) \<Rightarrow> present v t) w1 = (Inr b, w')"
    using assms by (auto simp: bind_act_Inr_iff)
  then show thesis using that by (cases found) auto
qed

lemma conclude_replaces:
  assumes "catalog_laws C V" and "version_content V v = (r, old)"
    and "conclude_update C v t a w = (Inr b, w')"
  shows "b = a \<and> replaced V r old t w w'"
proof -
  have "b = a" "update_optimistic C v t w = (Inr True, w')"
    using assms(3) by (auto simp: conclude_update_def bind_act_Inr_iff split: if_splits)
  then show ?thesis using update_replaces [OF assms(1,2)] by simp
qed

definition deadline_after :: "maintenance_schedule_update \<Rightarrow> timestamp_tz option \<Rightarrow> timestamp_tz option" where
  "deadline_after schedule due = (case schedule of
       Preserve \<Rightarrow> due
     | ScheduleNoLaterThan d \<Rightarrow> (case due of None \<Rightarrow> Some d | Some c \<Rightarrow> Some (min d c))
     | CompleteIfDueMatches e \<Rightarrow> if due = e then None else due)"

lemma schedule_advanced:
  "snd (schedule_replacement schedule due t) \<longleftrightarrow> deadline_after schedule due \<noteq> due \<and> deadline_after schedule due \<noteq> None"
  by (cases schedule) (auto simp: schedule_replacement_def deadline_after_def min_def split: option.splits)

lemma cas_update_replaces:
  assumes "catalog_laws C V" and "cas_update C r expected new w = (Inr advanced, w')"
  shows "\<exists>w1 old. metadata_location_col old = expected
    \<and> replaced V r old (old \<lparr> metadata_location_col := new_metadata_location new,
         previous_metadata_location_col := new_previous_metadata_location new,
         maintenance_due_at_col := deadline_after (maintenance_schedule new) (maintenance_due_at_col old) \<rparr>) w1 w'
    \<and> (advanced \<longleftrightarrow> deadline_after (maintenance_schedule new) (maintenance_due_at_col old) \<noteq> maintenance_due_at_col old
         \<and> deadline_after (maintenance_schedule new) (maintenance_due_at_col old) \<noteq> None)"
proof -
  let ?t = "\<lambda>old. schedule_replacement (maintenance_schedule new) (maintenance_due_at_col old)
      (set_previous (new_previous_metadata_location new)
        (set_location (new_metadata_location new) new_tuple_replacement))"
  from assms(2) [unfolded cas_update_def] show ?thesis
  proof (cases rule: open_scan_cases)
    case (present w0 w1 v old)
    then have l: "metadata_location_col old = expected"
      and c: "conclude_update C v (apply_replacement (fst (?t old)) old) (snd (?t old)) w1 = (Inr advanced, w')"
      by (auto simp: Let_def split_beta split: if_splits)
    show ?thesis
      using conclude_replaces [OF assms(1) scan_version [OF assms(1) present(1)] c] l
      by (intro exI [of _ w1] exI [of _ old])
        (simp add: apply_replacement_cas schedule_advanced deadline_after_def)
  qed simp
qed

text \<open>
  C5. Compare-and-swap: when the update of a relation's metadata pointer succeeds, the tuple it
  replaced was the newest one of that relation and still had the expected location, so no
  concurrent publication is lost; the new tuple has the given locations and nothing else of the
  catalog changes. Scheduling moves the deadline only earlier, completion clears it only if it is
  the one completed, and the result says whether the deadline was brought forward.
\<close>
theorem cas_update_atomic:
  assumes "catalog_laws C V" and "cas_update C r expected new w = (Inr advanced, w')"
  shows "\<exists>w1 old. metadata_location_col old = expected
    \<and> replaced V r old (old \<lparr> metadata_location_col := new_metadata_location new,
         previous_metadata_location_col := new_previous_metadata_location new,
         maintenance_due_at_col := deadline_after (maintenance_schedule new) (maintenance_due_at_col old) \<rparr>) w1 w'
    \<and> (advanced \<longleftrightarrow> deadline_after (maintenance_schedule new) (maintenance_due_at_col old) \<noteq> maintenance_due_at_col old
         \<and> deadline_after (maintenance_schedule new) (maintenance_due_at_col old) \<noteq> None)"
  by (rule cas_update_replaces [OF assms])


lemma publish_attempts_replaces:
  assumes laws: "catalog_laws C V"
  shows "publish_attempts C r location m k w = (Inr (), w') \<Longrightarrow>
    \<exists>w1 old. replaced V r old (old \<lparr> metadata_location_col := Some location,
      previous_metadata_location_col := None, maintenance_due_at_col := None \<rparr>) w1 w'"
proof (induction k arbitrary: w)
  case (Suc k)
  let ?new = "\<lambda>t. t \<lparr> metadata_location_col := Some location,
      previous_metadata_location_col := None, maintenance_due_at_col := None \<rparr>"
  have new: "apply_replacement (set_due None (set_previous None (set_location (Some location)
      new_tuple_replacement))) t = ?new t" for t
    by (simp add: apply_replacement_def set_due_def set_previous_def set_location_def new_tuple_replacement_def)
  obtain found w1 where s: "cat_scan C SelfVisible r w = (Inr found, w1)"
    using Suc.prems by (auto simp: bind_act_Inr_iff)
  then obtain v t success w2 where v: "found = Some (v, t)"
    and u: "update_optimistic C v (?new t) w1 = (Inr success, w2)"
    and rest: "(if success then ok_act () else publish_attempts C r location m k) w2 = (Inr (), w')"
    using Suc.prems by (cases found) (auto simp: bind_act_Inr_iff new split: prod.splits)
  show ?case
  proof (cases success)
    case True
    have "version_content V v = (r, t)" using laws s v unfolding catalog_laws_def by blast
    then have "replaced V r t (?new t) w1 w2" using update_replaces [OF laws] u by (simp add: True)
    moreover have "w' = w2" using rest True by simp
    ultimately show ?thesis by blast
  next
    case False
    then show ?thesis using Suc.IH rest by simp
  qed
qed simp

text \<open>How often the loop scanned before it gave up, when every update meets a conflict.\<close>

lemma publish_attempts_conflict:
  assumes "\<And>w. \<exists>v t. cat_scan C SelfVisible r w = (Inr (Some (v, t)), w)"
    and "\<And>v t w. cat_update C v t w = (Inl TupleConflict, bump w)"
  shows "publish_attempts C r location m k w = (Inl (MetadataCommitConflict r m), (bump ^^ k) w)"
proof (induction k arbitrary: w)
  case 0
  then show ?case by (simp add: fail_act_def)
next
  case (Suc k)
  obtain v t where "cat_scan C SelfVisible r w = (Inr (Some (v, t)), w)" using assms(1) by blast
  then have "publish_attempts C r location m (Suc k) w = publish_attempts C r location m k (bump w)"
    using assms(2) by (simp add: bind_act_def map_err_act_def update_optimistic_def)
  then show ?case by (simp add: Suc.IH funpow_swap1)
qed

text \<open>
  C40. Publishing a rebuilt table: success means that the newest tuple of the relation, whatever
  concurrent deferrals did to it before, now has the new location, no previous location and no
  deadline; a table without a location is refused before the catalog is touched.
\<close>
theorem publish_rebuilt_table_replaces:
  assumes laws: "catalog_laws C V" and pub: "publish_rebuilt_table C m r loc w = (Inr (), w')"
  shows "\<exists>location w1 old. loc = Some location
    \<and> replaced V r old (old \<lparr> metadata_location_col := Some location,
         previous_metadata_location_col := None, maintenance_due_at_col := None \<rparr>) w1 w'"
proof (cases loc)
  case None
  then show ?thesis using pub by (simp add: publish_rebuilt_table_def)
next
  case (Some location)
  then show ?thesis using pub publish_attempts_replaces [OF laws]
    by (auto simp: publish_rebuilt_table_def bind_act_Inr_iff)
qed

text \<open>
  The publication loop is bounded: against an environment in which every update meets a newer
  tuple version it makes exactly \<open>max_retries + 1\<close> attempts and then reports the conflict.
\<close>
lemma publish_rebuilt_table_bounded:
  assumes "0 \<le> m" and "\<And>w. cat_resolve C w = (Inr (), w)" and "\<And>w. cat_open C w = (Inr (), w)"
    and "\<And>w. \<exists>v t. cat_scan C SelfVisible r w = (Inr (Some (v, t)), w)"
    and "\<And>v t w. cat_update C v t w = (Inl TupleConflict, bump w)"
  shows "publish_rebuilt_table C m r (Some location) w
    = (Inl (MetadataCommitConflict r m), (bump ^^ (nat m + 1)) w)"
proof -
  have "publish_rebuilt_table C m r (Some location) w = publish_attempts C r location m (nat (m + 1)) w"
    using assms(2,3) by (simp add: publish_rebuilt_table_def open_catalog_def bind_act_def map_err_act_def)
  moreover have "nat (m + 1) = nat m + 1" using assms(1) by simp
  ultimately show ?thesis by (simp only: publish_attempts_conflict [OF assms(4,5)])
qed

lemma collect_candidates_prefix:
  "collect_candidates limit rs acc = Inr cs \<Longrightarrow> length acc \<le> limit \<Longrightarrow>
    \<exists>ts. map Inr ts = take (limit - length acc) rs
      \<and> map (\<lambda>c. (Some (cand_relid c), cand_metadata_location c, Some (cand_due_at c))) cs
        = map (\<lambda>c. (Some (cand_relid c), cand_metadata_location c, Some (cand_due_at c))) acc
          @ map (\<lambda>t. (relid_col t, metadata_location_col t, maintenance_due_at_col t)) ts"
proof (induction rs arbitrary: acc)
  case (Cons item rest)
  show ?case
  proof (cases "limit \<le> length acc")
    case True
    then show ?thesis using Cons.prems by (intro exI [of _ "[]"]) simp
  next
    case False
    then obtain t r d where t: "item = Inr t" "relid_col t = Some r" "maintenance_due_at_col t = Some d"
      and c: "collect_candidates limit rest (acc @ [\<lparr> cand_relid = r,
        cand_metadata_location = metadata_location_col t, cand_due_at = d \<rparr>]) = Inr cs"
      using Cons.prems(1) by (cases item) (auto simp: and_then_Inr_iff required_def split: option.splits)
    obtain ts where ts: "map Inr ts = take (limit - length acc - 1) rest"
        "map (\<lambda>c. (Some (cand_relid c), cand_metadata_location c, Some (cand_due_at c))) cs
        = map (\<lambda>c. (Some (cand_relid c), cand_metadata_location c, Some (cand_due_at c))) acc
          @ (Some r, metadata_location_col t, Some d)
          # map (\<lambda>t. (relid_col t, metadata_location_col t, maintenance_due_at_col t)) ts"
      using Cons.IH [OF c] t False by auto
    then show ?thesis using t False
      by (intro exI [of _ "t # ts"]) (auto simp: take_Cons' )
  qed
qed auto

text \<open>
  Maintenance candidates: at most \<open>limit\<close> of them, namely the first tuples of the index scan over
  due deadlines, in its order and with nothing skipped.
\<close>
lemma maintenance_candidates_first:
  assumes "maintenance_candidates C limit now w = (Inr cs, w')"
  shows "length cs \<le> limit \<and> (limit = 0 \<or> (\<exists>w1 tuples ts. cat_due_scan C (Some now) w1 = (Inr tuples, w')
    \<and> map Inr ts = take limit tuples
    \<and> map (\<lambda>c. (Some (cand_relid c), cand_metadata_location c, Some (cand_due_at c))) cs
      = map (\<lambda>t. (relid_col t, metadata_location_col t, maintenance_due_at_col t)) ts))"
proof (cases "limit = 0")
  case True
  then show ?thesis using assms by (simp add: maintenance_candidates_def)
next
  case False
  then obtain w1 tuples where s: "cat_due_scan C (Some now) w1 = (Inr tuples, w')"
    and c: "collect_candidates limit tuples [] = Inr cs"
    using assms by (auto simp: maintenance_candidates_def bind_act_Inr_iff)
  from collect_candidates_prefix [OF c] obtain ts where ts: "map Inr ts = take limit tuples"
    "map (\<lambda>c. (Some (cand_relid c), cand_metadata_location c, Some (cand_due_at c))) cs
      = map (\<lambda>t. (relid_col t, metadata_location_col t, maintenance_due_at_col t)) ts" by auto
  have "length cs = length ts" using arg_cong [OF ts(2), of length] by simp
  moreover have "length ts \<le> limit" using arg_cong [OF ts(1), of length] by simp
  ultimately show ?thesis using s ts by auto
qed

section \<open>A concrete catalog\<close>

text \<open>
  A catalog without other sessions: the newest tuple of each relation, stamped with the number of the
  update that wrote it.
\<close>

type_synonym demo_version = "(oid \<times> heap_tuple) \<times> nat"
type_synonym demo_catalog_state = "(oid \<Rightarrow> demo_version option) \<times> nat"

fun demo_update :: "demo_version \<Rightarrow> heap_tuple \<Rightarrow> (tuple_error, unit, demo_catalog_state) act" where
  "demo_update v t (m, n) =
     (if m (fst (fst v)) = Some v then (Inr (), m(fst (fst v) \<mapsto> ((fst (fst v), t), n)), n + 1)
      else (Inl TupleConflict, m, n))"

fun demo_scan :: "catalog_snapshot \<Rightarrow> oid \<Rightarrow> (string, (demo_version \<times> heap_tuple) option, demo_catalog_state) act" where
  "demo_scan s r (m, n) = (case m r of
       Some ((r', t), k) \<Rightarrow> if r' = r then (Inr (Some (((r, t), k), t)), m, n) else (Inr None, m, n)
     | None \<Rightarrow> (Inr None, m, n))"

definition demo_catalog :: "(demo_version, demo_catalog_state) catalog_env" where
  "demo_catalog = \<lparr> cat_resolve = ok_act (), cat_open = ok_act (), cat_scan = demo_scan,
     cat_due_scan = (\<lambda>now. ok_act [Inr \<lparr> relid_col = Some 1, metadata_location_col = Some ''v1'',
        previous_metadata_location_col = None, maintenance_due_at_col = Some 5 \<rparr>]),
     cat_update = demo_update, cat_insert = (\<lambda>t. fail_act ''read only''), cat_delete = (\<lambda>v. fail_act ''read only'') \<rparr>"

definition demo_catalog_view :: "(demo_version, demo_catalog_state) catalog_view" where
  "demo_catalog_view = \<lparr> rows = (\<lambda>(m, n) r. case m r of
        Some ((r', t), k) \<Rightarrow> if r' = r then Some (((r, t), k), t) else None | None \<Rightarrow> None),
     version_content = fst \<rparr>"

lemma demo_catalog_laws: "catalog_laws demo_catalog demo_catalog_view"
proof -
  have u: "\<exists>r old v'. rows demo_catalog_view w r = Some (v, old)
      \<and> rows demo_catalog_view w' = (rows demo_catalog_view w)(r \<mapsto> (v', t))"
    if "demo_update v t w = (Inr (), w')" for v t w w'
  proof -
    obtain r old k where v: "v = ((r, old), k)" by (metis surj_pair)
    obtain m n where w: "w = (m, n)" by fastforce
    have "m r = Some v" "w' = (m(r \<mapsto> ((r, t), n)), n + 1)" using that v w by (auto split: if_splits)
    then show ?thesis using v w
      by (intro exI [of _ r] exI [of _ old] exI [of _ "((r, t), n)"])
        (auto simp: demo_catalog_view_def fun_eq_iff)
  qed
  have f: "w' = w" if "demo_update v t w = (Inl e, w')" for v t w e w'
    using that by (cases w) (auto split: if_splits)
  have s: "fst v = (r, t)" if "demo_scan s r w = (Inr (Some (v, t)), w')" for s r w v t w'
    using that by (cases w) (auto split: option.splits if_splits)
  have r: "fst v = (r, t)" if "rows demo_catalog_view w r = Some (v, t)" for w r v t
    using that by (cases w) (auto simp: demo_catalog_view_def split: option.splits if_splits)
  show ?thesis unfolding catalog_laws_def
    using u f s r by (auto simp: demo_catalog_def) (simp add: demo_catalog_view_def)+
qed

definition demo_row :: "string \<Rightarrow> timestamp_tz option \<Rightarrow> heap_tuple" where
  "demo_row l d = \<lparr> relid_col = Some 1, metadata_location_col = Some l,
     previous_metadata_location_col = None, maintenance_due_at_col = d \<rparr>"

definition demo_catalog_start :: demo_catalog_state where
  "demo_catalog_start = ([1 \<mapsto> ((1, demo_row ''v1'' (Some 9)), 0)], 1)"

definition demo_cas :: cas_update_values where
  "demo_cas = \<lparr> new_metadata_location = Some ''v2'', new_previous_metadata_location = Some ''v1'',
     maintenance_schedule = ScheduleNoLaterThan 5 \<rparr>"

definition demo_candidate :: maintenance_candidate where
  "demo_candidate = \<lparr> cand_relid = 1, cand_metadata_location = Some ''v1'', cand_due_at = 9 \<rparr>"

lemmas demo_catalog_defs = demo_catalog_def demo_catalog_start_def demo_cas_def demo_candidate_def demo_row_def
  open_catalog_def scan_relid_def bind_act_def map_err_act_def ok_act_def fail_act_def update_optimistic_def
  conclude_update_def

lemma demo_runs:
  "fst (cas_update demo_catalog 1 (Some ''v1'') demo_cas demo_catalog_start) = Inr True"
  "fst (defer_maintenance demo_catalog demo_candidate 20 demo_catalog_start) = Inr True"
  "fst (finish_maintenance demo_catalog 1 ''v1'' (CompleteIfDueMatches (Some 9)) demo_catalog_start) = Inr ()"
  "fst (publish_rebuilt_table demo_catalog 2 1 (Some ''v7'') demo_catalog_start) = Inr ()"
  "fst (maintenance_candidates demo_catalog 3 8 demo_catalog_start)
     = Inr [\<lparr> cand_relid = 1, cand_metadata_location = Some ''v1'', cand_due_at = 5 \<rparr>]"
  by (simp_all add: demo_catalog_defs cas_update_def schedule_replacement_def defer_maintenance_def
      finish_maintenance_def publish_rebuilt_table_def maintenance_candidates_def lift_act_def required_def
      numeral_nat numeral_eq_Suc nat_add_distrib)

theorem cas_update_atomic_witness:
  "catalog_laws demo_catalog demo_catalog_view
   \<and> fst (cas_update demo_catalog 1 (Some ''v1'') demo_cas demo_catalog_start) = Inr True
   \<and> (\<exists>w1 old. metadata_location_col old = Some ''v1''
        \<and> replaced demo_catalog_view 1 old (old \<lparr> metadata_location_col := Some ''v2'',
             previous_metadata_location_col := Some ''v1'',
             maintenance_due_at_col := deadline_after (ScheduleNoLaterThan 5) (maintenance_due_at_col old) \<rparr>)
           w1 (snd (cas_update demo_catalog 1 (Some ''v1'') demo_cas demo_catalog_start)))"
  using cas_update_atomic [OF demo_catalog_laws surjective_pairing [of "cas_update demo_catalog 1 (Some ''v1'')
      demo_cas demo_catalog_start", unfolded demo_runs]] demo_catalog_laws demo_runs(1)
  by (auto simp: demo_cas_def)


theorem publish_rebuilt_table_replaces_witness:
  "catalog_laws demo_catalog demo_catalog_view
   \<and> fst (publish_rebuilt_table demo_catalog 2 1 (Some ''v7'') demo_catalog_start) = Inr ()
   \<and> (\<exists>w1 old. replaced demo_catalog_view 1 old (old \<lparr> metadata_location_col := Some ''v7'',
         previous_metadata_location_col := None, maintenance_due_at_col := None \<rparr>) w1
         (snd (publish_rebuilt_table demo_catalog 2 1 (Some ''v7'') demo_catalog_start)))"
proof -
  have p: "publish_rebuilt_table demo_catalog 2 1 (Some ''v7'') demo_catalog_start
      = (Inr (), snd (publish_rebuilt_table demo_catalog 2 1 (Some ''v7'') demo_catalog_start))"
    using demo_runs(4) by (simp add: prod_eq_iff)
  from publish_rebuilt_table_replaces [OF demo_catalog_laws p]
  show ?thesis using demo_catalog_laws demo_runs(4) by auto
qed

end
