(* ===== verification/Catalog_Commit.thy ===== *)
theory Catalog_Commit
  imports Tx_Metadata Storage_Resources Metadata_Catalog
begin

text \<open>
  The optimistic catalog commit of one table and of the whole transaction
  (\<open>managed_table/catalog/metadata_tracker/commit.rs\<close>): every attempt reads the newest metadata
  location, builds the table on it, replays the commit plan, writes new metadata inside a metadata
  attempt and publishes it with a compare-and-swap of the catalog row; a conflict discards the
  attempt and starts over, a bounded number of times.

  The state is the storage registry and the outside world. \<open>iceberg_lite\<close> (table metadata, tables,
  transactions), the settings, the clock, VACUUM attempts and the notice channel are parameters.
\<close>

section \<open>The surroundings\<close>

type_synonym ('io, 'l, 'svc, 'w) commit_state = "('io, 'l, 'svc) storage_resource_registry \<times> 'w"

record ('io, 'm, 'tbl, 't, 'e, 'vr, 's) commit_api =
  max_commit_retries :: int
  auto_maintenance_naptime_micros :: nat
  transaction_start_timestamp :: int
  read_metadata :: "'io \<Rightarrow> string \<Rightarrow> (iceberg_error, 'm, 's) act"
  build_table :: "string \<Rightarrow> 'm \<Rightarrow> oid \<Rightarrow> 'io \<Rightarrow> 'tbl iceberg_result"
  table_metadata :: "'tbl \<Rightarrow> 'm"
  table_location :: "'tbl \<Rightarrow> string option"
  new_transaction :: "'tbl \<Rightarrow> 't"
  commit_transaction :: "'t \<Rightarrow> 'tbl \<Rightarrow> (iceberg_error, 'tbl, 's) act"
  completion_token :: "'e \<Rightarrow> maintenance_completion_token"
  vacuum_apply_actions :: "'e \<Rightarrow> 'tbl \<Rightarrow> string \<Rightarrow> nat \<Rightarrow> 't \<Rightarrow> (iceberg_error, 't, 's) act"
  vacuum_finish :: "'e \<Rightarrow> 'tbl \<Rightarrow> string \<Rightarrow> nat \<Rightarrow> 'tbl \<Rightarrow> (iceberg_error, 'vr, 's) act"
  vacuum_has_cleanup :: "'vr \<Rightarrow> bool"
  vacuum_register_cleanup :: "'vr \<Rightarrow> oid \<Rightarrow> 'io \<Rightarrow> (iceberg_error, 'vr, 's) act"
  vacuum_report_success :: "'vr \<Rightarrow> 'e \<Rightarrow> (iceberg_error, unit, 's) act"
  register_canceled_files :: "'io \<Rightarrow> string list \<Rightarrow> 's \<Rightarrow> 's"
  report_notice :: "string \<Rightarrow> 's \<Rightarrow> 's"
  stage_wakeup :: "(iceberg_error, unit, 's) act"

text \<open>A catalog operation leaves the storage registry alone.\<close>

definition on_world :: "('e, 'a, 'w) act \<Rightarrow> ('e, 'a, ('io, 'l, 'svc, 'w) commit_state) act" where
  "on_world m s = (let (r, w) = m (snd s) in (r, (fst s, w)))"

section \<open>A metadata attempt\<close>

text \<open>
  \<open>MetadataMaterializationAttempt\<close>: \<open>promote\<close> and \<open>discard\<close> consume the attempt; an attempt that is
  dropped unresolved, also by an early return or by a failed \<open>promote\<close>, is discarded, with a warning
  if that fails.
\<close>

definition attempt_begin :: "nest_level \<Rightarrow> (iceberg_error, metadata_attempt_id, ('io, 'l, 'svc, 'w) commit_state) act" where
  "attempt_begin n s = (let (r, reg) = begin_metadata_attempt n (fst s) in (r, (reg, snd s)))"

definition attempt_drop :: "('io, 'l, 'svc, 'w) storage_env \<Rightarrow> metadata_attempt_id
    \<Rightarrow> ('io, 'l, 'svc, 'w) commit_state \<Rightarrow> ('io, 'l, 'svc, 'w) commit_state" where
  "attempt_drop E i s = (case discard_metadata_attempt E i (fst s) (snd s) of
       (Inr _, reg, w) \<Rightarrow> (reg, w)
     | (Inl error, reg, w) \<Rightarrow>
         (reg, report_warning E ''failed to discard unresolved metadata resource attempt'' w))"

definition attempt_promote :: "('io, 'l, 'svc, 'w) storage_env \<Rightarrow> metadata_attempt_id
    \<Rightarrow> (iceberg_error, unit, ('io, 'l, 'svc, 'w) commit_state) act" where
  "attempt_promote E i s = (case promote_metadata_attempt i (fst s) of
       (Inr _, reg) \<Rightarrow> (Inr (), (reg, snd s))
     | (Inl error, reg) \<Rightarrow> (Inl error, attempt_drop E i (reg, snd s)))"

definition attempt_discard :: "('io, 'l, 'svc, 'w) storage_env \<Rightarrow> metadata_attempt_id
    \<Rightarrow> (iceberg_error, unit, ('io, 'l, 'svc, 'w) commit_state) act" where
  "attempt_discard E i s = (case discard_metadata_attempt E i (fst s) (snd s) of
       (Inr _, reg, w) \<Rightarrow> (Inr (), (reg, w))
     | (Inl error, reg, w) \<Rightarrow> (Inl error, attempt_drop E i (reg, w)))"

text \<open>Code that may return early while it holds the attempt.\<close>

definition holding_attempt :: "('io, 'l, 'svc, 'w) storage_env \<Rightarrow> metadata_attempt_id
    \<Rightarrow> (iceberg_error, 'a, ('io, 'l, 'svc, 'w) commit_state) act
    \<Rightarrow> (iceberg_error, 'a, ('io, 'l, 'svc, 'w) commit_state) act" where
  "holding_attempt E i m s = (case m s of
       (Inr a, s) \<Rightarrow> (Inr a, s)
     | (Inl error, s) \<Rightarrow> (Inl error, attempt_drop E i s))"

section \<open>One attempt\<close>

definition saturating_due :: "int \<Rightarrow> nat \<Rightarrow> int" where
  "saturating_due now micros = sat_add_i64 now (if int micros \<le> i64_max then int micros else i64_max)"

definition write_schedule :: "('io, 'm, 'tbl, 't, 'e, 'vr, 's) commit_api
    \<Rightarrow> ('d, 'v, 'u, 'fv, 'e, string) tx_table_commit_plan \<Rightarrow> maintenance_schedule_update" where
  "write_schedule A plan =
     (if has_data_change plan
      then ScheduleNoLaterThan (saturating_due (transaction_start_timestamp A) (auto_maintenance_naptime_micros A))
      else Preserve)"

definition attempt_schedule :: "('io, 'm, 'tbl, 't, 'e, 'vr, 's) commit_api
    \<Rightarrow> ('d, 'v, 'u, 'fv, 'e, string) tx_table_commit_plan \<Rightarrow> string \<Rightarrow> maintenance_schedule_update" where
  "attempt_schedule A plan latest = (case exclusive_action plan of
       Some vacuum \<Rightarrow>
         if token_metadata_location (completion_token A vacuum) = latest
         then CompleteIfDueMatches (token_maintenance_due_at (completion_token A vacuum))
         else Preserve
     | None \<Rightarrow> write_schedule A plan)"

text \<open>Everything written inside the attempt: the new location and the result of a VACUUM.\<close>

definition materialize :: "('u, 'm) schema_api \<Rightarrow> ('m, 'fv, 'sc) metadata_api \<Rightarrow> 'd delta_api
    \<Rightarrow> ('t, 'd, 'v, 'u) transaction_api \<Rightarrow> ('io, 'm, 'tbl, 't, 'e, 'vr, 's) commit_api
    \<Rightarrow> ('d, 'v, 'u, 'fv, 'e, string) tx_table_commit_plan \<Rightarrow> string \<Rightarrow> 'tbl \<Rightarrow> nat
    \<Rightarrow> (iceberg_error, string \<times> 'vr option, 's) act" where
  "materialize U T D X A plan latest base retry =
     bind_act (case exclusive_action plan of
         None \<Rightarrow> ok_act (new_transaction A base)
       | Some vacuum \<Rightarrow> vacuum_apply_actions A vacuum base latest retry (new_transaction A base)) (\<lambda>tx.
     bind_act (lift_act (apply_to_transaction U T D X plan tx (table_metadata A base))) (\<lambda>tx.
     bind_act (commit_transaction A tx base) (\<lambda>updated.
       case table_location A updated of
         None \<Rightarrow> fail_act MetadataLocationNull
       | Some location \<Rightarrow> (case exclusive_action plan of
             None \<Rightarrow> ok_act (location, None)
           | Some vacuum \<Rightarrow> bind_act (vacuum_finish A vacuum base latest retry updated)
               (\<lambda>result. ok_act (location, Some result))))))"

datatype attempt_outcome = AttemptDone bool | AttemptRetry

text \<open>The tail shared by both successful exits: report the VACUUM, hand over the canceled files.\<close>

definition conclude_commit :: "('io, 'm, 'tbl, 't, 'e, 'vr, 's) commit_api
    \<Rightarrow> ('d, 'v, 'u, 'fv, 'e, string) tx_table_commit_plan \<Rightarrow> 'io \<Rightarrow> 'vr option \<Rightarrow> bool
    \<Rightarrow> (iceberg_error, attempt_outcome, 's) act" where
  "conclude_commit A plan io result advanced =
     bind_act (case (exclusive_action plan, result) of
         (Some vacuum, Some vr) \<Rightarrow> vacuum_report_success A vr vacuum
       | _ \<Rightarrow> ok_act ()) (\<lambda>_ s.
       (Inr (AttemptDone advanced), register_canceled_files A io (canceled_created_paths plan) s))"

definition retry_after_conflict :: "('io, 'm, 'tbl, 't, 'e, 'vr, 's) commit_api
    \<Rightarrow> (iceberg_error, attempt_outcome, 's) act" where
  "retry_after_conflict A s =
     (Inr AttemptRetry, report_notice A ''Concurrent Iceberg update detected, rebasing...'' s)"

text \<open>The metadata is unchanged: only a VACUUM has catalog work left.\<close>

definition conclude_unchanged :: "('ver, 'w) catalog_env
    \<Rightarrow> ('io, 'm, 'tbl, 't, 'e, 'vr, ('io, 'l, 'svc, 'w) commit_state) commit_api
    \<Rightarrow> ('d, 'v, 'u, 'fv, 'e, string) tx_table_commit_plan \<Rightarrow> oid \<Rightarrow> 'io \<Rightarrow> string \<Rightarrow> 'vr option
    \<Rightarrow> (iceberg_error, attempt_outcome, ('io, 'l, 'svc, 'w) commit_state) act" where
  "conclude_unchanged C A plan r io latest result s =
     (if exclusive_action plan = None then conclude_commit A plan io result False s
      else case on_world (finish_maintenance C r latest (attempt_schedule A plan latest)) s of
          (Inr _, s) \<Rightarrow>
            bind_act (case result of
                Some vr \<Rightarrow> if vacuum_has_cleanup A vr
                  then bind_act (vacuum_register_cleanup A vr r io) (\<lambda>vr. ok_act (Some vr)) else ok_act (Some vr)
              | None \<Rightarrow> ok_act None) (\<lambda>result. conclude_commit A plan io result False) s
        | (Inl error, s) \<Rightarrow>
            if error = MetadataCatalog Conflict then retry_after_conflict A s else (Inl error, s))"

definition conclude_published :: "('io, 'm, 'tbl, 't, 'e, 'vr, 's) commit_api
    \<Rightarrow> ('d, 'v, 'u, 'fv, 'e, string) tx_table_commit_plan \<Rightarrow> oid \<Rightarrow> 'io \<Rightarrow> 'vr option \<Rightarrow> bool
    \<Rightarrow> (iceberg_error, attempt_outcome, 's) act" where
  "conclude_published A plan r io result advanced =
     bind_act (case result of
         Some vr \<Rightarrow> bind_act (vacuum_register_cleanup A vr r io) (\<lambda>vr. ok_act (Some vr))
       | None \<Rightarrow> ok_act None) (\<lambda>result. conclude_commit A plan io result advanced)"

definition publish :: "('io, 'l, 'svc, 'w) storage_env \<Rightarrow> ('ver, 'w) catalog_env
    \<Rightarrow> ('io, 'm, 'tbl, 't, 'e, 'vr, ('io, 'l, 'svc, 'w) commit_state) commit_api
    \<Rightarrow> ('d, 'v, 'u, 'fv, 'e, string) tx_table_commit_plan \<Rightarrow> oid \<Rightarrow> 'io \<Rightarrow> string \<Rightarrow> metadata_attempt_id
    \<Rightarrow> string \<Rightarrow> 'vr option \<Rightarrow> (iceberg_error, attempt_outcome, ('io, 'l, 'svc, 'w) commit_state) act" where
  "publish E C A plan r io latest i location result s =
     (case on_world (cas_update C r (Some latest)
          \<lparr> new_metadata_location = Some location, new_previous_metadata_location = Some latest,
            maintenance_schedule = attempt_schedule A plan latest \<rparr>) s of
        (Inr advanced, s) \<Rightarrow>
          bind_act (attempt_promote E i) (\<lambda>_. conclude_published A plan r io result advanced) s
      | (Inl error, s) \<Rightarrow>
          if error = MetadataCatalog Conflict
          then bind_act (attempt_discard E i) (\<lambda>_. retry_after_conflict A) s
          else (Inl error, attempt_drop E i s))"

text \<open>The rest of an attempt once the newest location is known and allowed.\<close>

definition commit_on_latest :: "('u, 'm) schema_api \<Rightarrow> ('m, 'fv, 'sc) metadata_api \<Rightarrow> 'd delta_api
    \<Rightarrow> ('t, 'd, 'v, 'u) transaction_api \<Rightarrow> ('io, 'l, 'svc, 'w) storage_env \<Rightarrow> ('ver, 'w) catalog_env
    \<Rightarrow> ('io, 'm, 'tbl, 't, 'e, 'vr, ('io, 'l, 'svc, 'w) commit_state) commit_api
    \<Rightarrow> ('d, 'v, 'u, 'fv, 'e, string) tx_table_commit_plan \<Rightarrow> oid \<Rightarrow> 'io \<Rightarrow> nest_level \<Rightarrow> nat \<Rightarrow> string
    \<Rightarrow> (iceberg_error, attempt_outcome, ('io, 'l, 'svc, 'w) commit_state) act" where
  "commit_on_latest U T D X E C A plan r io n retry latest =
     bind_act (read_metadata A io latest) (\<lambda>metadata.
     bind_act (lift_act (build_table A latest metadata r io)) (\<lambda>base.
     bind_act (attempt_begin n) (\<lambda>i.
     bind_act (holding_attempt E i (materialize U T D X A plan latest base retry)) (\<lambda>(location, result).
       if location = latest
       then bind_act (attempt_discard E i) (\<lambda>_. conclude_unchanged C A plan r io latest result)
       else publish E C A plan r io latest i location result))))"

definition commit_attempt :: "('u, 'm) schema_api \<Rightarrow> ('m, 'fv, 'sc) metadata_api \<Rightarrow> 'd delta_api
    \<Rightarrow> ('t, 'd, 'v, 'u) transaction_api \<Rightarrow> ('io, 'l, 'svc, 'w) storage_env \<Rightarrow> ('ver, 'w) catalog_env
    \<Rightarrow> ('io, 'm, 'tbl, 't, 'e, 'vr, ('io, 'l, 'svc, 'w) commit_state) commit_api
    \<Rightarrow> ('d, 'v, 'u, 'fv, 'e, string) tx_table_commit_plan \<Rightarrow> oid \<Rightarrow> 'io \<Rightarrow> nest_level \<Rightarrow> nat
    \<Rightarrow> (iceberg_error, attempt_outcome, ('io, 'l, 'svc, 'w) commit_state) act" where
  "commit_attempt U T D X E C A plan r io n retry =
     bind_act (on_world (get_row C r)) (\<lambda>row.
       case metadata_location row of
         None \<Rightarrow> fail_act MetadataLocationNull
       | Some latest \<Rightarrow>
           if (case truncate_guard plan of None \<Rightarrow> False | Some expected \<Rightarrow> expected \<noteq> latest)
           then fail_act (TruncateCommitConflict r)
           else commit_on_latest U T D X E C A plan r io n retry latest)"

text \<open>\<open>retries > max_retry_count\<close> ends the loop: \<open>max_retries + 1\<close> attempts, numbered from 0.\<close>

primrec commit_attempts :: "('u, 'm) schema_api \<Rightarrow> ('m, 'fv, 'sc) metadata_api \<Rightarrow> 'd delta_api
    \<Rightarrow> ('t, 'd, 'v, 'u) transaction_api \<Rightarrow> ('io, 'l, 'svc, 'w) storage_env \<Rightarrow> ('ver, 'w) catalog_env
    \<Rightarrow> ('io, 'm, 'tbl, 't, 'e, 'vr, ('io, 'l, 'svc, 'w) commit_state) commit_api
    \<Rightarrow> ('d, 'v, 'u, 'fv, 'e, string) tx_table_commit_plan \<Rightarrow> oid \<Rightarrow> 'io \<Rightarrow> nest_level \<Rightarrow> nat
    \<Rightarrow> (iceberg_error, bool, ('io, 'l, 'svc, 'w) commit_state) act" where
  "commit_attempts U T D X E C A plan r io n 0 = fail_act (MetadataCommitConflict r (max_commit_retries A))"
| "commit_attempts U T D X E C A plan r io n (Suc left) =
     bind_act (commit_attempt U T D X E C A plan r io n (nat (max_commit_retries A) - left)) (\<lambda>outcome.
       case outcome of
         AttemptDone advanced \<Rightarrow> ok_act advanced
       | AttemptRetry \<Rightarrow> commit_attempts U T D X E C A plan r io n left)"

definition commit_table :: "('u, 'm) schema_api \<Rightarrow> ('m, 'fv, 'sc) metadata_api \<Rightarrow> 'd delta_api
    \<Rightarrow> ('t, 'd, 'v, 'u) transaction_api \<Rightarrow> ('io, 'l, 'svc, 'w) storage_env \<Rightarrow> ('ver, 'w) catalog_env
    \<Rightarrow> ('io, 'm, 'tbl, 't, 'e, 'vr, ('io, 'l, 'svc, 'w) commit_state) commit_api
    \<Rightarrow> ('d, 'v, 'u, 'fv, 'e, string) tx_table_commit_plan \<Rightarrow> oid \<Rightarrow> 'io \<Rightarrow> nest_level
    \<Rightarrow> (iceberg_error, bool, ('io, 'l, 'svc, 'w) commit_state) act" where
  "commit_table U T D X E C A plan r io n =
     commit_attempts U T D X E C A plan r io n (nat (max_commit_retries A) + 1)"

section \<open>The whole transaction\<close>

text \<open>
  \<open>commit_all\<close>: the tracked relations in the order of their OIDs, each detached and committed. What
  planning writes into the read caches of a log is not observable and not kept here.
\<close>

primrec commit_tables :: "('u, 'm) schema_api \<Rightarrow> ('m, 'fv, 'sc) metadata_api \<Rightarrow> 'd delta_api
    \<Rightarrow> ('t, 'd, 'v, 'u) transaction_api \<Rightarrow> 'e exclusive_api \<Rightarrow> ('io, 'l, 'svc, 'w) storage_env \<Rightarrow> ('ver, 'w) catalog_env
    \<Rightarrow> ('io, 'm, 'tbl, 't, 'e, 'vr, ('io, 'l, 'svc, 'w) commit_state) commit_api
    \<Rightarrow> ('d, 'v, 'u, 'fv, 'e, 'io) tx_metadata \<Rightarrow> nest_level \<Rightarrow> oid list \<Rightarrow> bool
    \<Rightarrow> (iceberg_error, bool, ('io, 'l, 'svc, 'w) commit_state) act" where
  "commit_tables U T D X EA E C A t n [] wakeup = ok_act wakeup"
| "commit_tables U T D X EA E C A t n (r # rs) wakeup =
     bind_act (lift_act (commit_input U r t)) (\<lambda>detached.
       case detached of
         None \<Rightarrow> commit_tables U T D X EA E C A t n rs wakeup
       | Some input \<Rightarrow>
           bind_act (lift_act (fst (commit_plan D EA (input_actions input)))) (\<lambda>plan.
           bind_act (commit_table U T D X E C A plan r (input_file_io input) n) (\<lambda>advanced.
             commit_tables U T D X EA E C A t n rs (wakeup \<or> advanced))))"

definition commit_all :: "('u, 'm) schema_api \<Rightarrow> ('m, 'fv, 'sc) metadata_api \<Rightarrow> 'd delta_api
    \<Rightarrow> ('t, 'd, 'v, 'u) transaction_api \<Rightarrow> 'e exclusive_api \<Rightarrow> ('io, 'l, 'svc, 'w) storage_env \<Rightarrow> ('ver, 'w) catalog_env
    \<Rightarrow> ('io, 'm, 'tbl, 't, 'e, 'vr, ('io, 'l, 'svc, 'w) commit_state) commit_api
    \<Rightarrow> ('d, 'v, 'u, 'fv, 'e, 'io) tx_metadata \<Rightarrow> nest_level
    \<Rightarrow> (iceberg_error, bool, ('io, 'l, 'svc, 'w) commit_state) act" where
  "commit_all U T D X EA E C A t n =
     commit_tables U T D X EA E C A t n (sort_key unat (map fst (tables t))) False"

definition tracker_on_pre_commit :: "('u, 'm) schema_api \<Rightarrow> ('m, 'fv, 'sc) metadata_api \<Rightarrow> 'd delta_api
    \<Rightarrow> ('t, 'd, 'v, 'u) transaction_api \<Rightarrow> 'e exclusive_api \<Rightarrow> ('io, 'l, 'svc, 'w) storage_env \<Rightarrow> ('ver, 'w) catalog_env
    \<Rightarrow> ('io, 'm, 'tbl, 't, 'e, 'vr, ('io, 'l, 'svc, 'w) commit_state) commit_api
    \<Rightarrow> ('d, 'v, 'u, 'fv, 'e, 'io) tx_metadata \<Rightarrow> nest_level
    \<Rightarrow> (iceberg_error, unit, ('io, 'l, 'svc, 'w) commit_state) act" where
  "tracker_on_pre_commit U T D X EA E C A t n =
     bind_act (commit_all U T D X EA E C A t n) (\<lambda>wakeup. if wakeup then stage_wakeup A else ok_act ())"

section \<open>What a published table was built on\<close>

text \<open>
  The trace of a successful commit: some attempt read the metadata at \<open>base\<close>, built and materialized
  the plan on it, and either found nothing to publish or replaced a catalog row whose location was
  still \<open>base\<close>.
\<close>

definition built_on :: "('u, 'm) schema_api \<Rightarrow> ('m, 'fv, 'sc) metadata_api \<Rightarrow> 'd delta_api
    \<Rightarrow> ('t, 'd, 'v, 'u) transaction_api \<Rightarrow> ('ver, 'w) catalog_view
    \<Rightarrow> ('io, 'm, 'tbl, 't, 'e, 'vr, ('io, 'l, 'svc, 'w) commit_state) commit_api
    \<Rightarrow> ('d, 'v, 'u, 'fv, 'e, string) tx_table_commit_plan \<Rightarrow> oid \<Rightarrow> 'io \<Rightarrow> string \<Rightarrow> string \<Rightarrow> bool \<Rightarrow> bool" where
  "built_on U T D X V A plan r io base location advanced \<longleftrightarrow>
     (truncate_guard plan = None \<or> truncate_guard plan = Some base)
   \<and> (\<exists>s1 s2 s3 s4 metadata table retry result.
        read_metadata A io base s1 = (Inr metadata, s2) \<and> build_table A base metadata r io = Inr table
      \<and> materialize U T D X A plan base table retry s3 = (Inr (location, result), s4))
   \<and> (if location = base then \<not> advanced
      else \<exists>w1 w2 old. metadata_location_col old = Some base
         \<and> replaced V r old (old \<lparr> metadata_location_col := Some location,
              previous_metadata_location_col := Some base,
              maintenance_due_at_col := deadline_after (attempt_schedule A plan base) (maintenance_due_at_col old) \<rparr>) w1 w2)"

lemma on_world_Inr: "on_world m s = (Inr a, s') \<longleftrightarrow> (\<exists>w. m (snd s) = (Inr a, w) \<and> s' = (fst s, w))"
  by (auto simp: on_world_def split: prod.splits)

lemma holding_Inr: "holding_attempt E i m s = (Inr a, s') \<longleftrightarrow> m s = (Inr a, s')"
  by (auto simp: holding_attempt_def split: prod.splits sum.splits)

lemma conclude_commit_done: "conclude_commit A plan io result adv s = (Inr o', s') \<Longrightarrow> o' = AttemptDone adv"
  by (auto simp: conclude_commit_def bind_act_Inr_iff)

lemma retry_not_done [simp]: "retry_after_conflict A s = (Inr (AttemptDone adv), s') \<longleftrightarrow> False"
  by (simp add: retry_after_conflict_def)

lemma conclude_published_done:
  "conclude_published A plan r io result adv s = (Inr (AttemptDone adv'), s') \<Longrightarrow> adv' = adv"
  by (auto simp: conclude_published_def bind_act_Inr_iff dest!: conclude_commit_done)

lemma conclude_unchanged_done:
  "conclude_unchanged C A plan r io latest result s = (Inr (AttemptDone adv), s') \<Longrightarrow> \<not> adv"
  by (auto simp: conclude_unchanged_def bind_act_Inr_iff dest!: conclude_commit_done
      split: if_splits prod.splits sum.splits)

lemma publish_done:
  assumes laws: "catalog_laws C V"
    and p: "publish E C A plan r io base i location result s = (Inr (AttemptDone adv), s')"
  shows "\<exists>w1 w2 old. metadata_location_col old = Some base
    \<and> replaced V r old (old \<lparr> metadata_location_col := Some location,
         previous_metadata_location_col := Some base,
         maintenance_due_at_col := deadline_after (attempt_schedule A plan base) (maintenance_due_at_col old) \<rparr>) w1 w2"
proof -
  obtain a w where "cas_update C r (Some base) \<lparr> new_metadata_location = Some location,
      new_previous_metadata_location = Some base, maintenance_schedule = attempt_schedule A plan base \<rparr> (snd s)
      = (Inr a, w)"
    using p by (auto simp: publish_def on_world_def bind_act_Inr_iff split: prod.splits sum.splits if_splits)
  from cas_update_replaces [OF laws this] show ?thesis by auto
qed

lemma commit_on_latest_done:
  assumes laws: "catalog_laws C V" and guard: "truncate_guard plan = None \<or> truncate_guard plan = Some latest"
    and c: "commit_on_latest U T D X E C A plan r io n retry latest s = (Inr (AttemptDone adv), s')"
  shows "\<exists>base location. built_on U T D X V A plan r io base location adv"
proof -
  let ?tail = "\<lambda>i (location, result). if location = latest
      then bind_act (attempt_discard E i) (\<lambda>_. conclude_unchanged C A plan r io latest result)
      else publish E C A plan r io latest i location result"
  from c [unfolded commit_on_latest_def] obtain metadata s2
    where m: "read_metadata A io latest s = (Inr metadata, s2)"
      and rest: "bind_act (lift_act (build_table A latest metadata r io)) (\<lambda>base.
            bind_act (attempt_begin n) (\<lambda>i.
            bind_act (holding_attempt E i (materialize U T D X A plan latest base retry)) (?tail i))) s2
      = (Inr (AttemptDone adv), s')"
    by (rule bind_act_InrE)
  from rest obtain table s3 where b: "lift_act (build_table A latest metadata r io) s2 = (Inr table, s3)"
    and rest: "bind_act (attempt_begin n) (\<lambda>i.
            bind_act (holding_attempt E i (materialize U T D X A plan latest table retry)) (?tail i)) s3
      = (Inr (AttemptDone adv), s')"
    by (rule bind_act_InrE)
  from rest obtain i s4 where i: "attempt_begin n s3 = (Inr i, s4)" and
    rest: "bind_act (holding_attempt E i (materialize U T D X A plan latest table retry)) (?tail i) s4
      = (Inr (AttemptDone adv), s')"
    by (rule bind_act_InrE)
  from rest obtain lr s5 where mat: "holding_attempt E i (materialize U T D X A plan latest table retry) s4 = (Inr lr, s5)"
    and tail: "?tail i lr s5 = (Inr (AttemptDone adv), s')"
    by (rule bind_act_InrE)
  obtain location result where lr: "lr = (location, result)" by fastforce
  have m: "\<exists>s1 s2 s3 s4 metadata table retry result. read_metadata A io latest s1 = (Inr metadata, s2)
      \<and> build_table A latest metadata r io = Inr table
      \<and> materialize U T D X A plan latest table retry s3 = (Inr (location, result), s4)"
    by (intro exI [of _ s] exI [of _ s2] exI [of _ s4] exI [of _ s5] exI [of _ metadata] exI [of _ table]
          exI [of _ retry] exI [of _ result] conjI)
      (use m b mat lr in \<open>simp_all add: holding_Inr\<close>)
  show ?thesis
  proof (cases "location = latest")
    case True
    then have "\<not> adv" using tail lr by (auto simp: bind_act_Inr_iff dest!: conclude_unchanged_done)
    then show ?thesis using guard m True unfolding built_on_def by (intro exI [of _ latest] exI [of _ location]) simp
  next
    case False
    then have "publish E C A plan r io latest i location result s5 = (Inr (AttemptDone adv), s')"
      using tail lr by simp
    from publish_done [OF laws this] show ?thesis
      using guard m False unfolding built_on_def by (intro exI [of _ latest] exI [of _ location]) simp
  qed
qed

lemma commit_attempt_done:
  assumes laws: "catalog_laws C V"
    and c: "commit_attempt U T D X E C A plan r io n retry s = (Inr (AttemptDone adv), s')"
  shows "\<exists>base location. built_on U T D X V A plan r io base location adv"
proof -
  from c [unfolded commit_attempt_def] obtain row s1
    where row: "on_world (get_row C r) s = (Inr row, s1)"
      and rest: "(case metadata_location row of
          None \<Rightarrow> fail_act MetadataLocationNull
        | Some latest \<Rightarrow>
            if (case truncate_guard plan of None \<Rightarrow> False | Some expected \<Rightarrow> expected \<noteq> latest)
            then fail_act (TruncateCommitConflict r)
            else commit_on_latest U T D X E C A plan r io n retry latest) s1 = (Inr (AttemptDone adv), s')"
    by (rule bind_act_InrE)
  then obtain latest where "truncate_guard plan = None \<or> truncate_guard plan = Some latest"
      "commit_on_latest U T D X E C A plan r io n retry latest s1 = (Inr (AttemptDone adv), s')"
    by (auto split: option.splits if_splits)
  then show ?thesis by (rule commit_on_latest_done [OF laws])
qed

lemma commit_table_built_on:
  assumes "catalog_laws C V" and "commit_table U T D X E C A plan r io n s = (Inr advanced, s')"
  shows "\<exists>base location. built_on U T D X V A plan r io base location advanced"
proof -
  have "commit_attempts U T D X E C A plan r io n k s = (Inr advanced, s') \<Longrightarrow> ?thesis" for k s
  proof (induction k arbitrary: s)
    case (Suc k)
    from Suc.prems obtain outcome s1
      where o: "commit_attempt U T D X E C A plan r io n (nat (max_commit_retries A) - k) s = (Inr outcome, s1)"
        and rest: "(case outcome of AttemptDone advanced \<Rightarrow> ok_act advanced
          | AttemptRetry \<Rightarrow> commit_attempts U T D X E C A plan r io n k) s1 = (Inr advanced, s')"
      unfolding commit_attempts.simps by (rule bind_act_InrE)
    show ?case
    proof (cases outcome)
      case (AttemptDone a)
      then show ?thesis using commit_attempt_done [OF assms(1)] o rest by simp
    next
      case AttemptRetry
      then show ?thesis using Suc.IH rest by simp
    qed
  qed simp
  then show ?thesis using assms(2) unfolding commit_table_def by blast
qed

text \<open>
  C3. No lost update: when the commit of a table succeeds, it materialized the whole plan on the
  metadata it read at some base location, and unless that changed nothing, it replaced a catalog row
  that still pointed at this base by one that points at the new metadata, with the base as previous
  location. A plan with a TRUNCATE was built on the very metadata the TRUNCATE saw.
\<close>
theorem commit_table_no_lost_update:
  assumes "catalog_laws C V" and "commit_table U T D X E C A plan r io n s = (Inr advanced, s')"
  shows "\<exists>base location. built_on U T D X V A plan r io base location advanced"
  by (rule commit_table_built_on [OF assms])

section \<open>Attempts are resolved\<close>

text \<open>The active attempt of the registry and the number of the next one.\<close>

definition attempt_view :: "('io, 'l, 'svc, 'w) commit_state \<Rightarrow> metadata_attempt_id option \<times> nat" where
  "attempt_view s = (map_option attempt_id (active_attempt (metadata_registry (fst s))),
     unat (next_attempt_id (metadata_registry (fst s))))"

definition keeps_attempt :: "(('io, 'l, 'svc, 'w) commit_state \<Rightarrow> 'a \<times> ('io, 'l, 'svc, 'w) commit_state) \<Rightarrow> bool" where
  "keeps_attempt f \<longleftrightarrow> (\<forall>s. attempt_view (snd (f s)) = attempt_view s)"

text \<open>
  What is relied on of the surroundings: reading and writing files, VACUUM work and notices may track
  resources, but they neither begin nor resolve metadata attempts.
\<close>

definition commit_api_laws :: "('io, 'm, 'tbl, 't, 'e, 'vr, ('io, 'l, 'svc, 'w) commit_state) commit_api \<Rightarrow> bool" where
  "commit_api_laws A \<longleftrightarrow>
     (\<forall>io p. keeps_attempt (read_metadata A io p)) \<and> (\<forall>t b. keeps_attempt (commit_transaction A t b))
   \<and> (\<forall>e b l k t. keeps_attempt (vacuum_apply_actions A e b l k t))
   \<and> (\<forall>e b l k u. keeps_attempt (vacuum_finish A e b l k u))
   \<and> (\<forall>v r io. keeps_attempt (vacuum_register_cleanup A v r io))
   \<and> (\<forall>v e. keeps_attempt (vacuum_report_success A v e))
   \<and> (\<forall>io ps s. attempt_view (register_canceled_files A io ps s) = attempt_view s)
   \<and> (\<forall>m s. attempt_view (report_notice A m s) = attempt_view s)"

named_theorems attempt_keeps \<open>actions that leave the metadata attempts alone\<close>

lemma keeps_bind [attempt_keeps]:
  assumes "keeps_attempt m" and "\<And>a. keeps_attempt (f a)"
  shows "keeps_attempt (bind_act m f)"
  unfolding keeps_attempt_def
proof
  fix s
  obtain res s1 where m: "m s = (res, s1)" by (rule prod.exhaust)
  have s1: "attempt_view s1 = attempt_view s" using assms(1) m unfolding keeps_attempt_def by (metis snd_conv)
  show "attempt_view (snd (bind_act m f s)) = attempt_view s"
  proof (cases res)
    case (Inl e)
    then show ?thesis using m s1 by (simp add: bind_act_def)
  next
    case (Inr a)
    have "attempt_view (snd (f a s1)) = attempt_view s1" using assms(2) unfolding keeps_attempt_def by blast
    then show ?thesis using m s1 Inr by (simp add: bind_act_def)
  qed
qed

lemma keeps_simple [attempt_keeps]:
  "keeps_attempt (ok_act a)" "keeps_attempt (fail_act e)" "keeps_attempt (lift_act r)" "keeps_attempt (on_world m)"
  by (auto simp: keeps_attempt_def ok_act_def fail_act_def lift_act_def on_world_def attempt_view_def split_beta Let_def)

lemma keeps_api [attempt_keeps]:
  assumes "commit_api_laws A"
  shows "keeps_attempt (read_metadata A io p)" "keeps_attempt (commit_transaction A t b)"
    "keeps_attempt (vacuum_apply_actions A e b l k t)" "keeps_attempt (vacuum_finish A e b l k u)"
    "keeps_attempt (vacuum_register_cleanup A v r io)" "keeps_attempt (vacuum_report_success A v e)"
  using assms by (auto simp: commit_api_laws_def)

lemma keeps_materialize: "commit_api_laws A \<Longrightarrow> keeps_attempt (materialize U T D X A plan latest base retry)"
  unfolding materialize_def by (auto intro!: attempt_keeps split: option.splits)

lemma keeps_conclude_commit: "commit_api_laws A \<Longrightarrow> keeps_attempt (conclude_commit A plan io result adv)"
proof -
  assume laws: "commit_api_laws A"
  have tail: "keeps_attempt (\<lambda>s. (Inr (AttemptDone adv), register_canceled_files A io (canceled_created_paths plan) s))"
    using laws by (simp add: keeps_attempt_def commit_api_laws_def)
  show ?thesis
    unfolding conclude_commit_def by (rule keeps_bind) (use laws tail in \<open>auto intro!: attempt_keeps split: option.splits\<close>)
qed

lemma keeps_retry: "commit_api_laws A \<Longrightarrow> keeps_attempt (retry_after_conflict A)"
  by (simp add: keeps_attempt_def retry_after_conflict_def commit_api_laws_def)

lemma keeps_conclude_published: "commit_api_laws A \<Longrightarrow> keeps_attempt (conclude_published A plan r io result adv)"
  unfolding conclude_published_def
  by (rule keeps_bind) (auto intro!: attempt_keeps keeps_conclude_commit split: option.splits)

lemma keeps_conclude_unchanged:
  fixes A :: "('io, 'm, 'tbl, 't, 'e, 'vr, ('io, 'l, 'svc, 'w) commit_state) commit_api"
  assumes laws: "commit_api_laws A"
  shows "keeps_attempt (conclude_unchanged C A plan r io latest result)"
  unfolding keeps_attempt_def
proof
  fix s :: "('io, 'l, 'svc, 'w) commit_state"
  let ?f = "on_world (finish_maintenance C r latest (attempt_schedule A plan latest))"
  let ?ok = "bind_act (case result of
                Some vr \<Rightarrow> if vacuum_has_cleanup A vr
                  then bind_act (vacuum_register_cleanup A vr r io) (\<lambda>vr. ok_act (Some vr)) else ok_act (Some vr)
              | None \<Rightarrow> ok_act None) (\<lambda>result. conclude_commit A plan io result False)"
  have ok: "keeps_attempt ?ok"
    by (rule keeps_bind) (auto intro!: attempt_keeps laws keeps_conclude_commit split: option.splits)
  have f: "attempt_view (snd (?f s)) = attempt_view s"
    using keeps_simple(4) unfolding keeps_attempt_def by blast
  obtain res s1 where s1: "?f s = (res, s1)" by (rule prod.exhaust)
  have v: "attempt_view s1 = attempt_view s" using f s1 by simp
  have retry: "attempt_view (snd (retry_after_conflict A s1)) = attempt_view s1"
    using keeps_retry [OF laws] unfolding keeps_attempt_def by blast
  have fin: "attempt_view (snd (conclude_commit A plan io result False s)) = attempt_view s"
    using keeps_conclude_commit [OF laws] unfolding keeps_attempt_def by blast
  have ok1: "attempt_view (snd (?ok s1)) = attempt_view s1" using ok unfolding keeps_attempt_def by blast
  show "attempt_view (snd (conclude_unchanged C A plan r io latest result s)) = attempt_view s"
  proof (cases "exclusive_action plan = None")
    case True
    then show ?thesis using fin by (simp add: conclude_unchanged_def)
  next
    case False
    then show ?thesis using s1 v retry ok1 fin by (cases res) (simp_all add: conclude_unchanged_def)
  qed
qed

text \<open>Beginning and resolving an attempt.\<close>

lemma attempt_begin_view:
  assumes "attempt_begin n s = (res, s')"
  shows "case res of
      Inr i \<Rightarrow> fst (attempt_view s) = None \<and> attempt_view s' = (Some i, snd (attempt_view s) + 1)
    | Inl e \<Rightarrow> attempt_view s' = attempt_view s"
proof -
  have inc: "unat (i + 1) = unat i + 1" if "unat i + 1 < 2 ^ 32" for i :: "32 word"
    using that by (simp add: unat_word_ariths)
  show ?thesis using assms
    by (auto simp: attempt_begin_def begin_metadata_attempt_def begin_attempt_def attempt_view_def checked_add_u32_def
        inc split: if_splits option.splits)
qed

lemma discard_view:
  assumes "fst (attempt_view (reg, w)) = Some i"
  shows "\<exists>reg' w'. discard_metadata_attempt E i reg w = (Inr (), reg', w')
    \<and> attempt_view (reg', w') = (None, snd (attempt_view (reg, w)))"
  using assms
  by (auto simp: discard_metadata_attempt_def take_attempt_def cleanup_metadata_attempt_def attempt_view_def split_beta Let_def)

lemma attempt_resolved:
  assumes "fst (attempt_view s) = Some i"
  shows "attempt_view (attempt_drop E i s) = (None, snd (attempt_view s))"
    and "\<exists>s'. attempt_discard E i s = (Inr (), s') \<and> attempt_view s' = (None, snd (attempt_view s))"
    and "\<exists>s'. attempt_promote E i s = (Inr (), s') \<and> attempt_view s' = (None, snd (attempt_view s))"
proof -
  obtain reg w where s: "s = (reg, w)" by (rule prod.exhaust)
  from discard_view [of reg w i E] assms s obtain reg' w'
    where d: "discard_metadata_attempt E i reg w = (Inr (), reg', w')"
      "attempt_view (reg', w') = (None, snd (attempt_view s))" by auto
  then show "attempt_view (attempt_drop E i s) = (None, snd (attempt_view s))"
    and "\<exists>s'. attempt_discard E i s = (Inr (), s') \<and> attempt_view s' = (None, snd (attempt_view s))"
    using s by (simp_all add: attempt_drop_def attempt_discard_def)
  show "\<exists>s'. attempt_promote E i s = (Inr (), s') \<and> attempt_view s' = (None, snd (attempt_view s))"
    using assms s
    by (auto simp: attempt_promote_def promote_metadata_attempt_def promote_attempt_def take_attempt_def attempt_view_def)
qed

lemma keepsD: "keeps_attempt m \<Longrightarrow> m s = (r, s') \<Longrightarrow> attempt_view s' = attempt_view s"
  unfolding keeps_attempt_def by (metis snd_conv)

lemma publish_view:
  assumes laws: "commit_api_laws A" and i: "fst (attempt_view s) = Some i"
  shows "attempt_view (snd (publish E C A plan r io latest i location result s)) = (None, snd (attempt_view s))"
proof -
  let ?cas = "on_world (cas_update C r (Some latest) \<lparr> new_metadata_location = Some location,
      new_previous_metadata_location = Some latest, maintenance_schedule = attempt_schedule A plan latest \<rparr>)"
  obtain res s1 where s1: "?cas s = (res, s1)" by (rule prod.exhaust)
  have v: "attempt_view s1 = attempt_view s" using keepsD [OF keeps_simple(4) s1] .
  then have i1: "fst (attempt_view s1) = Some i" using i by simp
  show ?thesis
  proof (cases res)
    case (Inr adv)
    obtain s2 where s2: "attempt_promote E i s1 = (Inr (), s2)" "attempt_view s2 = (None, snd (attempt_view s1))"
      using attempt_resolved(3) [OF i1] by blast
    have "attempt_view (snd (conclude_published A plan r io result adv s2)) = attempt_view s2"
      using keeps_conclude_published [OF laws] unfolding keeps_attempt_def by blast
    then show ?thesis using s1 s2 v Inr by (simp add: publish_def bind_act_def)
  next
    case (Inl e)
    obtain s2 where s2: "attempt_discard E i s1 = (Inr (), s2)" "attempt_view s2 = (None, snd (attempt_view s1))"
      using attempt_resolved(2) [OF i1] by blast
    have "attempt_view (snd (retry_after_conflict A s2)) = attempt_view s2"
      using keeps_retry [OF laws] unfolding keeps_attempt_def by blast
    then show ?thesis using s1 s2 v Inl attempt_resolved(1) [OF i1] by (simp add: publish_def bind_act_def)
  qed
qed

definition one_attempt_more :: "('io, 'l, 'svc, 'w) commit_state \<Rightarrow> ('io, 'l, 'svc, 'w) commit_state \<Rightarrow> nat \<Rightarrow> bool" where
  "one_attempt_more s s' k \<longleftrightarrow> fst (attempt_view s') = None
     \<and> snd (attempt_view s) \<le> snd (attempt_view s') \<and> snd (attempt_view s') \<le> snd (attempt_view s) + k"

lemma held_attempt_view:
  assumes laws: "commit_api_laws A" and i: "fst (attempt_view s) = Some i"
  shows "attempt_view (snd (bind_act (holding_attempt E i (materialize U T D X A plan latest base retry))
      (\<lambda>(location, result). if location = latest
        then bind_act (attempt_discard E i) (\<lambda>_. conclude_unchanged C A plan r io latest result)
        else publish E C A plan r io latest i location result) s)) = (None, snd (attempt_view s))"
proof -
  obtain res s1 where m: "materialize U T D X A plan latest base retry s = (res, s1)" by (rule prod.exhaust)
  have v: "attempt_view s1 = attempt_view s" using keepsD [OF keeps_materialize [OF laws] m] .
  then have i1: "fst (attempt_view s1) = Some i" using i by simp
  show ?thesis
  proof (cases res)
    case (Inl e)
    then show ?thesis using m v attempt_resolved(1) [OF i1] by (simp add: bind_act_def holding_attempt_def)
  next
    case (Inr lr)
    obtain location result where lr: "lr = (location, result)" by (rule prod.exhaust)
    obtain s2 where s2: "attempt_discard E i s1 = (Inr (), s2)" "attempt_view s2 = (None, snd (attempt_view s1))"
      using attempt_resolved(2) [OF i1] by blast
    have "attempt_view (snd (conclude_unchanged C A plan r io latest result s2)) = attempt_view s2"
      using keeps_conclude_unchanged [OF laws] unfolding keeps_attempt_def by blast
    moreover have "attempt_view (snd (publish E C A plan r io latest i location result s1)) = (None, snd (attempt_view s1))"
      by (rule publish_view [OF laws i1])
    ultimately show ?thesis using m v Inr lr s2 by (simp add: bind_act_def holding_attempt_def)
  qed
qed

lemma one_more_bind:
  assumes "keeps_attempt m" and "\<And>a s1. fst (attempt_view s1) = None \<Longrightarrow> one_attempt_more s1 (snd (f a s1)) k"
    and idle: "fst (attempt_view s) = None"
  shows "one_attempt_more s (snd (bind_act m f s)) k"
proof -
  obtain res s1 where b: "m s = (res, s1)" by (rule prod.exhaust)
  then have v: "attempt_view s1 = attempt_view s" by (rule keepsD [OF assms(1)])
  show ?thesis
  proof (cases res)
    case (Inl e)
    then show ?thesis using b v idle by (simp add: bind_act_def one_attempt_more_def)
  next
    case (Inr a)
    have "one_attempt_more s1 (snd (f a s1)) k" by (rule assms(2)) (simp add: v idle)
    then show ?thesis using b v Inr by (simp add: bind_act_def one_attempt_more_def)
  qed
qed

lemma begun_attempt_view:
  assumes laws: "commit_api_laws A" and idle: "fst (attempt_view s) = None"
  shows "one_attempt_more s (snd (bind_act (attempt_begin n)
      (\<lambda>i. bind_act (holding_attempt E i (materialize U T D X A plan latest base retry))
      (\<lambda>(location, result). if location = latest
        then bind_act (attempt_discard E i) (\<lambda>_. conclude_unchanged C A plan r io latest result)
        else publish E C A plan r io latest i location result)) s)) 1"
proof -
  obtain res s1 where b: "attempt_begin n s = (res, s1)" by (rule prod.exhaust)
  show ?thesis
  proof (cases res)
    case (Inl e)
    then show ?thesis using attempt_begin_view [OF b] b idle by (simp add: bind_act_def one_attempt_more_def)
  next
    case (Inr i)
    then have v: "attempt_view s1 = (Some i, snd (attempt_view s) + 1)" using attempt_begin_view [OF b] by simp
    then have "attempt_view (snd (bind_act (holding_attempt E i (materialize U T D X A plan latest base retry))
      (\<lambda>(location, result). if location = latest
        then bind_act (attempt_discard E i) (\<lambda>_. conclude_unchanged C A plan r io latest result)
        else publish E C A plan r io latest i location result) s1)) = (None, snd (attempt_view s1))"
      by (intro held_attempt_view [OF laws]) simp
    then show ?thesis using b Inr v by (simp add: bind_act_def [of "attempt_begin n"] one_attempt_more_def)
  qed
qed

lemma commit_on_latest_view:
  assumes laws: "commit_api_laws A" and idle: "fst (attempt_view s) = None"
  shows "one_attempt_more s (snd (commit_on_latest U T D X E C A plan r io n retry latest s)) 1"
  unfolding commit_on_latest_def
  by (intro one_more_bind [OF keeps_api(1) [OF laws] _ idle] one_more_bind [OF keeps_simple(3)] begun_attempt_view [OF laws])

lemma commit_attempt_view:
  assumes laws: "commit_api_laws A" and idle: "fst (attempt_view s) = None"
  shows "one_attempt_more s (snd (commit_attempt U T D X E C A plan r io n retry s)) 1"
  unfolding commit_attempt_def
  by (rule one_more_bind [OF keeps_simple(4) _ idle])
    (auto simp: fail_act_def one_attempt_more_def [of s s for s] commit_on_latest_view [OF laws, simplified]
      split: option.splits)

text \<open>
  C23. Every attempt is resolved and their number is bounded: whatever the outcome of a table commit,
  success, conflict or any error on the way, no metadata attempt is left active, and the commit
  began at most \<open>max_commit_retries + 1\<close> of them.
\<close>
theorem commit_table_resolves_attempts:
  assumes "commit_api_laws A" and "fst (attempt_view s) = None"
  shows "fst (attempt_view (snd (commit_table U T D X E C A plan r io n s))) = None
    \<and> snd (attempt_view s) \<le> snd (attempt_view (snd (commit_table U T D X E C A plan r io n s)))
    \<and> snd (attempt_view (snd (commit_table U T D X E C A plan r io n s)))
        \<le> snd (attempt_view s) + nat (max_commit_retries A) + 1"
proof -
  have "one_attempt_more s (snd (commit_attempts U T D X E C A plan r io n k s)) k" if "fst (attempt_view s) = None" for k s
    using that
  proof (induction k arbitrary: s)
    case 0
    then show ?case by (simp add: fail_act_def one_attempt_more_def)
  next
    case (Suc k)
    let ?a = "commit_attempt U T D X E C A plan r io n (nat (max_commit_retries A) - k)"
    obtain res s1 where b: "?a s = (res, s1)" by (rule prod.exhaust)
    have one: "one_attempt_more s s1 1" using commit_attempt_view [OF assms(1) Suc.prems] b by (metis snd_conv)
    then have idle: "fst (attempt_view s1) = None" by (simp add: one_attempt_more_def)
    show ?case
    proof (cases "res = Inr AttemptRetry")
      case True
      then show ?thesis using one Suc.IH [OF idle] b by (simp add: bind_act_def one_attempt_more_def)
    next
      case False
      then have "snd (commit_attempts U T D X E C A plan r io n (Suc k) s) = s1"
        using b by (auto simp: bind_act_def ok_act_def split: sum.splits attempt_outcome.splits)
      then show ?thesis using one by (simp add: one_attempt_more_def)
    qed
  qed
  from this [OF assms(2), of "nat (max_commit_retries A) + 1"]
  show ?thesis by (simp add: commit_table_def one_attempt_more_def)
qed

section \<open>The whole commit\<close>




section \<open>Witnesses\<close>

text \<open>
  A table is its location and the transaction on it; a commit writes the file of the new metadata and
  tracks it. The catalog holds one row, the tracker one table with a TRUNCATE.
\<close>

type_synonym demo_commit_state = "(unit, string, unit, demo_catalog_state) commit_state"

definition demo_commit :: "(unit, nat, string \<times> string list, string list, unit, unit, demo_commit_state) commit_api" where
  "demo_commit = \<lparr> max_commit_retries = 2, auto_maintenance_naptime_micros = 5, transaction_start_timestamp = 1,
     read_metadata = (\<lambda>_ _. ok_act 0), build_table = (\<lambda>location _ _ _. Inr (location, [])),
     table_metadata = (\<lambda>_. 0), table_location = (\<lambda>(location, _). Some location), new_transaction = snd,
     commit_transaction = (\<lambda>tx base (reg, w). (Inr (fst base @ ''+'', tx),
       (track_resource 1 (CreatedLocalFile (fst base @ ''+'')) reg, w))),
     completion_token = (\<lambda>_. \<lparr> token_metadata_location = ''v1'', token_maintenance_due_at = None \<rparr>),
     vacuum_apply_actions = (\<lambda>_ _ _ _ tx. ok_act tx), vacuum_finish = (\<lambda>_ _ _ _ _. ok_act ()),
     vacuum_has_cleanup = (\<lambda>_. False), vacuum_register_cleanup = (\<lambda>_ _ _. ok_act ()),
     vacuum_report_success = (\<lambda>_ _. ok_act ()), register_canceled_files = (\<lambda>_ _ s. s),
     report_notice = (\<lambda>_ s. s), stage_wakeup = ok_act () \<rparr>"

definition idle_storage :: "(unit, string, unit, demo_catalog_state) storage_env" where
  "idle_storage = \<lparr> remove_file = (\<lambda>_ w. (Missing, w)), remove_dir_all = (\<lambda>_ _ w. (Inr (), w)),
     delete_object = (\<lambda>_ _ w. (Missing, w)), report_warning = (\<lambda>_ w. w), show_location = id \<rparr>"

definition demo_commit_plan :: "(bool \<times> string list, unit, unit, unit, unit, string) tx_table_commit_plan" where
  "demo_commit_plan = \<lparr> plan_actions = [EffTruncateOnly], exclusive_action = None,
     truncate_guard = Some ''v1'', canceled_created_paths = [] \<rparr>"

definition demo_commit_start :: demo_commit_state where
  "demo_commit_start = (new_storage_registry, demo_catalog_start)"


lemma demo_commit_laws: "commit_api_laws demo_commit"
  by (auto simp: commit_api_laws_def demo_commit_def keeps_simple)
    (auto simp: keeps_attempt_def attempt_view_def track_resource_def Let_def split: option.splits)

abbreviation demo_commit_table :: "(iceberg_error, bool, demo_commit_state) act" where
  "demo_commit_table \<equiv> commit_table demo_schema demo_metadata path_overlay demo_transaction idle_storage
     demo_catalog demo_commit demo_commit_plan 1 () 1"

lemmas commit_run_defs = commit_table_def commit_attempt_def commit_on_latest_def materialize_def
  publish_def conclude_published_def conclude_commit_def holding_attempt_def attempt_begin_def attempt_promote_def
  begin_metadata_attempt_def begin_attempt_def promote_metadata_attempt_def promote_attempt_def take_attempt_def
  new_storage_registry_def new_metadata_registry_def track_resource_def checked_add_u32_def
  attempt_schedule_def write_schedule_def has_data_change_def saturating_due_def sat_add_i64_def
  on_world_def get_row_def get_with_snapshot_def find_with_snapshot_def from_tuple_def i64_max_def i64_min_def clamp_i64_def cas_update_def schedule_replacement_def lift_act_def required_def
  demo_commit_start_def demo_catalog_defs top_level_nest_level_def

lemma demo_commit_select:
  "max_commit_retries demo_commit = 2" "auto_maintenance_naptime_micros demo_commit = 5"
  "transaction_start_timestamp demo_commit = 1" "read_metadata demo_commit io p = ok_act 0"
  "build_table demo_commit location m r io = Inr (location, [])" "table_metadata demo_commit tbl = 0"
  "table_location demo_commit tbl = Some (fst tbl)" "new_transaction demo_commit tbl = snd tbl"
  "commit_transaction demo_commit tx base s = (Inr (fst base @ ''+'', tx),
       (track_resource 1 (CreatedLocalFile (fst base @ ''+'')) (fst s), snd s))"
  "register_canceled_files demo_commit io ps s = s"
  "plan_actions demo_commit_plan = [EffTruncateOnly]" "exclusive_action demo_commit_plan = None"
  "truncate_guard demo_commit_plan = Some ''v1''"
  by (simp_all add: demo_commit_def demo_commit_plan_def split_beta)

lemma demo_apply: "apply_to_transaction demo_schema demo_metadata path_overlay demo_transaction demo_commit_plan [] 0 = Inr []"
  by code_simp

lemma demo_attempt: "fst (commit_attempt demo_schema demo_metadata path_overlay demo_transaction idle_storage
     demo_catalog demo_commit demo_commit_plan 1 () 1 0 demo_commit_start) = Inr (AttemptDone True)"
  by (simp add: commit_run_defs demo_commit_select demo_apply)

lemma bind_act_done:
  assumes "fst (m s) = Inr a" and "\<And>s. f a s = (Inr b, s)"
  shows "fst (bind_act m f s) = Inr b"
  using assms by (auto simp: bind_act_def split: prod.splits sum.splits)


lemma demo_commit_run: "fst (demo_commit_table demo_commit_start) = Inr True"
  unfolding commit_table_def demo_commit_select
  by (simp add: numeral_eq_Suc demo_commit_select) (rule bind_act_done, rule demo_attempt, simp)






theorem commit_table_no_lost_update_witness:
  "catalog_laws demo_catalog demo_catalog_view \<and> fst (demo_commit_table demo_commit_start) = Inr True
   \<and> (\<exists>base location. built_on demo_schema demo_metadata path_overlay demo_transaction demo_catalog_view
        demo_commit demo_commit_plan 1 () base location True)"
  using commit_table_no_lost_update [OF demo_catalog_laws surjective_pairing
      [of "demo_commit_table demo_commit_start", unfolded demo_commit_run]] demo_catalog_laws demo_commit_run
  by simp

theorem commit_table_resolves_attempts_witness:
  "commit_api_laws demo_commit \<and> fst (attempt_view demo_commit_start) = None
   \<and> fst (attempt_view (snd (demo_commit_table demo_commit_start))) = None
   \<and> snd (attempt_view (snd (demo_commit_table demo_commit_start))) \<le> snd (attempt_view demo_commit_start) + 3"
proof -
  have idle: "fst (attempt_view demo_commit_start) = None"
    by (simp add: attempt_view_def demo_commit_start_def new_storage_registry_def new_metadata_registry_def)
  show ?thesis
    using commit_table_resolves_attempts [OF demo_commit_laws idle, of demo_schema demo_metadata path_overlay
        demo_transaction idle_storage demo_catalog demo_commit_plan 1 "()" 1] idle demo_commit_laws
    by (simp add: demo_commit_select)
qed


end
