(* ===== verification/Wal_Records.thy ===== *)
theory Wal_Records
  imports Prelude
begin

text \<open>
  The write-ahead log records of local Iceberg files (\<open>storage/local_file_wal/record.rs\<close>, the parsers
  of \<open>storage/local_file_wal/rmgr.rs\<close> and the record builder of \<open>lagodb-core/src/wal/record.rs\<close>): byte
  layout, logging and parsing.

  A byte is a \<open>char\<close>; a byte byte_slice, a Rust string and a path are values of type \<open>string\<close>. Integers
  are stored in the byte order of the machine, which is a parameter. \<open>XLogInsert\<close> and the warning
  channel are the outside world; \<open>usize\<close> has 64 bits.
\<close>

section \<open>Bytes\<close>

datatype byte_order = LittleEndian | BigEndian

primrec le_bytes :: "nat \<Rightarrow> nat \<Rightarrow> string" where
  "le_bytes 0 n = []"
| "le_bytes (Suc k) n = char_of n # le_bytes k (n div 256)"

primrec le_nat :: "string \<Rightarrow> nat" where
  "le_nat [] = 0"
| "le_nat (b # bs) = of_char b + 256 * le_nat bs"

definition to_ne_bytes :: "byte_order \<Rightarrow> nat \<Rightarrow> nat \<Rightarrow> string" where
  "to_ne_bytes order k n = (case order of LittleEndian \<Rightarrow> le_bytes k n | BigEndian \<Rightarrow> rev (le_bytes k n))"

definition from_ne_bytes :: "byte_order \<Rightarrow> string \<Rightarrow> nat" where
  "from_ne_bytes order bs = (case order of LittleEndian \<Rightarrow> le_nat bs | BigEndian \<Rightarrow> le_nat (rev bs))"

definition checked_add_usize :: "nat \<Rightarrow> nat \<Rightarrow> nat option" where
  "checked_add_usize a b = (if a + b < 2 ^ 64 then Some (a + b) else None)"

definition byte_slice :: "nat \<Rightarrow> nat \<Rightarrow> string \<Rightarrow> string" where
  "byte_slice a b bs = take (b - a) (drop a bs)"

definition get_slice :: "nat \<Rightarrow> nat \<Rightarrow> string \<Rightarrow> string option" where
  "get_slice a b bs = (if a \<le> b \<and> b \<le> length bs then Some (byte_slice a b bs) else None)"

text \<open>
  \<open>std::str::from_utf8\<close>: the well-formed byte sequences of the Unicode standard, by the number of
  continuation bytes a leading byte asks for and the range it allows for the first of them.
\<close>

definition continuation_count :: "nat \<Rightarrow> nat option" where
  "continuation_count b =
     (if b < 128 then Some 0 else if 194 \<le> b \<and> b \<le> 223 then Some 1
      else if 224 \<le> b \<and> b \<le> 239 then Some 2 else if 240 \<le> b \<and> b \<le> 244 then Some 3 else None)"

definition second_byte_ok :: "nat \<Rightarrow> nat \<Rightarrow> bool" where
  "second_byte_ok b c =
     ((if b = 224 then 160 else if b = 240 then 144 else 128) \<le> c
      \<and> c \<le> (if b = 237 then 159 else if b = 244 then 143 else 191))"

function utf8_valid :: "string \<Rightarrow> bool" where
  "utf8_valid [] = True"
| "utf8_valid (b # bs) = (case continuation_count (of_char b) of
       None \<Rightarrow> False
     | Some k \<Rightarrow> k \<le> length bs
         \<and> (0 < k \<longrightarrow> second_byte_ok (of_char b) (of_char (hd bs)))
         \<and> (\<forall>c \<in> set (take k bs). 128 \<le> (of_char c :: nat) \<and> of_char c \<le> (191 :: nat))
         \<and> utf8_valid (drop k bs))"
  by pat_completeness auto
termination by (relation "measure length") auto

definition from_utf8 :: "string \<Rightarrow> string option" where
  "from_utf8 bs = (if utf8_valid bs then Some bs else None)"

section \<open>Operations\<close>

datatype iceberg_wal_op = DeleteDirectory | WriteFile | DeleteFiles | TruncateDirectory

definition wal_op_code :: "iceberg_wal_op \<Rightarrow> 8 word" where
  "wal_op_code op = (case op of
     DeleteDirectory \<Rightarrow> 0x00 | WriteFile \<Rightarrow> 0x10 | DeleteFiles \<Rightarrow> 0x20 | TruncateDirectory \<Rightarrow> 0x30)"

definition from_info :: "8 word \<Rightarrow> iceberg_wal_op option" where
  "from_info info = (let op = Bit_Operations.and info 0xF0 in
     if op = 0x00 then Some DeleteDirectory else if op = 0x10 then Some WriteFile
     else if op = 0x20 then Some DeleteFiles else if op = 0x30 then Some TruncateDirectory else None)"

definition wal_op_name :: "iceberg_wal_op \<Rightarrow> string" where
  "wal_op_name op = (case op of
     DeleteDirectory \<Rightarrow> ''DELETE_DIRECTORY'' | WriteFile \<Rightarrow> ''WRITE_FILE'' | DeleteFiles \<Rightarrow> ''DELETE_FILES''
   | TruncateDirectory \<Rightarrow> ''TRUNCATE_DIRECTORY'')"

definition iceberg_rmgr_id :: "8 word" where "iceberg_rmgr_id = 128"

section \<open>Headers\<close>

record directory_header =
  dir_path_len :: "32 word"

record delete_files_header =
  df_path_count :: "32 word"
  df_payload_len :: "32 word"

record write_file_header =
  wf_path_len :: "32 word"
  wf_padding :: "32 word"
  wf_offset :: "64 word"

definition size_of_directory :: nat where "size_of_directory = 4"
definition size_of_delete_files :: nat where "size_of_delete_files = 8"
definition size_of_write_file :: nat where "size_of_write_file = 16"
definition max_delete_files_per_record :: nat where "max_delete_files_per_record = 256"
definition max_delete_files_payload_bytes :: nat where "max_delete_files_payload_bytes = 65536"

text \<open>The memory of a \<open>repr(C)\<close> header, and a header read back from memory.\<close>

definition directory_header_bytes :: "byte_order \<Rightarrow> directory_header \<Rightarrow> string" where
  "directory_header_bytes order h = to_ne_bytes order 4 (unat (dir_path_len h))"

definition read_directory_header :: "byte_order \<Rightarrow> string \<Rightarrow> directory_header" where
  "read_directory_header order data = \<lparr> dir_path_len = of_nat (from_ne_bytes order (byte_slice 0 4 data)) \<rparr>"

definition delete_files_header_bytes :: "byte_order \<Rightarrow> delete_files_header \<Rightarrow> string" where
  "delete_files_header_bytes order h =
     to_ne_bytes order 4 (unat (df_path_count h)) @ to_ne_bytes order 4 (unat (df_payload_len h))"

definition read_delete_files_header :: "byte_order \<Rightarrow> string \<Rightarrow> delete_files_header" where
  "read_delete_files_header order data =
     \<lparr> df_path_count = of_nat (from_ne_bytes order (byte_slice 0 4 data)),
       df_payload_len = of_nat (from_ne_bytes order (byte_slice 4 8 data)) \<rparr>"

definition write_file_header_bytes :: "byte_order \<Rightarrow> write_file_header \<Rightarrow> string" where
  "write_file_header_bytes order h =
     to_ne_bytes order 4 (unat (wf_path_len h)) @ to_ne_bytes order 4 (unat (wf_padding h))
     @ to_ne_bytes order 8 (unat (wf_offset h))"

definition read_write_file_header :: "byte_order \<Rightarrow> string \<Rightarrow> write_file_header" where
  "read_write_file_header order data =
     \<lparr> wf_path_len = of_nat (from_ne_bytes order (byte_slice 0 4 data)),
       wf_padding = of_nat (from_ne_bytes order (byte_slice 4 8 data)),
       wf_offset = of_nat (from_ne_bytes order (byte_slice 8 16 data)) \<rparr>"

section \<open>Logging\<close>

record ('lsn, 'w) wal_env =
  xlog_insert :: "8 word \<Rightarrow> 8 word \<Rightarrow> string \<Rightarrow> 'w \<Rightarrow> 'lsn \<times> 'w"
  wal_warning :: "string \<Rightarrow> 'w \<Rightarrow> 'w"

text \<open>\<open>WalRecordBuilder\<close>: the data registered so far, handed over by \<open>insert\<close>.\<close>

record wal_record_builder =
  registered_data :: string

definition wal_begin :: wal_record_builder where
  "wal_begin = \<lparr> registered_data = [] \<rparr>"

definition register_data :: "string \<Rightarrow> wal_record_builder \<Rightarrow> wal_record_builder" where
  "register_data data b = b \<lparr> registered_data := registered_data b @ data \<rparr>"

definition wal_insert :: "('lsn, 'w) wal_env \<Rightarrow> 8 word \<Rightarrow> 8 word \<Rightarrow> wal_record_builder \<Rightarrow> 'w \<Rightarrow> 'lsn \<times> 'w" where
  "wal_insert E rmgr info b w = xlog_insert E rmgr info (registered_data b) w"

definition insert_directory :: "('lsn, 'w) wal_env \<Rightarrow> byte_order \<Rightarrow> string \<Rightarrow> iceberg_wal_op \<Rightarrow> 'w \<Rightarrow> 'lsn \<times> 'w" where
  "insert_directory E order path op w =
     (let header = \<lparr> dir_path_len = of_nat (length path) \<rparr>;
          builder = register_data path (register_data (directory_header_bytes order header) wal_begin)
      in wal_insert E iceberg_rmgr_id (wal_op_code op) builder w)"

definition directory_log_truncate :: "('lsn, 'w) wal_env \<Rightarrow> byte_order \<Rightarrow> string \<Rightarrow> 'w \<Rightarrow> 'lsn \<times> 'w" where
  "directory_log_truncate E order path = insert_directory E order path TruncateDirectory"

definition log_delete_directory :: "('lsn, 'w) wal_env \<Rightarrow> byte_order \<Rightarrow> string \<Rightarrow> 'w \<Rightarrow> 'lsn \<times> 'w" where
  "log_delete_directory E order path = insert_directory E order path DeleteDirectory"

text \<open>\<open>expect\<close> cannot fail: the payload is bounded.\<close>

definition insert_delete_files_record :: "('lsn, 'w) wal_env \<Rightarrow> byte_order \<Rightarrow> 32 word \<Rightarrow> string \<Rightarrow> 'w \<Rightarrow> 'lsn \<times> 'w" where
  "insert_delete_files_record E order path_count payload w =
     (let header = \<lparr> df_path_count = path_count, df_payload_len = of_nat (length payload) \<rparr>;
          builder = register_data payload (register_data (delete_files_header_bytes order header) wal_begin)
      in wal_insert E iceberg_rmgr_id (wal_op_code DeleteFiles) builder w)"

definition log_write_file :: "('lsn, 'w) wal_env \<Rightarrow> byte_order \<Rightarrow> string \<Rightarrow> 64 word \<Rightarrow> string \<Rightarrow> 'w \<Rightarrow> 'lsn \<times> 'w" where
  "log_write_file E order path offset data w =
     (let header = \<lparr> wf_path_len = of_nat (length path), wf_padding = 0, wf_offset = offset \<rparr>;
          builder = register_data path (register_data (write_file_header_bytes order header) wal_begin);
          builder = (if data \<noteq> [] then register_data data builder else builder)
      in wal_insert E iceberg_rmgr_id (wal_op_code WriteFile) builder w)"

text \<open>The batching loop, with the payload, the number of its paths and the last LSN so far.\<close>

fun log_delete_loop :: "('lsn, 'w) wal_env \<Rightarrow> byte_order \<Rightarrow> string list \<Rightarrow> string \<Rightarrow> 32 word \<Rightarrow> 'lsn option \<Rightarrow> 'w
    \<Rightarrow> 'lsn option \<times> 'w" where
  "log_delete_loop E order [] payload path_count last_lsn w =
     (if 0 < path_count
      then (let (lsn, w) = insert_delete_files_record E order path_count payload w in (Some lsn, w))
      else (last_lsn, w))"
| "log_delete_loop E order (path # paths) payload path_count last_lsn w =
     (if path = [] \<or> CHR 0x00 \<in> set path then
        log_delete_loop E order paths payload path_count last_lsn
          (wal_warning E ''skipping DELETE_FILES WAL for empty path or path containing NUL'' w)
      else if 2 ^ 32 \<le> length path then
        log_delete_loop E order paths payload path_count last_lsn
          (wal_warning E (''skipping DELETE_FILES WAL for path longer than u32: '' @ show_nat (length path) @ '' bytes'') w)
      else let encoded_len = 4 + length path in
        if max_delete_files_payload_bytes < encoded_len then
          log_delete_loop E order paths payload path_count last_lsn
            (wal_warning E (''skipping DELETE_FILES WAL for path exceeding bounded payload: ''
               @ show_nat (length path) @ '' bytes'') w)
        else let (payload, path_count, last_lsn, w) =
              (if 0 < path_count \<and> (max_delete_files_per_record \<le> unat path_count
                    \<or> max_delete_files_payload_bytes < length payload + encoded_len)
               then (let (lsn, w) = insert_delete_files_record E order path_count payload w in ([], 0, Some lsn, w))
               else (payload, path_count, last_lsn, w))
          in log_delete_loop E order paths (payload @ to_ne_bytes order 4 (length path) @ path)
               (path_count + 1) last_lsn w)"

definition log_delete_files :: "('lsn, 'w) wal_env \<Rightarrow> byte_order \<Rightarrow> string list \<Rightarrow> 'w \<Rightarrow> 'lsn option \<times> 'w" where
  "log_delete_files E order paths w = log_delete_loop E order paths [] 0 None w"

definition delete_file_fits_wal :: "string \<Rightarrow> bool" where
  "delete_file_fits_wal path \<longleftrightarrow> path \<noteq> [] \<and> CHR 0x00 \<notin> set path \<and> length path < 2 ^ 32
     \<and> 4 + length path \<le> max_delete_files_payload_bytes"

section \<open>Parsing\<close>

definition extract_directory_path :: "byte_order \<Rightarrow> string \<Rightarrow> string option" where
  "extract_directory_path order data =
     (if length data < size_of_directory then None
      else case checked_add_usize size_of_directory (unat (dir_path_len (read_directory_header order data))) of
          None \<Rightarrow> None
        | Some path_end \<Rightarrow>
            if length data < path_end then None else from_utf8 (byte_slice size_of_directory path_end data))"

primrec extract_delete_loop :: "byte_order \<Rightarrow> string \<Rightarrow> nat \<Rightarrow> nat \<Rightarrow> string list \<Rightarrow> (nat \<times> string list) option" where
  "extract_delete_loop order data 0 cursor paths = Some (cursor, paths)"
| "extract_delete_loop order data (Suc n) cursor paths =
     Option.bind (checked_add_usize cursor 4) (\<lambda>length_end.
     Option.bind (get_slice cursor length_end data) (\<lambda>length_bytes.
     Option.bind (checked_add_usize length_end (from_ne_bytes order length_bytes)) (\<lambda>path_end.
     Option.bind (get_slice length_end path_end data) (\<lambda>path_bytes.
       if path_bytes = [] \<or> CHR 0x00 \<in> set path_bytes then None
       else Option.bind (from_utf8 path_bytes) (\<lambda>path.
         extract_delete_loop order data n path_end (paths @ [path]))))))"

definition extract_delete_file_paths :: "byte_order \<Rightarrow> string \<Rightarrow> string list option" where
  "extract_delete_file_paths order data =
     (if length data < size_of_delete_files then None
      else let header = read_delete_files_header order data in
        if df_path_count header = 0 \<or> max_delete_files_per_record < unat (df_path_count header)
           \<or> max_delete_files_payload_bytes < unat (df_payload_len header) then None
        else Option.bind (checked_add_usize size_of_delete_files (unat (df_payload_len header))) (\<lambda>payload_end.
          if length data \<noteq> payload_end then None
          else Option.bind (extract_delete_loop order data (unat (df_path_count header)) size_of_delete_files [])
            (\<lambda>(cursor, paths). if cursor = payload_end then Some paths else None)))"

definition extract_write_file_info :: "byte_order \<Rightarrow> string \<Rightarrow> (string \<times> 64 word \<times> nat) option" where
  "extract_write_file_info order data =
     (if length data < size_of_write_file then None
      else let header = read_write_file_header order data in
        Option.bind (checked_add_usize size_of_write_file (unat (wf_path_len header))) (\<lambda>path_end.
          if length data < path_end then None
          else Option.bind (from_utf8 (byte_slice size_of_write_file path_end data)) (\<lambda>path.
            Some (path, wf_offset header, length data - path_end))))"

section \<open>The byte codec\<close>

lemma length_le_bytes [simp]: "length (le_bytes k n) = k"
  by (induction k arbitrary: n) auto

lemma le_nat_le_bytes: "le_nat (le_bytes k n) = n mod 256 ^ k"
proof (induction k arbitrary: n)
  case (Suc k)
  have "n mod 256 + 256 * (n div 256 mod 256 ^ k) = n mod (256 * 256 ^ k)"
    by (simp add: mod_mult2_eq)
  then show ?case using Suc by (simp add: of_char_of)
qed simp

lemma le_nat_less: "le_nat bs < 256 ^ length bs"
proof (induction bs)
  case (Cons b bs)
  have b: "(of_char b :: nat) < 256" by simp
  have "of_char b + 256 * m < 256 * p" if "m < p" for m p :: nat using that b by linarith
  then show ?case using Cons by simp
qed simp

lemma le_bytes_le_nat: "le_bytes (length bs) (le_nat bs) = bs"
proof (induction bs)
  case (Cons b bs)
  have b: "(of_char b :: nat) < 256" by simp
  have "(of_char b + 256 * le_nat bs) div 256 = le_nat bs" using b by simp
  moreover have "char_of (of_char b + 256 * le_nat bs) = b"
    using b by (metis char_of_mod_256 char_of_char mod_mult_self2)
  ultimately show ?case using Cons by simp
qed simp

lemma length_to_ne_bytes [simp]: "length (to_ne_bytes order k n) = k"
  by (simp add: to_ne_bytes_def split: byte_order.split)

lemma from_to_ne_bytes: "from_ne_bytes order (to_ne_bytes order k n) = n mod 256 ^ k"
  by (simp add: from_ne_bytes_def to_ne_bytes_def le_nat_le_bytes split: byte_order.split)

lemma to_from_ne_bytes: "length bs = k \<Longrightarrow> to_ne_bytes order k (from_ne_bytes order bs) = bs"
  using le_bytes_le_nat [of bs] le_bytes_le_nat [of "rev bs"]
  by (auto simp: from_ne_bytes_def to_ne_bytes_def split: byte_order.split)

lemma from_ne_bytes_less: "from_ne_bytes order bs < 256 ^ length bs"
  using le_nat_less [of bs] le_nat_less [of "rev bs"] by (simp add: from_ne_bytes_def split: byte_order.split)

lemma slice_append [simp]:
  "byte_slice 0 (length a) (a @ b) = a"
  "length a = n \<Longrightarrow> byte_slice (n + i) (n + j) (a @ b) = byte_slice i j b"
  by (auto simp: byte_slice_def)

section \<open>Round trips\<close>

lemma unat_of_nat_small: "n < 2 ^ 32 \<Longrightarrow> unat (of_nat n :: 32 word) = n"
  by (simp add: unat_of_nat)

lemma of_nat_unat_id: "of_nat (unat (x :: 32 word)) = x"
  by simp

lemma bytes_word32 [simp]: "from_ne_bytes order (to_ne_bytes order 4 (unat (x :: 32 word))) = unat x"
  using unsigned_less [of x, where 'a = nat] by (simp add: from_to_ne_bytes)

lemma bytes_word64 [simp]: "from_ne_bytes order (to_ne_bytes order 8 (unat (x :: 64 word))) = unat x"
  using unsigned_less [of x, where 'a = nat] by (simp add: from_to_ne_bytes)

lemma slices:
  "length a = 4 \<Longrightarrow> byte_slice 0 4 (a @ r) = a"
  "length a = 4 \<Longrightarrow> length b = 4 \<Longrightarrow> byte_slice 4 8 (a @ b @ r) = b"
  "length a = 4 \<Longrightarrow> length b = 4 \<Longrightarrow> length c = 8 \<Longrightarrow> byte_slice 8 16 (a @ b @ c @ r) = c"
  by (simp_all add: byte_slice_def)

lemma headers_read_back:
  "read_directory_header order (directory_header_bytes order h1 @ r) = h1"
  "read_delete_files_header order (delete_files_header_bytes order h2 @ r) = h2"
  "read_write_file_header order (write_file_header_bytes order h3 @ r) = h3"
  by (simp_all add: read_directory_header_def directory_header_bytes_def read_delete_files_header_def
      delete_files_header_bytes_def read_write_file_header_def write_file_header_bytes_def slices)

lemma header_lengths [simp]:
  "length (directory_header_bytes order h1) = 4" "length (delete_files_header_bytes order h2) = 8"
  "length (write_file_header_bytes order h3) = 16"
  by (simp_all add: directory_header_bytes_def delete_files_header_bytes_def write_file_header_bytes_def)

lemma slice_middle: "length a = n \<Longrightarrow> byte_slice n (n + length b) (a @ b @ c) = b"
  by (simp add: byte_slice_def)

lemma extract_directory_record:
  assumes "utf8_valid path" and "length path < 2 ^ 32"
  shows "extract_directory_path order
    (directory_header_bytes order \<lparr> dir_path_len = of_nat (length path) \<rparr> @ path) = Some path"
  using assms slice_middle [of "directory_header_bytes order h" 4 path "[]" for h]
  by (simp add: extract_directory_path_def headers_read_back size_of_directory_def checked_add_usize_def
      unat_of_nat_small from_utf8_def)

lemma extract_write_file_record:
  assumes "utf8_valid path" and "length path < 2 ^ 32"
  shows "extract_write_file_info order (write_file_header_bytes order
      \<lparr> wf_path_len = of_nat (length path), wf_padding = 0, wf_offset = offset \<rparr> @ path @ data)
    = Some (path, offset, length data)"
  using assms slice_middle [of "write_file_header_bytes order h" 16 path data for h]
  by (simp add: extract_write_file_info_def headers_read_back size_of_write_file_def checked_add_usize_def
      unat_of_nat_small from_utf8_def)

text \<open>
  C22. What is logged is what redo reads: for every path that is valid UTF-8 and shorter than 4 GiB, the
  record of a directory removal, of a directory truncation and of a file write carries the operation
  in its info byte, whatever flag bits PostgreSQL sets below it, and parses back to the very path,
  offset and data, on machines of either byte order.
\<close>
theorem logged_records_parse:
  assumes "utf8_valid path" and "length path < 2 ^ 32"
  shows "\<exists>dir write.
      log_delete_directory E order path = xlog_insert E iceberg_rmgr_id (wal_op_code DeleteDirectory) dir
    \<and> directory_log_truncate E order path = xlog_insert E iceberg_rmgr_id (wal_op_code TruncateDirectory) dir
    \<and> extract_directory_path order dir = Some path
    \<and> log_write_file E order path offset data = xlog_insert E iceberg_rmgr_id (wal_op_code WriteFile) write
    \<and> extract_write_file_info order write = Some (path, offset, length data)
    \<and> drop (length write - length data) write = data
    \<and> from_info (Bit_Operations.or (wal_op_code op) (Bit_Operations.and flags 0x0F)) = Some op"
proof -
  let ?dir = "directory_header_bytes order \<lparr> dir_path_len = of_nat (length path) \<rparr> @ path"
  let ?chunk = "write_file_header_bytes order
      \<lparr> wf_path_len = of_nat (length path), wf_padding = 0, wf_offset = offset \<rparr> @ path @ data"
  have flags: "Bit_Operations.and (Bit_Operations.or c (Bit_Operations.and flags 0x0F)) 0xF0 = Bit_Operations.and c 0xF0"
    for c :: "8 word"
    by (simp add: and.assoc bit.conj_disj_distrib2)
  have "from_info (Bit_Operations.or (wal_op_code op) (Bit_Operations.and flags 0x0F)) = Some op"
    by (cases op) (simp_all add: from_info_def wal_op_code_def flags [of 0, simplified] flags)
  then show ?thesis
    using extract_directory_record [OF assms, of order] extract_write_file_record [OF assms, of order offset data]
    by (intro exI [of "\<lambda>dir. \<exists>write. P dir write" ?dir for P] exI [of _ ?chunk])
      (simp add: Let_def log_delete_directory_def directory_log_truncate_def insert_directory_def log_write_file_def wal_insert_def
        register_data_def wal_begin_def fun_eq_iff)
qed

section \<open>Batches of deletions\<close>

definition batch_payload :: "byte_order \<Rightarrow> string list \<Rightarrow> string" where
  "batch_payload order ps = concat (map (\<lambda>p. to_ne_bytes order 4 (length p) @ p) ps)"

definition delete_files_bytes :: "byte_order \<Rightarrow> string list \<Rightarrow> string" where
  "delete_files_bytes order ps = delete_files_header_bytes order
     \<lparr> df_path_count = of_nat (length ps), df_payload_len = of_nat (length (batch_payload order ps)) \<rparr>
     @ batch_payload order ps"

text \<open>A batch one record can hold.\<close>

definition batch_ok :: "byte_order \<Rightarrow> string list \<Rightarrow> bool" where
  "batch_ok order ps \<longleftrightarrow> length ps \<le> max_delete_files_per_record
     \<and> length (batch_payload order ps) \<le> max_delete_files_payload_bytes
     \<and> (\<forall>p \<in> set ps. delete_file_fits_wal p \<and> utf8_valid p)"

lemma batch_payload_simps [simp]:
  "batch_payload order [] = []"
  "batch_payload order (p # ps) = to_ne_bytes order 4 (length p) @ p @ batch_payload order ps"
  "batch_payload order (ps @ qs) = batch_payload order ps @ batch_payload order qs"
  by (simp_all add: batch_payload_def)

lemma get_slice_middle:
  "get_slice (length a) (length a + length b) (a @ b @ c) = Some b"
  by (simp add: get_slice_def byte_slice_def)

lemma extract_delete_loop_batch:
  assumes "\<forall>p \<in> set ps. delete_file_fits_wal p \<and> utf8_valid p"
    and "length pre + length (batch_payload order ps) < 2 ^ 64"
  shows "extract_delete_loop order (pre @ batch_payload order ps) (length ps) (length pre) acc
    = Some (length pre + length (batch_payload order ps), acc @ ps)"
  using assms
proof (induction ps arbitrary: pre acc)
  case (Cons p ps)
  let ?n = "to_ne_bytes order 4 (length p)"
  let ?data = "pre @ ?n @ p @ batch_payload order ps"
  have fits: "delete_file_fits_wal p" "utf8_valid p" using Cons.prems by auto
  then have p: "p \<noteq> []" "CHR 0x00 \<notin> set p" "length p < 2 ^ 32" by (auto simp: delete_file_fits_wal_def)
  have len: "from_ne_bytes order ?n = length p" using p(3) by (simp add: from_to_ne_bytes)
  have s1: "get_slice (length pre) (length pre + 4) ?data = Some ?n"
    using get_slice_middle [of pre ?n "p @ batch_payload order ps"] by simp
  have s2: "get_slice (length pre + 4) (length pre + 4 + length p) ?data = Some p"
    using get_slice_middle [of "pre @ ?n" p "batch_payload order ps"] by (simp add: add.assoc)
  have "extract_delete_loop order ((pre @ ?n @ p) @ batch_payload order ps) (length ps) (length (pre @ ?n @ p)) (acc @ [p])
      = Some (length (pre @ ?n @ p) + length (batch_payload order ps), (acc @ [p]) @ ps)"
    by (rule Cons.IH) (use Cons.prems in auto)
  moreover have "length pre + 4 < 2 ^ 64" "length pre + 4 + length p < 2 ^ 64" using Cons.prems by auto
  ultimately show ?case
    using s1 s2 len p(1,2) fits(2) by (simp add: checked_add_usize_def from_utf8_def add.assoc)
qed simp

lemma extract_delete_files_batch:
  assumes "batch_ok order ps" and "ps \<noteq> []"
  shows "extract_delete_file_paths order (delete_files_bytes order ps) = Some ps"
proof -
  let ?h = "\<lparr> df_path_count = of_nat (length ps), df_payload_len = of_nat (length (batch_payload order ps)) \<rparr>"
  have b: "length ps \<le> 256" "length (batch_payload order ps) \<le> 65536"
    using assms by (auto simp: batch_ok_def max_delete_files_per_record_def max_delete_files_payload_bytes_def)
  have u: "unat (of_nat (length ps) :: 32 word) = length ps"
    "unat (of_nat (length (batch_payload order ps)) :: 32 word) = length (batch_payload order ps)"
    using b by (simp_all add: unat_of_nat_small)
  then have "(of_nat (length ps) :: 32 word) \<noteq> 0" using assms(2) by (metis length_0_conv unat_0)
  moreover have "extract_delete_loop order (delete_files_header_bytes order ?h @ batch_payload order ps)
      (length ps) 8 [] = Some (8 + length (batch_payload order ps), ps)"
    using extract_delete_loop_batch [of ps "delete_files_header_bytes order ?h" order "[]"] assms b
    by (simp add: batch_ok_def)
  ultimately show ?thesis
    using b u by (simp add: extract_delete_file_paths_def delete_files_bytes_def headers_read_back
        size_of_delete_files_def checked_add_usize_def max_delete_files_per_record_def max_delete_files_payload_bytes_def)
qed

text \<open>
  What is relied on of the WAL: an insertion appends one record and returns its LSN; a warning leaves
  the log alone.
\<close>

record ('lsn, 'w) wal_view =
  wal_log :: "'w \<Rightarrow> (8 word \<times> 8 word \<times> string) list"
  last_insert :: "'w \<Rightarrow> 'lsn option"

definition wal_laws :: "('lsn, 'w) wal_env \<Rightarrow> ('lsn, 'w) wal_view \<Rightarrow> bool" where
  "wal_laws E V \<longleftrightarrow>
     (\<forall>r i d w lsn w'. xlog_insert E r i d w = (lsn, w') \<longrightarrow>
        wal_log V w' = wal_log V w @ [(r, i, d)] \<and> last_insert V w' = Some lsn)
   \<and> (\<forall>m w. wal_log V (wal_warning E m w) = wal_log V w \<and> last_insert V (wal_warning E m w) = last_insert V w)"

definition delete_record :: "byte_order \<Rightarrow> string list \<Rightarrow> 8 word \<times> 8 word \<times> string" where
  "delete_record order ps = (iceberg_rmgr_id, wal_op_code DeleteFiles, delete_files_bytes order ps)"

lemma insert_batch:
  assumes "wal_laws E V"
    and "insert_delete_files_record E order (of_nat (length ps)) (batch_payload order ps) w = (lsn, w')"
  shows "wal_log V w' = wal_log V w @ [delete_record order ps]" and "last_insert V w' = Some lsn"
  using assms by (auto simp: insert_delete_files_record_def wal_insert_def register_data_def wal_begin_def
      wal_laws_def delete_record_def delete_files_bytes_def Let_def)

lemma fits_iff: "delete_file_fits_wal p \<longleftrightarrow> \<not> (p = [] \<or> CHR 0x00 \<in> set p) \<and> \<not> 2 ^ 32 \<le> length p
    \<and> \<not> max_delete_files_payload_bytes < 4 + length p"
  by (auto simp: delete_file_fits_wal_def)

lemma log_delete_loop_batches:
  assumes laws: "wal_laws E V"
  shows "batch_ok order ps \<Longrightarrow> \<forall>p \<in> set paths. utf8_valid p \<Longrightarrow>
    log_delete_loop E order paths (batch_payload order ps) (of_nat (length ps)) l w = (lsn, w') \<Longrightarrow>
    \<exists>bs. wal_log V w' = wal_log V w @ map (delete_record order) bs
      \<and> list_all (\<lambda>b. batch_ok order b \<and> b \<noteq> []) bs
      \<and> concat bs = ps @ filter delete_file_fits_wal paths
      \<and> lsn = (if bs = [] then l else last_insert V w')"
proof (induction paths arbitrary: ps l w)
  case Nil
  have "unat (of_nat (length ps) :: 32 word) = length ps"
    using Nil.prems(1) by (simp add: batch_ok_def max_delete_files_per_record_def unat_of_nat_small)
  then have pos: "0 < (of_nat (length ps) :: 32 word) \<longleftrightarrow> ps \<noteq> []"
    by (metis length_greater_0_conv unat_0 word_less_nat_alt)
  show ?case
  proof (cases "ps = []")
    case False
    then obtain w1 l1 where "insert_delete_files_record E order (of_nat (length ps)) (batch_payload order ps) w = (l1, w1)"
      by fastforce
    with insert_batch [OF laws this] Nil False pos show ?thesis by (intro exI [of _ "[ps]"]) auto
  qed (use Nil in auto)
next
  case (Cons p paths)
  show ?case
  proof (cases "delete_file_fits_wal p")
    case False
    then obtain m where "log_delete_loop E order paths (batch_payload order ps) (of_nat (length ps)) l (wal_warning E m w)
        = (lsn, w')"
      using Cons.prems(3) by (auto simp: fits_iff Let_def split: if_splits)
    from Cons.IH [OF Cons.prems(1) _ this] Cons.prems(2) laws False show ?thesis by (simp add: wal_laws_def)
  next
    case fits: True
    have count: "unat (of_nat (length ps) :: 32 word) = length ps" "length ps \<le> 256"
      using Cons.prems(1) by (simp_all add: batch_ok_def max_delete_files_per_record_def unat_of_nat_small)
    then have pos: "0 < (of_nat (length ps) :: 32 word) \<longleftrightarrow> ps \<noteq> []"
      by (metis length_greater_0_conv unat_0 word_less_nat_alt)
    let ?full = "ps \<noteq> [] \<and> (256 \<le> length ps \<or> 65536 < length (batch_payload order ps) + (4 + length p))"
    show ?thesis
    proof (cases ?full)
      case True
      obtain l1 w1 where ins: "insert_delete_files_record E order (of_nat (length ps)) (batch_payload order ps) w = (l1, w1)"
        by fastforce
      have ok: "batch_ok order [p]"
        using fits Cons.prems(2) by (simp add: batch_ok_def delete_file_fits_wal_def max_delete_files_per_record_def)
      have "log_delete_loop E order paths (batch_payload order [p]) (of_nat (length [p])) (Some l1) w1 = (lsn, w')"
        using Cons.prems(3) fits True ins count pos
        by (simp add: fits_iff max_delete_files_per_record_def max_delete_files_payload_bytes_def)
      from Cons.IH [OF ok _ this] Cons.prems(2) obtain bs
        where "wal_log V w' = wal_log V w1 @ map (delete_record order) bs"
          "list_all (\<lambda>b. batch_ok order b \<and> b \<noteq> []) bs" "concat bs = [p] @ filter delete_file_fits_wal paths"
          "lsn = (if bs = [] then Some l1 else last_insert V w')" by auto
      then show ?thesis using insert_batch [OF laws ins] fits True Cons.prems(1)
        by (intro exI [of _ "ps # bs"]) auto
    next
      case False
      have ok: "batch_ok order (ps @ [p])"
        using fits Cons.prems(1,2) False count
        by (cases "ps = []") (auto simp: batch_ok_def delete_file_fits_wal_def max_delete_files_per_record_def
            max_delete_files_payload_bytes_def)
      have "log_delete_loop E order paths (batch_payload order (ps @ [p])) (of_nat (length (ps @ [p]))) l w = (lsn, w')"
        using Cons.prems(3) fits False count pos
        by (auto simp: fits_iff max_delete_files_per_record_def max_delete_files_payload_bytes_def add.commute
            split: if_splits)
      from Cons.IH [OF ok _ this] Cons.prems(2) fits show ?thesis by simp
    qed
  qed
qed

lemma log_delete_loop_None:
  assumes "wal_laws E V"
  shows "log_delete_loop E order paths payload path_count last_lsn w = (None, w') \<Longrightarrow>
    last_lsn = None \<and> wal_log V w' = wal_log V w"
proof (induction paths arbitrary: payload path_count last_lsn w)
  case Nil
  then show ?case by (auto split: if_splits prod.splits)
next
  case (Cons path paths)
  have warn: "wal_log V (wal_warning E m v) = wal_log V v" for m v using assms by (simp add: wal_laws_def)
  obtain lsn v where "insert_delete_files_record E order path_count payload w = (lsn, v)" by (rule prod.exhaust)
  with Cons.prems show ?case
    by (auto simp: Let_def warn split: if_splits dest!: Cons.IH)
qed

lemma log_delete_files_records:
  assumes "wal_laws E V" and "\<forall>p \<in> set paths. utf8_valid p" and "log_delete_files E order paths w = (lsn, w')"
  shows "\<exists>records batches. wal_log V w' = wal_log V w @ map (\<lambda>d. (iceberg_rmgr_id, wal_op_code DeleteFiles, d)) records
    \<and> map (extract_delete_file_paths order) records = map Some batches
    \<and> concat batches = filter delete_file_fits_wal paths
    \<and> (\<forall>b \<in> set batches. b \<noteq> [] \<and> length b \<le> 256) \<and> (\<forall>d \<in> set records. length d \<le> 8 + 65536)
    \<and> lsn = (if records = [] then None else last_insert V w')"
proof -
  have "batch_ok order []" by (simp add: batch_ok_def)
  from log_delete_loop_batches [OF assms(1) this assms(2), of None w lsn w'] assms(3)
  obtain bs where bs: "wal_log V w' = wal_log V w @ map (delete_record order) bs"
      "list_all (\<lambda>b. batch_ok order b \<and> b \<noteq> []) bs" "concat bs = filter delete_file_fits_wal paths"
      "lsn = (if bs = [] then None else last_insert V w')"
    by (auto simp: log_delete_files_def)
  have ok: "b \<in> set bs \<Longrightarrow> batch_ok order b \<and> b \<noteq> []" for b using bs(2) by (auto simp: list_all_iff)
  have "map (extract_delete_file_paths order) (map (delete_files_bytes order) bs) = map Some bs"
    using ok by (auto intro: extract_delete_files_batch)
  moreover have "length b \<le> 256 \<and> length (delete_files_bytes order b) \<le> 8 + 65536" if "b \<in> set bs" for b
    using ok [OF that] by (simp add: batch_ok_def delete_files_bytes_def max_delete_files_per_record_def
        max_delete_files_payload_bytes_def)
  ultimately show ?thesis
    using bs ok by (intro exI [of _ "map (delete_files_bytes order) bs"] exI [of _ bs])
      (auto simp: delete_record_def)
qed

text \<open>
  C16. Every representable file is logged exactly once and can be replayed: logging the deletion of any
  list of paths appends a sequence of \<open>DELETE_FILES\<close> records, each within 256 paths and 64 KiB, whose
  parsed paths are together exactly the paths that fit a record, in order; the result is the LSN of the
  last record, so that flushing it flushes all of them.
\<close>
theorem log_delete_files_batches:
  assumes "wal_laws E V" and "\<forall>p \<in> set paths. utf8_valid p" and "log_delete_files E order paths w = (lsn, w')"
  shows "\<exists>records batches. wal_log V w' = wal_log V w @ map (\<lambda>d. (iceberg_rmgr_id, wal_op_code DeleteFiles, d)) records
    \<and> map (extract_delete_file_paths order) records = map Some batches
    \<and> concat batches = filter delete_file_fits_wal paths
    \<and> (\<forall>b \<in> set batches. b \<noteq> [] \<and> length b \<le> 256) \<and> (\<forall>d \<in> set records. length d \<le> 8 + 65536)
    \<and> lsn = (if records = [] then None else last_insert V w')"
  by (rule log_delete_files_records [OF assms])

lemma bind_Some_iff: "Option.bind x f = Some y \<longleftrightarrow> (\<exists>a. x = Some a \<and> f a = Some y)"
  by (cases x) auto

lemma extract_delete_loop_Some:
  "extract_delete_loop order data n c acc = Some (c', qs) \<Longrightarrow>
    \<exists>ps. qs = acc @ ps \<and> length ps = n \<and> c' = c + length (batch_payload order ps)
      \<and> (0 < n \<longrightarrow> c' \<le> length data) \<and> byte_slice c c' data = batch_payload order ps
      \<and> (\<forall>p \<in> set ps. p \<noteq> [] \<and> CHR 0x00 \<notin> set p \<and> length p < 2 ^ 32 \<and> utf8_valid p)"
proof (induction n arbitrary: c acc)
  case 0
  then show ?case by (simp add: byte_slice_def)
next
  case (Suc n)
  then obtain k p where k: "get_slice c (c + 4) data = Some k"
    and p: "get_slice (c + 4) (c + 4 + from_ne_bytes order k) data = Some p"
    and ok: "p \<noteq> []" "CHR 0x00 \<notin> set p" "utf8_valid p"
    and rest: "extract_delete_loop order data n (c + 4 + from_ne_bytes order k) (acc @ [p]) = Some (c', qs)"
    by (auto simp: bind_Some_iff checked_add_usize_def from_utf8_def split: if_splits)
  have len: "length k = 4" "length p = from_ne_bytes order k"
    using k p by (auto simp: get_slice_def byte_slice_def split: if_splits)
  then have small: "length p < 2 ^ 32" using from_ne_bytes_less [of order k] by simp
  have enc: "to_ne_bytes order 4 (length p) = k" using to_from_ne_bytes [of k 4 order] len by simp
  from Suc.IH [OF rest] obtain ps where ps: "qs = (acc @ [p]) @ ps" "length ps = n"
      "c' = c + 4 + length p + length (batch_payload order ps)" "0 < n \<longrightarrow> c' \<le> length data"
      "byte_slice (c + 4 + length p) c' data = batch_payload order ps"
      "\<forall>p \<in> set ps. p \<noteq> [] \<and> CHR 0x00 \<notin> set p \<and> length p < 2 ^ 32 \<and> utf8_valid p"
    using len by auto
  have "byte_slice c c' data = k @ p @ byte_slice (c + 4 + length p) c' data"
  proof -
    have "take (a + (b + r)) (drop c data) = take a (drop c data) @ take b (drop (c + a) data) @ take r (drop (c + a + b) data)"
      for a b r
      by (simp add: take_add add.commute add.left_commute)
    from this [of 4 "length p" "length (batch_payload order ps)"] show ?thesis
      using k p len ps(3) by (simp add: byte_slice_def get_slice_def add.assoc split: if_splits)
  qed
  moreover have "c + 4 + length p \<le> length data" using p len by (simp add: get_slice_def split: if_splits)
  ultimately show ?case
    using ps ok small enc by (intro exI [of _ "p # ps"]) (cases "n = 0", auto)
qed

text \<open>
  C36. The parser of \<open>DELETE_FILES\<close> records accepts nothing but well-formed records: whenever it returns
  paths, the data is byte for byte the record of those paths, with no byte left over, between 1 and
  256 of them, each non-empty, without NUL and valid UTF-8.
\<close>
theorem parsed_delete_files_canonical:
  assumes "extract_delete_file_paths order data = Some ps"
  shows "data = delete_files_bytes order ps \<and> ps \<noteq> [] \<and> length ps \<le> 256
    \<and> (\<forall>p \<in> set ps. delete_file_fits_wal p \<and> utf8_valid p)"
proof -
  let ?h = "read_delete_files_header order data"
  from assms have len: "8 \<le> length data" "length data = 8 + unat (df_payload_len ?h)"
    and count: "df_path_count ?h \<noteq> 0" "unat (df_path_count ?h) \<le> 256" "unat (df_payload_len ?h) \<le> 65536"
    and loop: "extract_delete_loop order data (unat (df_path_count ?h)) 8 [] = Some (length data, ps)"
    by (auto simp: extract_delete_file_paths_def Let_def bind_Some_iff checked_add_usize_def size_of_delete_files_def
        max_delete_files_per_record_def max_delete_files_payload_bytes_def split: if_splits)
  from extract_delete_loop_Some [OF loop] have ps: "length ps = unat (df_path_count ?h)"
    "length data = 8 + length (batch_payload order ps)" "byte_slice 8 (length data) data = batch_payload order ps"
    "\<forall>p \<in> set ps. p \<noteq> [] \<and> CHR 0x00 \<notin> set p \<and> length p < 2 ^ 32 \<and> utf8_valid p" by auto
  have "p \<in> set ps \<Longrightarrow> 4 + length p \<le> length (batch_payload order ps)" for p
    using member_le_sum_list [of "4 + length p" "map (\<lambda>p. 4 + length p) ps"]
    by (simp add: batch_payload_def length_concat o_def)
  then have fits: "\<forall>p \<in> set ps. delete_file_fits_wal p \<and> utf8_valid p"
    using ps len count by (fastforce simp: delete_file_fits_wal_def max_delete_files_payload_bytes_def)
  have "delete_files_header_bytes order ?h = byte_slice 0 8 data"
  proof -
    have "unat (of_nat (from_ne_bytes order s) :: 32 word) = from_ne_bytes order s" if "length s = 4" for s
      using from_ne_bytes_less [of order s] that by (simp add: unat_of_nat_small)
    then have "delete_files_header_bytes order ?h = byte_slice 0 4 data @ byte_slice 4 8 data"
      using len(1) by (simp add: delete_files_header_bytes_def read_delete_files_header_def byte_slice_def to_from_ne_bytes)
    then show ?thesis using len(1) by (simp add: byte_slice_def take_add [of 4 4, simplified])
  qed
  then have "data = delete_files_header_bytes order ?h @ batch_payload order ps"
    using ps(2,3) append_take_drop_id [of 8 data] by (simp add: byte_slice_def)
  moreover have "?h = \<lparr> df_path_count = of_nat (length ps), df_payload_len = of_nat (length (batch_payload order ps)) \<rparr>"
  proof -
    have "length (batch_payload order ps) = unat (df_payload_len ?h)" using ps(2) len(2) by simp
    then have "of_nat (length (batch_payload order ps)) = df_payload_len ?h" by (simp only: of_nat_unat_id)
    moreover have "of_nat (length ps) = df_path_count ?h" by (simp only: ps(1) of_nat_unat_id)
    ultimately show ?thesis by simp
  qed
  ultimately have "data = delete_files_bytes order ps" unfolding delete_files_bytes_def by simp
  moreover have "ps \<noteq> []" "length ps \<le> 256" using ps(1) count unat_eq_zero [of "df_path_count ?h"] by auto
  ultimately show ?thesis using fits by blast
qed

section \<open>Witnesses\<close>

text \<open>A log that is the list of its records; the LSN of a record is its position.\<close>

type_synonym demo_log = "(8 word \<times> 8 word \<times> string) list"

definition demo_wal :: "(nat, demo_log) wal_env" where
  "demo_wal = \<lparr> xlog_insert = (\<lambda>r i d w. (length w, w @ [(r, i, d)])), wal_warning = (\<lambda>_ w. w) \<rparr>"

definition demo_wal_view :: "(nat, demo_log) wal_view" where
  "demo_wal_view = \<lparr> wal_log = id, last_insert = (\<lambda>w. if w = [] then None else Some (length w - 1)) \<rparr>"

lemma demo_wal_laws: "wal_laws demo_wal demo_wal_view"
  by (auto simp: wal_laws_def demo_wal_def demo_wal_view_def)

theorem logged_records_parse_witness:
  "utf8_valid ''base/1'' \<and> (\<exists>dir write.
      log_delete_directory demo_wal BigEndian ''base/1'' = xlog_insert demo_wal iceberg_rmgr_id (wal_op_code DeleteDirectory) dir
    \<and> extract_directory_path BigEndian dir = Some ''base/1''
    \<and> extract_write_file_info BigEndian write = Some (''base/1'', 128, 3))"
proof -
  have u: "utf8_valid ''base/1''" by code_simp
  from logged_records_parse [OF this, of demo_wal BigEndian 128 "''abc''" WriteFile 3]
  show ?thesis using u by (auto simp del: utf8_valid.simps simp: numeral_3_eq_3)
qed

theorem log_delete_files_batches_witness:
  "list_all utf8_valid [''a'', [], ''bc''] \<and> wal_laws demo_wal demo_wal_view
   \<and> (\<exists>records batches. snd (log_delete_files demo_wal LittleEndian [''a'', [], ''bc''] [])
         = map (\<lambda>d. (iceberg_rmgr_id, wal_op_code DeleteFiles, d)) records
       \<and> map (extract_delete_file_paths LittleEndian) records = map Some batches \<and> concat batches = [''a'', ''bc''])"
proof -
  have u: "\<forall>p \<in> set [''a'', [], ''bc'']. utf8_valid p" by code_simp
  have f: "filter delete_file_fits_wal [''a'', [], ''bc''] = [''a'', ''bc'']"
    by (simp add: delete_file_fits_wal_def max_delete_files_payload_bytes_def)
  obtain records batches where rb: "wal_log demo_wal_view (snd (log_delete_files demo_wal LittleEndian [''a'', [], ''bc''] []))
      = wal_log demo_wal_view [] @ map (\<lambda>d. (iceberg_rmgr_id, wal_op_code DeleteFiles, d)) records"
      "map (extract_delete_file_paths LittleEndian) records = map Some batches"
      "concat batches = filter delete_file_fits_wal [''a'', [], ''bc'']"
    using log_delete_files_batches [OF demo_wal_laws u surjective_pairing, of LittleEndian "[]"] by blast
  show ?thesis
    using u demo_wal_laws rb unfolding f list_all_iff
    by (intro conjI exI [of _ records] exI [of _ batches]) (simp_all add: demo_wal_view_def)
qed

theorem parsed_delete_files_canonical_witness:
  "extract_delete_file_paths LittleEndian (delete_files_bytes LittleEndian [''ab'']) = Some [''ab'']
   \<and> list_all delete_file_fits_wal [''ab''] \<and> list_all utf8_valid [''ab'']"
proof -
  have u: "utf8_valid ''ab''" by code_simp
  have "batch_ok LittleEndian [''ab'']"
    using u by (simp add: batch_ok_def delete_file_fits_wal_def max_delete_files_payload_bytes_def max_delete_files_per_record_def)
  from extract_delete_files_batch [OF this] parsed_delete_files_canonical [OF extract_delete_files_batch [OF this]]
  show ?thesis by simp
qed

end
