(* ===== verification/Local_Files.thy ===== *)
theory Local_Files
  imports Wal_Records Storage_Resources
begin

text \<open>
  Local file storage (\<open>storage/local.rs\<close>): the storage adapter, the reader and the writer over
  PostgreSQL's virtual file descriptors, with the WAL records the writer leaves behind.

  The operating system and PostgreSQL's file API are the outside world, reached through a record of
  functions; a failing call reports the kind and text of the OS error. Paths and data are byte
  strings, positions are 64-bit signed integers kept as words.
\<close>

section \<open>The file system\<close>

datatype io_kind = IoNotFound | IoNotADirectory | IoInvalidInput | IoDataInvalid | IoOther

type_synonym io_error = "io_kind \<times> string"
type_synonym ('a, 'w) io = "'w \<Rightarrow> (io_error + 'a) \<times> 'w"

datatype open_flag = O_RDONLY | O_WRONLY | O_RDWR | O_CREAT | O_TRUNC

record file_entry =
  entry_is_dir :: bool
  entry_is_file :: bool
  entry_len :: nat

text \<open>An entry of a directory listing: its path, its own type and what \<open>metadata\<close> says of it.\<close>

record dir_entry =
  de_path :: string
  de_is_symlink :: bool
  de_metadata :: file_entry
  de_modified_ms :: "nat option"

record 'w file_env =
  path_name_open_file :: "string \<Rightarrow> open_flag list \<Rightarrow> (nat, 'w) io"
  file_write :: "nat \<Rightarrow> string \<Rightarrow> int \<Rightarrow> (nat, 'w) io"
  file_read :: "nat \<Rightarrow> nat \<Rightarrow> int \<Rightarrow> (string, 'w) io"
  file_size :: "nat \<Rightarrow> (nat, 'w) io"
  file_sync :: "nat \<Rightarrow> (unit, 'w) io"
  file_close :: "nat \<Rightarrow> 'w \<Rightarrow> 'w"
  fs_metadata :: "string \<Rightarrow> (file_entry, 'w) io"
  fs_remove_file :: "string \<Rightarrow> (unit, 'w) io"
  fs_remove_dir_all :: "string \<Rightarrow> (unit, 'w) io"
  fs_create_dir_all :: "string \<Rightarrow> (unit, 'w) io"
  fs_read_dir :: "string \<Rightarrow> ((io_error + dir_entry) list, 'w) io"
  path_parent :: "string \<Rightarrow> string option"
  fs_warning :: "string \<Rightarrow> 'w \<Rightarrow> 'w"

definition path_exists :: "'w file_env \<Rightarrow> string \<Rightarrow> 'w \<Rightarrow> bool \<times> 'w" where
  "path_exists F path w = (case fs_metadata F path w of (Inr _, w) \<Rightarrow> (True, w) | (Inl _, w) \<Rightarrow> (False, w))"

definition path_is_dir :: "'w file_env \<Rightarrow> string \<Rightarrow> 'w \<Rightarrow> bool \<times> 'w" where
  "path_is_dir F path w = (case fs_metadata F path w of (Inr m, w) \<Rightarrow> (entry_is_dir m, w) | (Inl _, w) \<Rightarrow> (False, w))"

text \<open>\<open>CString::new\<close> refuses a path with a NUL byte.\<close>

definition c_string :: "string \<Rightarrow> io_error + string" where
  "c_string path = (if CHR 0x00 \<in> set path
     then Inl (IoInvalidInput, ''nul byte found in provided data'') else Inr path)"

section \<open>Storage\<close>

record local_storage =
  ls_needs_wal :: bool
  ls_require_absolute_paths :: bool

definition with_wal :: "bool \<Rightarrow> local_storage" where
  "with_wal needs_wal = \<lparr> ls_needs_wal = needs_wal, ls_require_absolute_paths = False \<rparr>"

definition with_absolute_paths :: "local_storage \<Rightarrow> local_storage" where
  "with_absolute_paths s = s \<lparr> ls_require_absolute_paths := True \<rparr>"

definition file_scheme :: string where "file_scheme = ''file://''"

definition resolve_uri :: "local_storage \<Rightarrow> string \<Rightarrow> io_error + nat" where
  "resolve_uri s uri =
     (let offset = (if take (length file_scheme) uri = file_scheme then length file_scheme else 0);
          path = drop offset uri
      in if ls_require_absolute_paths s
            \<and> (\<not> (take 1 path = ''/'') \<or> (offset \<noteq> 0 \<and> set uri \<inter> set ''%?#'' \<noteq> {}))
         then Inl (IoDataInvalid, ''Local storage requires an absolute path or an unescaped file:/// URI'')
         else Inr offset)"

definition local_delete :: "'w file_env \<Rightarrow> string \<Rightarrow> (unit, 'w) io" where
  "local_delete F path w = (case fs_remove_file F path w of
       (Inr _, w) \<Rightarrow> (Inr (), w)
     | (Inl (kind, text), w) \<Rightarrow> if kind = IoNotFound then (Inr (), w) else (Inl (kind, text), w))"

definition local_remove_dir_all :: "'w file_env \<Rightarrow> string \<Rightarrow> (unit, 'w) io" where
  "local_remove_dir_all F path w =
     (let (found, w) = path_exists F path w in
      if \<not> found then (Inr (), w)
      else let (dir, w) = path_is_dir F path w in
        if dir then fs_remove_dir_all F path w else fs_remove_file F path w)"

definition truncate_directory :: "'w file_env \<Rightarrow> ('lsn, 'w) wal_env \<Rightarrow> byte_order \<Rightarrow> local_storage \<Rightarrow> string \<Rightarrow> (unit, 'w) io" where
  "truncate_directory F W order s path =
     bind_act (local_remove_dir_all F path) (\<lambda>_ w.
       (Inr (), if ls_needs_wal s then snd (directory_log_truncate W order path w) else w))"

definition local_status :: "'w file_env \<Rightarrow> string \<Rightarrow> (nat option, 'w) io" where
  "local_status F path w = (case fs_metadata F path w of
       (Inr m, w) \<Rightarrow> (Inr (Some (entry_len m)), w)
     | (Inl (kind, text), w) \<Rightarrow> if kind = IoNotFound then (Inr None, w) else (Inl (kind, text), w))"

definition location_is_empty :: "'w file_env \<Rightarrow> string \<Rightarrow> (bool, 'w) io" where
  "location_is_empty F location w = (case fs_read_dir F location w of
       (Inl (kind, text), w) \<Rightarrow>
         if kind = IoNotFound then (Inr True, w)
         else if kind = IoNotADirectory then (Inr False, w) else (Inl (kind, text), w)
     | (Inr [], w) \<Rightarrow> (Inr True, w)
     | (Inr (Inl e # _), w) \<Rightarrow> (Inl e, w)
     | (Inr (Inr _ # _), w) \<Rightarrow> (Inr False, w))"

section \<open>The reader\<close>

record pg_file_read =
  fr_path :: string
  fr_file :: nat
  fr_size :: int
  fr_position :: int

definition reader_open :: "'w file_env \<Rightarrow> string \<Rightarrow> (pg_file_read, 'w) io" where
  "reader_open F path =
     bind_act (lift_act (c_string path)) (\<lambda>c_path.
     bind_act (map_err_act (\<lambda>(kind, text). (kind, ''failed to open file '' @ quoted path @ '': '' @ text))
       (path_name_open_file F c_path [O_RDONLY])) (\<lambda>file w.
       case file_size F file w of
         (Inl (kind, text), w) \<Rightarrow>
           (Inl (kind, ''failed to get size of file '' @ quoted path @ '': '' @ text), file_close F file w)
       | (Inr len, w) \<Rightarrow>
           (Inr \<lparr> fr_path = path, fr_file = file, fr_size = int len, fr_position = 0 \<rparr>, w)))"

definition read_into_at :: "'w file_env \<Rightarrow> pg_file_read \<Rightarrow> int \<Rightarrow> nat \<Rightarrow> (string, 'w) io" where
  "read_into_at F r offset len =
     map_err_act (\<lambda>(kind, text). (kind, ''failed to read from file '' @ quoted (fr_path r) @ '': '' @ text))
       (file_read F (fr_file r) len offset)"

definition read_at :: "'w file_env \<Rightarrow> pg_file_read \<Rightarrow> int \<Rightarrow> nat \<Rightarrow> (string, 'w) io" where
  "read_at F r offset len = (if len = 0 then ok_act [] else read_into_at F r offset len)"

definition read_range :: "'w file_env \<Rightarrow> pg_file_read \<Rightarrow> nat \<Rightarrow> nat \<Rightarrow> (string, 'w) io" where
  "read_range F r start finish =
     (if finish < start then fail_act (IoInvalidInput, ''invalid range'')
      else if fr_size r < int finish then fail_act (IoInvalidInput, ''range end exceeds file size'')
      else read_at F r (int start) (finish - start))"

definition read_all :: "'w file_env \<Rightarrow> pg_file_read \<Rightarrow> (string, 'w) io" where
  "read_all F r = read_range F r 0 (nat (fr_size r))"

text \<open>\<open>Read::read\<close> fills a buffer of the given length and advances the cursor.\<close>

definition reader_read :: "'w file_env \<Rightarrow> nat \<Rightarrow> pg_file_read \<Rightarrow> 'w \<Rightarrow> (io_error + string) \<times> pg_file_read \<times> 'w" where
  "reader_read F len r w =
     (if len = 0 then (Inr [], r, w)
      else case read_into_at F r (fr_position r) len w of
          (Inl e, w) \<Rightarrow> (Inl e, r, w)
        | (Inr bytes, w) \<Rightarrow>
            if bytes = [] then (Inr [], r, w)
            else if i64_max < int (length bytes) then (Inl (IoInvalidInput, ''read length is too large''), r, w)
            else if i64_max < fr_position r + int (length bytes)
              then (Inl (IoInvalidInput, ''read position overflow''), r, w)
            else (Inr bytes, r \<lparr> fr_position := fr_position r + int (length bytes) \<rparr>, w))"

datatype seek_from = SeekStart nat | SeekEnd int | SeekCurrent int

definition checked_add_i64 :: "int \<Rightarrow> int \<Rightarrow> int option" where
  "checked_add_i64 a b = (if in_i64 (a + b) then Some (a + b) else None)"

definition reader_seek :: "seek_from \<Rightarrow> pg_file_read \<Rightarrow> (io_error + nat) \<times> pg_file_read" where
  "reader_seek pos r =
     (case (case pos of
         SeekStart off \<Rightarrow> if int off \<le> i64_max then Some (int off) else None
       | SeekEnd off \<Rightarrow> checked_add_i64 (fr_size r) off
       | SeekCurrent off \<Rightarrow> checked_add_i64 (fr_position r) off) of
        None \<Rightarrow> (Inl (IoInvalidInput, ''seek offset overflows''), r)
      | Some new_pos \<Rightarrow>
          if new_pos < 0 then (Inl (IoInvalidInput, ''invalid seek before start of file''), r)
          else (Inr (nat new_pos), r \<lparr> fr_position := new_pos \<rparr>))"

section \<open>The writer\<close>

record pg_file_write =
  fw_path :: string
  fw_file :: nat
  fw_position :: "64 word"
  fw_needs_wal :: bool

definition open_with_wal :: "'w file_env \<Rightarrow> string \<Rightarrow> bool \<Rightarrow> (pg_file_write, 'w) io" where
  "open_with_wal F path needs_wal =
     bind_act (lift_act (c_string path)) (\<lambda>c_path.
     bind_act (map_err_act (\<lambda>(kind, text). (kind, ''failed to open file '' @ quoted path @ '' for writing: '' @ text))
       (path_name_open_file F c_path [O_WRONLY, O_CREAT, O_TRUNC])) (\<lambda>file.
       ok_act \<lparr> fw_path = path, fw_file = file, fw_position = 0, fw_needs_wal = needs_wal \<rparr>))"

definition writer_write :: "'w file_env \<Rightarrow> ('lsn, 'w) wal_env \<Rightarrow> byte_order \<Rightarrow> string \<Rightarrow> pg_file_write
    \<Rightarrow> 'w \<Rightarrow> (io_error + nat) \<times> pg_file_write \<times> 'w" where
  "writer_write F W order buf f w =
     (if buf = [] then (Inr 0, f, w)
      else let write_position = fw_position f in
        case file_write F (fw_file f) buf (sint write_position) w of
          (Inl (kind, text), w) \<Rightarrow>
            (Inl (kind, ''failed to write to file '' @ quoted (fw_path f) @ '': '' @ text), f, w)
        | (Inr bytes_written, w) \<Rightarrow>
            (let f = f \<lparr> fw_position := write_position + of_nat bytes_written \<rparr>;
                 w = (if fw_needs_wal f \<and> 0 < bytes_written
                      then snd (log_write_file W order (fw_path f) write_position (take bytes_written buf) w)
                      else w)
             in (Inr bytes_written, f, w)))"

definition writer_flush :: "'w file_env \<Rightarrow> pg_file_write \<Rightarrow> (unit, 'w) io" where
  "writer_flush F f =
     map_err_act (\<lambda>(kind, text). (kind, ''failed to sync file '' @ quoted (fw_path f) @ '': '' @ text))
       (file_sync F (fw_file f))"

definition writer_close :: "'w file_env \<Rightarrow> pg_file_write \<Rightarrow> (nat, 'w) io" where
  "writer_close F f = bind_act (writer_flush F f) (\<lambda>_. ok_act (unat (fw_position f)))"

definition writer_drop :: "'w file_env \<Rightarrow> pg_file_write \<Rightarrow> 'w \<Rightarrow> 'w" where
  "writer_drop F f = file_close F (fw_file f)"

text \<open>\<open>Storage::writer\<close>: missing parent directories are made, and the new file is tracked for abort.\<close>

definition create_parent :: "'w file_env \<Rightarrow> string \<Rightarrow> (unit, 'w) io" where
  "create_parent F path w = (case path_parent F path of
       None \<Rightarrow> (Inr (), w)
     | Some parent \<Rightarrow> (let (found, w) = path_exists F parent w in
         if found then (Inr (), w) else fs_create_dir_all F parent w))"

definition storage_writer :: "'w file_env \<Rightarrow> local_storage \<Rightarrow> nest_level \<Rightarrow> string
    \<Rightarrow> ('io, 'l, 'svc) storage_resource_registry \<Rightarrow> 'w
    \<Rightarrow> (io_error + pg_file_write) \<times> ('io, 'l, 'svc) storage_resource_registry \<times> 'w" where
  "storage_writer F s n path reg w = (case create_parent F path w of
       (Inl e, w) \<Rightarrow> (Inl e, reg, w)
     | (Inr _, w) \<Rightarrow> (case open_with_wal F path (ls_needs_wal s) w of
           (Inl e, w) \<Rightarrow> (Inl e, reg, w)
         | (Inr writer, w) \<Rightarrow> (Inr writer, track_resource n (CreatedLocalFile path) reg, w)))"

section \<open>The cursor\<close>

datatype reader_op = OpRead nat | OpSeek seek_from

fun reader_step :: "'w file_env \<Rightarrow> reader_op \<Rightarrow> pg_file_read \<times> 'w \<Rightarrow> pg_file_read \<times> 'w" where
  "reader_step F (OpRead len) (r, w) = snd (reader_read F len r w)"
| "reader_step F (OpSeek pos) (r, w) = (snd (reader_seek pos r), w)"

lemma reader_of_size_Inr:
  "((case p of (Inl (kind, text), w) \<Rightarrow> (Inl (f kind text), g w) | (Inr len, w) \<Rightarrow> (Inr (h len), w)) = (Inr r, w1))
    \<longleftrightarrow> (\<exists>len. p = (Inr len, w1) \<and> r = h len)"
  by (auto split: prod.splits sum.splits)

text \<open>
  The cursor of a reader is always a valid position: from opening on, whatever is read and sought
  in whatever order, and whether the calls succeed or fail, it is a non-negative 64-bit signed
  integer; a seek that would leave this range fails and moves nothing.
\<close>
lemma reader_cursor_valid:
  assumes "reader_open F path w = (Inr r, w1)"
  shows "0 \<le> fr_position (fst (fold (reader_step F) ops (r, w1)))
    \<and> fr_position (fst (fold (reader_step F) ops (r, w1))) \<le> i64_max"
proof -
  have step: "0 \<le> fr_position (fst (reader_step F op s)) \<and> fr_position (fst (reader_step F op s)) \<le> i64_max"
    if "0 \<le> fr_position (fst s) \<and> fr_position (fst s) \<le> i64_max" for op s
    using that
    by (cases op; cases s) (auto simp: reader_read_def reader_seek_def checked_add_i64_def in_i64_def
        split: prod.splits sum.splits if_splits option.splits seek_from.splits)
  have "0 \<le> fr_position (fst s) \<and> fr_position (fst s) \<le> i64_max \<Longrightarrow>
      0 \<le> fr_position (fst (fold (reader_step F) ops s)) \<and> fr_position (fst (fold (reader_step F) ops s)) \<le> i64_max" for s
    by (induction ops arbitrary: s) (simp_all add: step)
  moreover have "fr_position r = 0"
    using assms by (auto simp: reader_open_def bind_act_Inr_iff reader_of_size_Inr)
  ultimately show ?thesis by (simp add: i64_max_def)
qed

end
