(* ===== verification/Wal_Redo.thy ===== *)
theory Wal_Redo
  imports Local_Files
begin

text \<open>
  Replay of the write-ahead log of local Iceberg files (\<open>storage/local_file_wal/rmgr.rs\<close>). The state of
  the resource manager is the set of paths whose base file was missing; \<open>crash_only\<close> says whether
  PostgreSQL is in local crash recovery rather than in standby replay or archive recovery. Debug log
  lines are left out.
\<close>

section \<open>State and records\<close>

datatype wal_rmgr_error = RedoFailed string | InvalidRecord string | Internal string

record 'w redo_state =
  lossy_skipped_write_paths :: "string set"
  redo_world :: 'w

record wal_record =
  rec_info :: "8 word"
  rec_main_data :: "string option"

type_synonym 'w redo = "'w redo_state \<Rightarrow> (wal_rmgr_error + unit) \<times> 'w redo_state"

definition mark_lossy_skipped_write_path :: "string \<Rightarrow> 'w redo_state \<Rightarrow> bool \<times> 'w redo_state" where
  "mark_lossy_skipped_write_path path s =
     (path \<notin> lossy_skipped_write_paths s,
      s \<lparr> lossy_skipped_write_paths := insert path (lossy_skipped_write_paths s) \<rparr>)"

definition is_lossy_skipped_write_path :: "string \<Rightarrow> 'w redo_state \<Rightarrow> bool" where
  "is_lossy_skipped_write_path path s \<longleftrightarrow> path \<in> lossy_skipped_write_paths s"

definition unmark_lossy_skipped_write_path :: "string \<Rightarrow> 'w redo_state \<Rightarrow> 'w redo_state" where
  "unmark_lossy_skipped_write_path path s =
     s \<lparr> lossy_skipped_write_paths := lossy_skipped_write_paths s - {path} \<rparr>"

definition clear_lossy_skipped_write_paths :: "'w redo_state \<Rightarrow> 'w redo_state" where
  "clear_lossy_skipped_write_paths s = s \<lparr> lossy_skipped_write_paths := {} \<rparr>"

definition main_data_of :: "wal_record \<Rightarrow> wal_rmgr_error + string" where
  "main_data_of r = (case rec_main_data r of None \<Rightarrow> Inl (InvalidRecord ''Missing main data'') | Some d \<Rightarrow> Inr d)"

section \<open>Removals\<close>

text \<open>Best effort: whatever the file system says, the replay goes on.\<close>

definition remove_path :: "'w file_env \<Rightarrow> string \<Rightarrow> 'w \<Rightarrow> 'w" where
  "remove_path F path w = (case fs_metadata F path w of
       (Inl (kind, text), w) \<Rightarrow>
         if kind = IoNotFound then w
         else fs_warning F (''Failed to stat directory during redo: '' @ path @ '' - '' @ text) w
     | (Inr m, w) \<Rightarrow>
         (case (if entry_is_dir m then fs_remove_dir_all F path w else fs_remove_file F path w) of
            (Inr _, w) \<Rightarrow> w
          | (Inl (kind, text), w) \<Rightarrow>
              if kind = IoNotFound then w
              else fs_warning F (''Failed to delete directory during lossy redo: '' @ path @ '' - '' @ text) w))"

definition redo_remove_directory :: "'w file_env \<Rightarrow> byte_order \<Rightarrow> wal_record \<Rightarrow> 'w redo" where
  "redo_remove_directory F order r s = (case main_data_of r of
       Inl e \<Rightarrow> (Inl e, s)
     | Inr data \<Rightarrow> (case extract_directory_path order data of
           None \<Rightarrow> (Inl (InvalidRecord ''Failed to extract directory path''), s)
         | Some path \<Rightarrow> (Inr (), s \<lparr> redo_world := remove_path F path (redo_world s) \<rparr>)))"

definition redo_delete_one :: "'w file_env \<Rightarrow> string \<Rightarrow> 'w redo_state \<Rightarrow> 'w redo_state" where
  "redo_delete_one F path s =
     (let s = unmark_lossy_skipped_write_path path s in
      s \<lparr> redo_world := (case fs_remove_file F path (redo_world s) of
          (Inr _, w) \<Rightarrow> w
        | (Inl (kind, text), w) \<Rightarrow>
            if kind = IoNotFound then w
            else fs_warning F (''Failed to delete canceled Iceberg file during lossy redo: '' @ path @ '' - '' @ text) w) \<rparr>)"

definition redo_delete_files :: "'w file_env \<Rightarrow> byte_order \<Rightarrow> wal_record \<Rightarrow> 'w redo" where
  "redo_delete_files F order r s = (case main_data_of r of
       Inl e \<Rightarrow> (Inl e, s)
     | Inr data \<Rightarrow> (case extract_delete_file_paths order data of
           None \<Rightarrow> (Inl (InvalidRecord ''Invalid DELETE_FILES record''), s)
         | Some paths \<Rightarrow> (Inr (), fold (redo_delete_one F) paths s)))"

section \<open>Writes\<close>

text \<open>A computation on the outside world with errors of the replay.\<close>

definition redo_io :: "(io_error \<Rightarrow> wal_rmgr_error) \<Rightarrow> ('a, 'w) io \<Rightarrow> 'w redo_state \<Rightarrow> (wal_rmgr_error + 'a) \<times> 'w redo_state" where
  "redo_io f m s = (let (res, w) = m (redo_world s) in (map_err f res, s \<lparr> redo_world := w \<rparr>))"

definition open_redo_file :: "'w file_env \<Rightarrow> string \<Rightarrow> 64 word \<Rightarrow> 'w redo_state
    \<Rightarrow> (wal_rmgr_error + nat option) \<times> 'w redo_state" where
  "open_redo_file F path offset s =
     (let (res, w) = path_name_open_file F path
            (if offset = 0 then [O_RDWR, O_CREAT, O_TRUNC] else [O_RDWR]) (redo_world s);
          s = s \<lparr> redo_world := w \<rparr>
      in case res of
           Inl (kind, text) \<Rightarrow>
             if 0 < sint offset \<and> kind = IoNotFound then
               (let (first_skip, s) = mark_lossy_skipped_write_path path s
                in (Inr None, if first_skip
                     then s \<lparr> redo_world := fs_warning F (''Skipping local Iceberg file during lossy WAL replay because base file is missing: path=''
                             @ path) (redo_world s) \<rparr>
                     else s))
             else (Inl (RedoFailed (''Failed to open file during redo: '' @ path @ '' - '' @ text)), s)
         | Inr file \<Rightarrow> (Inr (Some file), if offset = 0 then unmark_lossy_skipped_write_path path s else s))"

text \<open>The write itself; the guard closes the file on every way out.\<close>

definition write_redo_data :: "'w file_env \<Rightarrow> string \<Rightarrow> nat \<Rightarrow> 64 word \<Rightarrow> string \<Rightarrow> 'w redo" where
  "write_redo_data F path file offset data s =
     (if data = [] then (Inr (), s \<lparr> redo_world := file_close F file (redo_world s) \<rparr>)
      else let (res, w) = file_write F file data (sint offset) (redo_world s);
               s = s \<lparr> redo_world := file_close F file w \<rparr>
           in case res of
                Inr n \<Rightarrow> if n = length data then (Inr (), s)
                  else (Inl (RedoFailed (''Failed to write to file: '' @ path)), s)
              | Inl _ \<Rightarrow> (Inl (RedoFailed (''Failed to write to file: '' @ path)), s))"

definition redo_chunk :: "'w file_env \<Rightarrow> string \<Rightarrow> 64 word \<Rightarrow> string \<Rightarrow> 'w redo" where
  "redo_chunk F path offset file_data s =
     (if 0 < sint offset \<and> is_lossy_skipped_write_path path s then (Inr (), s)
      else bind_act (redo_io (\<lambda>(kind, text). RedoFailed (''Failed to create parent directories during redo: '' @ text))
             (create_parent F path)) (\<lambda>_.
           bind_act (lift_act (map_err (\<lambda>(kind, text). InvalidRecord (''Invalid path string: '' @ text))
             (c_string path))) (\<lambda>c_path.
           bind_act (open_redo_file F c_path offset) (\<lambda>opened. case opened of
               None \<Rightarrow> ok_act ()
             | Some file \<Rightarrow> write_redo_data F path file offset file_data))) s)"

definition redo_write_file :: "'w file_env \<Rightarrow> byte_order \<Rightarrow> bool \<Rightarrow> wal_record \<Rightarrow> 'w redo" where
  "redo_write_file F order crash_only r =
     (if crash_only then ok_act ()
      else bind_act (lift_act (main_data_of r)) (\<lambda>data.
        case extract_write_file_info order data of
          None \<Rightarrow> fail_act (InvalidRecord ''Invalid WRITE_FILE record'')
        | Some (path, offset, data_len) \<Rightarrow> redo_chunk F path offset (drop (length data - data_len) data)))"

section \<open>The resource manager\<close>

definition redo :: "'w file_env \<Rightarrow> byte_order \<Rightarrow> bool \<Rightarrow> wal_record \<Rightarrow> 'w redo" where
  "redo F order crash_only r = (case from_info (rec_info r) of
       None \<Rightarrow> fail_act (InvalidRecord ''Unknown Iceberg WAL op'')
     | Some DeleteDirectory \<Rightarrow> redo_remove_directory F order r
     | Some WriteFile \<Rightarrow> redo_write_file F order crash_only r
     | Some DeleteFiles \<Rightarrow> redo_delete_files F order r
     | Some TruncateDirectory \<Rightarrow> if crash_only then ok_act () else redo_remove_directory F order r)"

definition rmgr_identify :: "8 word \<Rightarrow> string option" where
  "rmgr_identify info = map_option wal_op_name (from_info info)"

definition rmgr_desc :: "byte_order \<Rightarrow> wal_record \<Rightarrow> string" where
  "rmgr_desc order r = (case from_info (rec_info r) of
       None \<Rightarrow> ''iceberg UNKNOWN''
     | Some op \<Rightarrow> ''iceberg '' @ wal_op_name op @ (case rec_main_data r of
           None \<Rightarrow> []
         | Some data \<Rightarrow>
             if op = WriteFile then (case extract_write_file_info order data of
                 None \<Rightarrow> []
               | Some (path, offset, data_len) \<Rightarrow>
                   '' path='' @ path @ '' offset=''
                   @ (if sint offset < 0 then ''-'' else []) @ show_nat (nat \<bar>sint offset\<bar>)
                   @ '' len='' @ show_nat data_len)
             else if op = DeleteFiles then (case extract_delete_file_paths order data of
                 None \<Rightarrow> [] | Some paths \<Rightarrow> '' paths='' @ show_nat (length paths))
             else (case extract_directory_path order data of None \<Rightarrow> [] | Some path \<Rightarrow> '' path='' @ path)))"

definition rmgr_cleanup :: "'w redo" where
  "rmgr_cleanup s = (Inr (), clear_lossy_skipped_write_paths s)"

text \<open>Recovery feeds the records of the log one after the other and stops at the first error.\<close>

fun redo_all :: "'w file_env \<Rightarrow> byte_order \<Rightarrow> bool \<Rightarrow> wal_record list \<Rightarrow> 'w redo" where
  "redo_all F order crash_only [] = ok_act ()"
| "redo_all F order crash_only (r # rs) = bind_act (redo F order crash_only r) (\<lambda>_. redo_all F order crash_only rs)"

section \<open>What is relied on of the file system\<close>

text \<open>
  The contents of the regular files and the files behind open descriptors. Opening with
  \<open>O_CREAT | O_TRUNC\<close> leaves an empty file; opening without \<open>O_CREAT\<close> changes nothing and reports a
  missing file only if there is none; a write replaces the bytes at its offset, a hole being filled
  with zeros; every other call used here leaves file contents alone.
\<close>

record 'w file_view =
  files :: "'w \<Rightarrow> string \<Rightarrow> string option"
  fd_path :: "'w \<Rightarrow> nat \<Rightarrow> string option"

definition write_at :: "nat \<Rightarrow> string \<Rightarrow> string \<Rightarrow> string" where
  "write_at offset data c =
     take offset (c @ replicate (offset - length c) (CHR 0x00)) @ data @ drop (offset + length data) c"

definition open_law :: "'w file_env \<Rightarrow> 'w file_view \<Rightarrow> bool" where
  "open_law F V \<longleftrightarrow> (\<forall>p fl w fd w'. path_name_open_file F p fl w = (Inr fd, w') \<longrightarrow> fd_path V w' fd = Some p
     \<and> (O_CREAT \<in> set fl \<and> O_TRUNC \<in> set fl \<longrightarrow> files V w' = (files V w)(p \<mapsto> []))
     \<and> (O_CREAT \<notin> set fl \<and> O_TRUNC \<notin> set fl \<longrightarrow> files V w' = files V w \<and> files V w p \<noteq> None))"

definition missing_law :: "'w file_env \<Rightarrow> 'w file_view \<Rightarrow> bool" where
  "missing_law F V \<longleftrightarrow> (\<forall>p fl w e w'. path_name_open_file F p fl w = (Inl e, w') \<longrightarrow>
     O_CREAT \<notin> set fl \<longrightarrow> files V w' = files V w \<and> (fst e = IoNotFound \<longrightarrow> files V w p = None))"

definition write_law :: "'w file_env \<Rightarrow> 'w file_view \<Rightarrow> bool" where
  "write_law F V \<longleftrightarrow> (\<forall>fd d off w n w' p c. file_write F fd d off w = (Inr n, w') \<longrightarrow> fd_path V w fd = Some p \<longrightarrow>
     files V w p = Some c \<longrightarrow> 0 \<le> off \<longrightarrow> n \<le> length d
     \<and> files V w' = (files V w)(p \<mapsto> write_at (nat off) (take n d) c) \<and> fd_path V w' = fd_path V w)"

definition quiet_law :: "'w file_env \<Rightarrow> 'w file_view \<Rightarrow> bool" where
  "quiet_law F V \<longleftrightarrow> (\<forall>fd w. files V (file_close F fd w) = files V w)
   \<and> (\<forall>p w. files V (snd (fs_metadata F p w)) = files V w)
   \<and> (\<forall>p w. files V (snd (fs_create_dir_all F p w)) = files V w)
   \<and> (\<forall>m w. files V (fs_warning F m w) = files V w)"

definition file_laws :: "'w file_env \<Rightarrow> 'w file_view \<Rightarrow> bool" where
  "file_laws F V \<longleftrightarrow> open_law F V \<and> missing_law F V \<and> write_law F V \<and> quiet_law F V"

text \<open>On the primary, inserting WAL does not touch files and writing a file does not touch the WAL.\<close>

definition files_apart :: "'w file_env \<Rightarrow> ('lsn, 'w) wal_env \<Rightarrow> 'w file_view \<Rightarrow> ('lsn, 'w) wal_view \<Rightarrow> bool" where
  "files_apart F W V VW \<longleftrightarrow>
     (\<forall>r i d w. files V (snd (xlog_insert W r i d w)) = files V w
        \<and> fd_path V (snd (xlog_insert W r i d w)) = fd_path V w)
   \<and> (\<forall>fd d off w. wal_log VW (snd (file_write F fd d off w)) = wal_log VW w)"

section \<open>The writer and its log\<close>

text \<open>A writer that is given buffers one after the other until a write fails.\<close>

fun writer_run :: "'w file_env \<Rightarrow> ('lsn, 'w) wal_env \<Rightarrow> byte_order \<Rightarrow> string list \<Rightarrow> pg_file_write \<Rightarrow> 'w
    \<Rightarrow> (io_error + unit) \<times> pg_file_write \<times> 'w" where
  "writer_run F W order [] f w = (Inr (), f, w)"
| "writer_run F W order (buf # bufs) f w = (case writer_write F W order buf f w of
       (Inl e, f, w) \<Rightarrow> (Inl e, f, w)
     | (Inr _, f, w) \<Rightarrow> writer_run F W order bufs f w)"

definition chunk_record :: "byte_order \<Rightarrow> string \<Rightarrow> nat \<Rightarrow> string \<Rightarrow> 8 word \<times> 8 word \<times> string" where
  "chunk_record order path offset data = (iceberg_rmgr_id, wal_op_code WriteFile, write_file_header_bytes order
     \<lparr> wf_path_len = of_nat (length path), wf_padding = 0, wf_offset = of_nat offset \<rparr> @ path @ data)"

fun chunk_records :: "byte_order \<Rightarrow> string \<Rightarrow> nat \<Rightarrow> string list \<Rightarrow> (8 word \<times> 8 word \<times> string) list" where
  "chunk_records order path offset [] = []"
| "chunk_records order path offset (c # cs) =
     chunk_record order path offset c # chunk_records order path (offset + length c) cs"

definition as_record :: "8 word \<times> 8 word \<times> string \<Rightarrow> wal_record" where
  "as_record r = \<lparr> rec_info = fst (snd r), rec_main_data = Some (snd (snd r)) \<rparr>"

lemma sint_of_nat_small: "n < 2 ^ 63 \<Longrightarrow> sint (of_nat n :: 64 word) = int n"
  by (simp add: signed_of_nat signed_take_bit_int_eq_self)

lemma write_at_end: "write_at (length c) d c = c @ d"
  by (simp add: write_at_def)

lemma wal_log_insert:
  "wal_laws W VW \<Longrightarrow> wal_log VW (snd (xlog_insert W r i d w)) = wal_log VW w @ [(r, i, d)]"
  by (cases "xlog_insert W r i d w") (simp add: wal_laws_def)

lemma log_write_file_chunk:
  "log_write_file W order path (of_nat offset) data w = xlog_insert W (fst (chunk_record order path offset data))
     (fst (snd (chunk_record order path offset data))) (snd (snd (chunk_record order path offset data))) w"
  by (simp add: log_write_file_def wal_insert_def register_data_def wal_begin_def chunk_record_def Let_def)

lemma log_chunk:
  assumes "wal_laws W VW" and "files_apart F W V VW"
    and w': "w' = snd (log_write_file W order path (of_nat offset) data w)"
  shows "wal_log VW w' = wal_log VW w @ [chunk_record order path offset data]"
    and "files V w' = files V w" and "fd_path V w' = fd_path V w"
  using assms(2) unfolding w' log_write_file_chunk files_apart_def
  by (simp_all add: wal_log_insert [OF assms(1)])

lemma writer_write_logs:
  assumes laws: "file_laws F V" "wal_laws W VW" "files_apart F W V VW"
    and f: "fw_needs_wal f" "fw_position f = of_nat (length c)" "fd_path V w (fw_file f) = Some (fw_path f)"
    and c: "files V w (fw_path f) = Some c" "length c < 2 ^ 63"
    and run: "writer_write F W order buf f w = (Inr n, f', w')"
  shows "n \<le> length buf \<and> f' = f \<lparr> fw_position := of_nat (length c + n) \<rparr>
    \<and> files V w' (fw_path f) = Some (c @ take n buf) \<and> fd_path V w' (fw_file f) = Some (fw_path f)
    \<and> wal_log VW w' = wal_log VW w @ (if n = 0 then [] else [chunk_record order (fw_path f) (length c) (take n buf)])"
proof (cases "buf = []")
  case True
  then show ?thesis using run f c by (auto simp: writer_write_def)
next
  case False
  then obtain w1 where fw: "file_write F (fw_file f) buf (int (length c)) w = (Inr n, w1)"
    and f': "f' = f \<lparr> fw_position := of_nat (length c + n) \<rparr>"
    and w': "w' = (if 0 < n then snd (log_write_file W order (fw_path f) (of_nat (length c)) (take n buf) w1) else w1)"
    using run f(1,2) sint_of_nat_small [OF c(2)]
    by (auto simp: writer_write_def Let_def split: prod.splits sum.splits)
  have "n \<le> length buf \<and> files V w1 = (files V w)(fw_path f \<mapsto> write_at (nat (int (length c))) (take n buf) c)
      \<and> fd_path V w1 = fd_path V w"
    using laws(1) fw f(3) c(1) unfolding file_laws_def write_law_def by (meson of_nat_0_le_iff)
  then have 1: "n \<le> length buf" "files V w1 = (files V w)(fw_path f \<mapsto> c @ take n buf)" "fd_path V w1 = fd_path V w"
    by (simp_all add: write_at_end)
  have 2: "wal_log VW w1 = wal_log VW w" using laws(3) fw unfolding files_apart_def by (metis snd_conv)
  show ?thesis
  proof (cases "n = 0")
    case True
    then show ?thesis using 1 2 f' w' f(3) by simp
  next
    case False
    then have w': "w' = snd (log_write_file W order (fw_path f) (of_nat (length c)) (take n buf) w1)" using w' by simp
    show ?thesis using 1 2 f' f(3) False log_chunk [OF laws(2,3) w'] by simp
  qed
qed

lemma writer_run_logs:
  assumes laws: "file_laws F V" "wal_laws W VW" "files_apart F W V VW"
  shows "fw_needs_wal f \<Longrightarrow> fw_position f = of_nat (length c) \<Longrightarrow> fd_path V w (fw_file f) = Some (fw_path f) \<Longrightarrow>
    files V w (fw_path f) = Some c \<Longrightarrow> length c + sum_list (map length bufs) < 2 ^ 63 \<Longrightarrow>
    writer_run F W order bufs f w = (Inr (), f', w') \<Longrightarrow>
    \<exists>cs. [] \<notin> set cs \<and> files V w' (fw_path f) = Some (c @ concat cs) \<and> length (c @ concat cs) < 2 ^ 63
      \<and> wal_log VW w' = wal_log VW w @ chunk_records order (fw_path f) (length c) cs"
proof (induction bufs arbitrary: f w c)
  case Nil
  then show ?case by (intro exI [of _ "[]"]) simp
next
  case (Cons buf bufs)
  then obtain n f1 w1 where 1: "writer_write F W order buf f w = (Inr n, f1, w1)"
    and rest: "writer_run F W order bufs f1 w1 = (Inr (), f', w')"
    by (auto split: prod.splits sum.splits)
  have small: "length c < 2 ^ 63" using Cons.prems(5) by simp
  note step = writer_write_logs [OF laws Cons.prems(1-4) small 1]
  let ?c = "c @ take n buf"
  have len: "length ?c = length c + n" using step by simp
  have "\<exists>cs. [] \<notin> set cs \<and> files V w' (fw_path f1) = Some (?c @ concat cs) \<and> length (?c @ concat cs) < 2 ^ 63
      \<and> wal_log VW w' = wal_log VW w1 @ chunk_records order (fw_path f1) (length ?c) cs"
    by (rule Cons.IH [OF _ _ _ _ _ rest]) (use step Cons.prems len in auto)
  then obtain cs where cs: "[] \<notin> set cs" "files V w' (fw_path f) = Some (?c @ concat cs)" "length (?c @ concat cs) < 2 ^ 63"
      "wal_log VW w' = wal_log VW w1 @ chunk_records order (fw_path f) (length c + n) cs"
    using step len by auto
  show ?case
  proof (cases "n = 0")
    case True
    then show ?thesis using cs step by (intro exI [of _ cs]) auto
  next
    case False
    then have "take n buf \<noteq> []" "length (take n buf) = n" using step by auto
    then show ?thesis using cs step False by (intro exI [of _ "take n buf # cs"]) auto
  qed
qed

section \<open>Replay on a standby\<close>

lemma redo_chunk_record:
  assumes "utf8_valid path" and "length path < 2 ^ 32"
  shows "redo F order False (as_record (chunk_record order path offset data)) s = redo_chunk F path (of_nat offset) data s"
  using extract_write_file_record [OF assms, of order "of_nat offset" data]
  by (simp add: redo_def as_record_def chunk_record_def from_info_def wal_op_code_def redo_write_file_def main_data_of_def
      bind_act_def lift_act_def)

lemma quiet_files:
  assumes "file_laws F V"
  shows "files V (file_close F fd w) = files V w" "files V (snd (fs_metadata F p w)) = files V w"
    "files V (snd (fs_create_dir_all F p w)) = files V w" "files V (fs_warning F m w) = files V w"
  using assms by (simp_all add: file_laws_def quiet_law_def)

lemma create_parent_files:
  assumes "file_laws F V"
  shows "files V (snd (create_parent F path w)) = files V w"
proof (cases "path_parent F path")
  case (Some parent)
  have "snd (path_exists F parent w) = snd (fs_metadata F parent w)"
    by (simp add: path_exists_def split: prod.split sum.split)
  then show ?thesis using Some by (simp add: create_parent_def quiet_files [OF assms] split_beta Let_def)
qed (simp add: create_parent_def)

lemma redo_open_law:
  assumes "file_laws F V"
  shows "path_name_open_file F p [O_RDWR, O_CREAT, O_TRUNC] w = (Inr fd, w') \<Longrightarrow>
      fd_path V w' fd = Some p \<and> files V w' = (files V w)(p \<mapsto> [])"
    and "path_name_open_file F p [O_RDWR] w = (Inr fd, w') \<Longrightarrow> fd_path V w' fd = Some p \<and> files V w' = files V w"
    and "path_name_open_file F p [O_RDWR] w = (Inl (IoNotFound, t), w') \<Longrightarrow> files V w p = None"
proof -
  have o: "fd_path V w' fd = Some p \<and> (O_CREAT \<in> set fl \<and> O_TRUNC \<in> set fl \<longrightarrow> files V w' = (files V w)(p \<mapsto> []))
     \<and> (O_CREAT \<notin> set fl \<and> O_TRUNC \<notin> set fl \<longrightarrow> files V w' = files V w \<and> files V w p \<noteq> None)"
    if "path_name_open_file F p fl w = (Inr fd, w')" for fl
    using assms that unfolding file_laws_def open_law_def by blast
  from o [of "[O_RDWR, O_CREAT, O_TRUNC]"]
  show "path_name_open_file F p [O_RDWR, O_CREAT, O_TRUNC] w = (Inr fd, w') \<Longrightarrow>
      fd_path V w' fd = Some p \<and> files V w' = (files V w)(p \<mapsto> [])" by simp
  from o [of "[O_RDWR]"]
  show "path_name_open_file F p [O_RDWR] w = (Inr fd, w') \<Longrightarrow> fd_path V w' fd = Some p \<and> files V w' = files V w"
    by simp
  assume missing: "path_name_open_file F p [O_RDWR] w = (Inl (IoNotFound, t), w')"
  have "O_CREAT \<notin> set [O_RDWR]" by simp
  with missing assms show "files V w p = None" unfolding file_laws_def missing_law_def by fastforce
qed

lemma open_redo_ok:
  fixes s :: "'w redo_state"
  assumes laws: "file_laws F V" and small: "length c < 2 ^ 63"
    and base: "c = [] \<or> (files V (redo_world s) path = Some c \<and> path \<notin> lossy_skipped_write_paths s)"
    and run: "open_redo_file F path (of_nat (length c)) s = (Inr opened, s')"
  shows "\<exists>fd. opened = Some fd \<and> fd_path V (redo_world s') fd = Some path \<and> files V (redo_world s') path = Some c
    \<and> path \<notin> lossy_skipped_write_paths s'"
proof (cases "c = []")
  case True
  obtain res w1 where o: "path_name_open_file F path [O_RDWR, O_CREAT, O_TRUNC] (redo_world s) = (res, w1)"
    by (rule prod.exhaust)
  then obtain fd where fd: "res = Inr fd" "opened = Some fd"
      "s' = unmark_lossy_skipped_write_path path (s \<lparr> redo_world := w1 \<rparr>)"
    using run True by (cases res) (auto simp: open_redo_file_def Let_def)
  show ?thesis
    using redo_open_law(1) [OF laws o [unfolded fd(1)]] fd True by (simp add: unmark_lossy_skipped_write_path_def)
next
  case False
  have sint: "sint (of_nat (length c) :: 64 word) = int (length c)" by (rule sint_of_nat_small [OF small])
  have zero: "(of_nat (length c) :: 64 word) \<noteq> 0"
  proof
    assume "(of_nat (length c) :: 64 word) = 0"
    then have "int (length c) = 0" using sint by simp
    then show False using False by simp
  qed
  have base: "files V (redo_world s) path = Some c" "path \<notin> lossy_skipped_write_paths s" using base False by auto
  obtain res w1 where o: "path_name_open_file F path [O_RDWR] (redo_world s) = (res, w1)"
    by (rule prod.exhaust)
  have "\<nexists>t. res = Inl (IoNotFound, t)" using redo_open_law(3) [OF laws] o base(1) by auto
  then obtain fd where fd: "res = Inr fd" "opened = Some fd" "s' = s \<lparr> redo_world := w1 \<rparr>"
    using run o zero by (cases res) (auto simp: open_redo_file_def Let_def split: if_splits)
  show ?thesis using redo_open_law(2) [OF laws o [unfolded fd(1)]] fd base by simp
qed

lemma write_redo_ok:
  fixes s :: "'w redo_state"
  assumes laws: "file_laws F V" and small: "length c < 2 ^ 63" and data: "data \<noteq> []"
    and fd: "fd_path V (redo_world s) fd = Some path" "files V (redo_world s) path = Some c"
    and run: "write_redo_data F path fd (of_nat (length c)) data s = (Inr (), s')"
  shows "files V (redo_world s') path = Some (c @ data) \<and> lossy_skipped_write_paths s' = lossy_skipped_write_paths s"
proof -
  have sint: "sint (of_nat (length c) :: 64 word) = int (length c)" by (rule sint_of_nat_small [OF small])
  obtain res w1 where w: "file_write F fd data (int (length c)) (redo_world s) = (res, w1)" by (rule prod.exhaust)
  have s': "res = Inr (length data)" "s' = s \<lparr> redo_world := file_close F fd w1 \<rparr>"
    using run w data sint by (auto simp: write_redo_data_def Let_def split: sum.splits if_splits)
  have "write_law F V" using laws by (simp add: file_laws_def)
  then have "files V w1 = (files V (redo_world s))(path \<mapsto> write_at (nat (int (length c))) (take (length data) data) c)"
    using w fd unfolding s'(1) write_law_def by (meson of_nat_0_le_iff)
  then show ?thesis using s'(2) by (simp add: quiet_files [OF laws] write_at_end)
qed

lemma redo_chunk_appends:
  fixes s :: "'w redo_state"
  assumes laws: "file_laws F V" and small: "length c < 2 ^ 63"
    and base: "c = [] \<or> (files V (redo_world s) path = Some c \<and> path \<notin> lossy_skipped_write_paths s)"
    and run: "redo_chunk F path (of_nat (length c)) data s = (Inr (), s')" and data: "data \<noteq> []"
  shows "files V (redo_world s') path = Some (c @ data) \<and> path \<notin> lossy_skipped_write_paths s'"
proof -
  let ?off = "of_nat (length c) :: 64 word"
  let ?f = "\<lambda>opened. case opened of None \<Rightarrow> ok_act () | Some file \<Rightarrow> write_redo_data F path file ?off data"
  have sint: "sint ?off = int (length c)" by (rule sint_of_nat_small [OF small])
  have "\<not> (0 < sint ?off \<and> is_lossy_skipped_write_path path s)"
    using base sint by (auto simp: is_lossy_skipped_write_path_def)
  with run obtain u1 s1 where 1: "redo_io (\<lambda>(kind, text). RedoFailed (''Failed to create parent directories during redo: '' @ text))
      (create_parent F path) s = (Inr u1, s1)"
    and rest: "bind_act (lift_act (map_err (\<lambda>(kind, text). InvalidRecord (''Invalid path string: '' @ text)) (c_string path)))
      (\<lambda>c_path. bind_act (open_redo_file F c_path ?off) ?f) s1 = (Inr (), s')"
    unfolding redo_chunk_def by (simp only: if_False) (rule bind_act_InrE)
  from rest obtain c_path s2 where 2: "lift_act (map_err (\<lambda>(kind, text). InvalidRecord (''Invalid path string: '' @ text))
      (c_string path)) s1 = (Inr c_path, s2)"
    and rest: "bind_act (open_redo_file F c_path ?off) ?f s2 = (Inr (), s')"
    by (rule bind_act_InrE)
  have c_path: "c_path = path" "s2 = s1"
    using 2 by (auto simp: c_string_def split: if_splits)
  from rest obtain opened s3 where 3: "open_redo_file F path ?off s1 = (Inr opened, s3)" and rest: "?f opened s3 = (Inr (), s')"
    unfolding c_path by (rule bind_act_InrE)
  have s1: "files V (redo_world s1) = files V (redo_world s)" "lossy_skipped_write_paths s1 = lossy_skipped_write_paths s"
    using 1 create_parent_files [OF laws, of path "redo_world s"] by (auto simp: redo_io_def split_beta Let_def)
  have "c = [] \<or> (files V (redo_world s1) path = Some c \<and> path \<notin> lossy_skipped_write_paths s1)" using base s1 by simp
  from open_redo_ok [OF laws small this 3] obtain fd where fd: "opened = Some fd" "fd_path V (redo_world s3) fd = Some path"
      "files V (redo_world s3) path = Some c" "path \<notin> lossy_skipped_write_paths s3" by blast
  from write_redo_ok [OF laws small data fd(2,3), of s'] rest fd(1,4) show ?thesis by simp
qed

lemma redo_chunks:
  fixes s :: "'w redo_state"
  assumes laws: "file_laws F V" and path: "utf8_valid path" "length path < 2 ^ 32"
  shows "[] \<notin> set cs \<Longrightarrow> cs \<noteq> [] \<Longrightarrow> length (c @ concat cs) < 2 ^ 63 \<Longrightarrow>
    c = [] \<or> (files V (redo_world s) path = Some c \<and> path \<notin> lossy_skipped_write_paths s) \<Longrightarrow>
    redo_all F order False (map as_record (chunk_records order path (length c) cs)) s = (Inr (), s') \<Longrightarrow>
    files V (redo_world s') path = Some (c @ concat cs)"
proof (induction cs arbitrary: c s)
  case (Cons d cs)
  from Cons.prems(5) obtain u s1 where 1: "redo_chunk F path (of_nat (length c)) d s = (Inr u, s1)"
    and rest: "redo_all F order False (map as_record (chunk_records order path (length c + length d) cs)) s1 = (Inr (), s')"
    unfolding chunk_records.simps list.map redo_all.simps by (auto simp: redo_chunk_record [OF path] elim: bind_act_InrE)
  have small: "length c < 2 ^ 63" "d \<noteq> []" using Cons.prems by auto
  have s1: "files V (redo_world s1) path = Some (c @ d) \<and> path \<notin> lossy_skipped_write_paths s1"
    by (rule redo_chunk_appends [OF laws small(1) Cons.prems(4) _ small(2)]) (use 1 in simp)
  show ?case
  proof (cases "cs = []")
    case True
    then show ?thesis using rest s1 by simp
  next
    case False
    have "files V (redo_world s') path = Some ((c @ d) @ concat cs)"
      by (rule Cons.IH) (use Cons.prems False s1 rest in simp_all)
    then show ?thesis by simp
  qed
qed simp

text \<open>
  C8. A standby rebuilds what the writer wrote: after any sequence of successful writes to a new local
  file, a replay of the records the writer logged that reports no error, on any machine and whatever
  files it already has, ends with a file of exactly the same content. If nothing was written, nothing
  was logged.
\<close>
theorem standby_rebuilds_file:
  fixes s :: "'v redo_state"
  assumes primary: "file_laws F V" "wal_laws W VW" "files_apart F W V VW" and standby: "file_laws F' V'"
    and path: "utf8_valid path" "length path < 2 ^ 32"
    and opened: "open_with_wal F path True w0 = (Inr f, w1)"
    and written: "writer_run F W order bufs f w1 = (Inr (), f', w2)" "sum_list (map length bufs) < 2 ^ 63"
    and content: "files V w2 path = Some content"
    and replayed: "redo_all F' order False (map as_record (drop (length (wal_log VW w1)) (wal_log VW w2))) s = (Inr (), s')"
  shows "if content = [] then s' = s else files V' (redo_world s') path = Some content"
proof -
  have f: "f = \<lparr> fw_path = path, fw_file = fw_file f, fw_position = 0, fw_needs_wal = True \<rparr>"
    and o: "path_name_open_file F path [O_WRONLY, O_CREAT, O_TRUNC] w0 = (Inr (fw_file f), w1)"
    using opened by (auto simp: open_with_wal_def bind_act_Inr_iff c_string_def split: if_splits)
  have "O_CREAT \<in> set [O_WRONLY, O_CREAT, O_TRUNC]" "O_TRUNC \<in> set [O_WRONLY, O_CREAT, O_TRUNC]" by simp_all
  with o primary(1) have "fd_path V w1 (fw_file f) = Some path \<and> files V w1 = (files V w0)(path \<mapsto> [])"
    unfolding file_laws_def open_law_def by blast
  then have "\<exists>cs. [] \<notin> set cs \<and> files V w2 (fw_path f) = Some ([] @ concat cs) \<and> length ([] @ concat cs) < 2 ^ 63
      \<and> wal_log VW w2 = wal_log VW w1 @ chunk_records order (fw_path f) (length ([] :: string)) cs"
    using written by (intro writer_run_logs [OF primary, where f = f and f' = f' and w = w1 and bufs = bufs])
      (simp_all add: arg_cong [OF f, of fw_path] arg_cong [OF f, of fw_needs_wal] arg_cong [OF f, of fw_position])
  then obtain cs where cs: "[] \<notin> set cs" "content = concat cs" "length (concat cs) < 2 ^ 63"
      "drop (length (wal_log VW w1)) (wal_log VW w2) = chunk_records order path 0 cs"
    using content f by (metis append_Nil append_eq_conv_conj list.size(3) option.inject pg_file_write.select_convs(1))
  show ?thesis
  proof (cases "cs = []")
    case True
    then show ?thesis using cs replayed by simp
  next
    case False
    then have "content \<noteq> []" using cs by (cases cs) auto
    moreover have "files V' (redo_world s') path = Some ([] @ concat cs)"
      by (rule redo_chunks [OF standby path cs(1) False]) (use cs replayed in simp_all)
    ultimately show ?thesis using cs(2) by (simp del: concat_eq_Nil_conv)
  qed
qed



section \<open>Replayed deletions\<close>

definition remove_law :: "'w file_env \<Rightarrow> 'w file_view \<Rightarrow> bool" where
  "remove_law F V \<longleftrightarrow> (\<forall>p w res w'. fs_remove_file F p w = (res, w') \<longrightarrow> (case res of
     Inr _ \<Rightarrow> files V w' = (files V w)(p := None)
   | Inl e \<Rightarrow> files V w' = files V w \<and> (fst e = IoNotFound \<longrightarrow> files V w p = None)))"

text \<open>A path whose removal is never refused.\<close>

definition removable_path :: "'w file_env \<Rightarrow> string \<Rightarrow> bool" where
  "removable_path F p \<longleftrightarrow> (\<forall>w. case fst (fs_remove_file F p w) of Inr _ \<Rightarrow> True | Inl e \<Rightarrow> fst e = IoNotFound)"

lemma redo_delete_one_files:
  assumes "file_laws F V" and "remove_law F V" and "removable_path F p"
  shows "files V (redo_world (redo_delete_one F p s)) = (files V (redo_world s))(p := None)"
proof -
  let ?s = "unmark_lossy_skipped_write_path p s"
  obtain res w where r: "fs_remove_file F p (redo_world ?s) = (res, w)" by (rule prod.exhaust)
  have w: "case res of Inr _ \<Rightarrow> files V w = (files V (redo_world ?s))(p := None)
     | Inl e \<Rightarrow> files V w = files V (redo_world ?s) \<and> (fst e = IoNotFound \<longrightarrow> files V (redo_world ?s) p = None)"
    using assms(2) r unfolding remove_law_def by blast
  have "case res of Inr _ \<Rightarrow> True | Inl e \<Rightarrow> fst e = IoNotFound"
    using assms(3) r unfolding removable_path_def by (metis fst_conv)
  then show ?thesis
    using r w by (cases res) (auto simp: redo_delete_one_def Let_def unmark_lossy_skipped_write_path_def)
qed

lemma redo_delete_fold:
  assumes "file_laws F V" and "remove_law F V" and "\<forall>p \<in> set ps. removable_path F p"
  shows "files V (redo_world (fold (redo_delete_one F) ps s)) = (\<lambda>q. if q \<in> set ps then None else files V (redo_world s) q)"
  using assms(3)
proof (induction ps arbitrary: s)
  case (Cons p ps)
  then show ?case using redo_delete_one_files [OF assms(1,2), of p s] by (auto simp: fun_eq_iff)
qed simp

lemma redo_delete_records:
  assumes "file_laws F V" and "remove_law F V"
  shows "map (extract_delete_file_paths order) ds = map Some bs \<Longrightarrow> \<forall>p \<in> set (concat bs). removable_path F p \<Longrightarrow>
    \<exists>s'. redo_all F order crash (map (\<lambda>d. as_record (iceberg_rmgr_id, wal_op_code DeleteFiles, d)) ds) s = (Inr (), s')
      \<and> files V (redo_world s') = (\<lambda>q. if q \<in> set (concat bs) then None else files V (redo_world s) q)"
proof (induction ds arbitrary: bs s)
  case (Cons d ds)
  then obtain b bs' where bs: "bs = b # bs'" "extract_delete_file_paths order d = Some b" by (cases bs) auto
  have one: "redo F order crash (as_record (iceberg_rmgr_id, wal_op_code DeleteFiles, d)) s
      = (Inr (), fold (redo_delete_one F) b s)"
    using bs(2) by (simp add: redo_def as_record_def from_info_def wal_op_code_def redo_delete_files_def main_data_of_def)
  have "files V (redo_world (fold (redo_delete_one F) b s)) = (\<lambda>q. if q \<in> set b then None else files V (redo_world s) q)"
    by (rule redo_delete_fold [OF assms]) (use Cons.prems(2) bs(1) in auto)
  moreover obtain s' where "redo_all F order crash (map (\<lambda>d. as_record (iceberg_rmgr_id, wal_op_code DeleteFiles, d)) ds)
        (fold (redo_delete_one F) b s) = (Inr (), s')"
      "files V (redo_world s') = (\<lambda>q. if q \<in> set (concat bs') then None else files V (redo_world (fold (redo_delete_one F) b s)) q)"
    using Cons.IH [of bs' "fold (redo_delete_one F) b s"] Cons.prems bs(1) by auto
  ultimately show ?case using one bs(1) by (intro exI [of _ s']) (auto simp: bind_act_def fun_eq_iff)
qed (simp add: ok_act_def)

text \<open>
  C27. A standby deletes what the primary logged as deleted: replaying the records of a batch deletion,
  in crash recovery or not, always succeeds and removes exactly the files whose path fits a record;
  all other files stay as they are.
\<close>
theorem standby_deletes_files:
  assumes wal: "wal_laws W VW" and paths: "\<forall>p \<in> set paths. utf8_valid p"
    and logged: "log_delete_files W order paths w = (lsn, w')"
    and standby: "file_laws F V" "remove_law F V" "\<forall>p \<in> set paths. removable_path F p"
  shows "\<exists>s'. redo_all F order crash (map as_record (drop (length (wal_log VW w)) (wal_log VW w'))) s = (Inr (), s')
    \<and> files V (redo_world s') = (\<lambda>q. if q \<in> set paths \<and> delete_file_fits_wal q then None else files V (redo_world s) q)"
proof -
  from log_delete_files_records [OF wal paths logged] obtain ds bs
    where ds: "wal_log VW w' = wal_log VW w @ map (\<lambda>d. (iceberg_rmgr_id, wal_op_code DeleteFiles, d)) ds"
      "map (extract_delete_file_paths order) ds = map Some bs" "concat bs = filter delete_file_fits_wal paths" by blast
  have "\<forall>p \<in> set (concat bs). removable_path F p" using ds(3) standby(3) by auto
  from redo_delete_records [OF standby(1,2) ds(2) this, of crash s] show ?thesis
    by (auto simp: ds(1,3) comp_def)
qed

section \<open>Witnesses\<close>

text \<open>
  A machine as its files, the paths behind its descriptors and its log; directories always exist and
  every write is complete.
\<close>

type_synonym demo_machine = "(string \<Rightarrow> string option) \<times> string list \<times> demo_log"

fun demo_open :: "string \<Rightarrow> open_flag list \<Rightarrow> (nat, demo_machine) io" where
  "demo_open p fl (m, fds, l) =
     (if O_CREAT \<in> set fl then (Inr (length fds), m(p \<mapsto> []), fds @ [p], l)
      else if m p = None then (Inl (IoNotFound, ''no such file''), m, fds, l)
      else (Inr (length fds), m, fds @ [p], l))"

fun demo_write :: "nat \<Rightarrow> string \<Rightarrow> int \<Rightarrow> (nat, demo_machine) io" where
  "demo_write fd d off (m, fds, l) =
     (if fd < length fds \<and> m (fds ! fd) \<noteq> None
      then (Inr (length d), m(fds ! fd \<mapsto> write_at (nat off) d (the (m (fds ! fd)))), fds, l)
      else (Inl (IoOther, ''bad file descriptor''), m, fds, l))"

fun demo_remove :: "string \<Rightarrow> (unit, demo_machine) io" where
  "demo_remove p (m, r) = (if m p = None then (Inl (IoNotFound, ''no such file''), m, r) else (Inr (), m(p := None), r))"

definition demo_files :: "demo_machine file_env" where
  "demo_files = \<lparr> path_name_open_file = demo_open, file_write = demo_write,
     file_read = (\<lambda>_ _ _ w. (Inr [], w)), file_size = (\<lambda>_ w. (Inr 0, w)), file_sync = (\<lambda>_ w. (Inr (), w)),
     file_close = (\<lambda>_ w. w), fs_metadata = (\<lambda>_ w. (Inr \<lparr> entry_is_dir = True, entry_is_file = False, entry_len = 0 \<rparr>, w)),
     fs_remove_file = demo_remove, fs_remove_dir_all = (\<lambda>_ w. (Inr (), w)), fs_create_dir_all = (\<lambda>_ w. (Inr (), w)),
     fs_read_dir = (\<lambda>_ w. (Inr [], w)), path_parent = (\<lambda>_. None), fs_warning = (\<lambda>_ w. w) \<rparr>"

definition demo_files_view :: "demo_machine file_view" where
  "demo_files_view = \<lparr> files = fst, fd_path = (\<lambda>(m, fds, l) fd. if fd < length fds then Some (fds ! fd) else None) \<rparr>"

definition demo_machine_wal :: "(nat, demo_machine) wal_env" where
  "demo_machine_wal = \<lparr> xlog_insert = (\<lambda>r i d (m, fds, l). (length l, m, fds, l @ [(r, i, d)])), wal_warning = (\<lambda>_ w. w) \<rparr>"

definition demo_machine_log :: "(nat, demo_machine) wal_view" where
  "demo_machine_log = \<lparr> wal_log = (\<lambda>(m, fds, l). l), last_insert = (\<lambda>(m, fds, l). if l = [] then None else Some (length l - 1)) \<rparr>"

lemma demo_file_laws: "file_laws demo_files demo_files_view"
proof -
  have "open_law demo_files demo_files_view"
    by (auto simp: open_law_def demo_files_def demo_files_view_def split: if_splits)
  moreover have "missing_law demo_files demo_files_view"
    by (auto simp: missing_law_def demo_files_def demo_files_view_def split: if_splits)
  moreover have "write_law demo_files demo_files_view"
    by (auto simp: write_law_def demo_files_def demo_files_view_def split: if_splits)
  moreover have "quiet_law demo_files demo_files_view"
    by (auto simp: quiet_law_def demo_files_def demo_files_view_def)
  ultimately show ?thesis by (simp add: file_laws_def)
qed

lemma demo_machine_laws:
  "wal_laws demo_machine_wal demo_machine_log" "files_apart demo_files demo_machine_wal demo_files_view demo_machine_log"
  "remove_law demo_files demo_files_view" "removable_path demo_files p"
  by (auto simp: wal_laws_def files_apart_def remove_law_def removable_path_def demo_machine_wal_def demo_machine_log_def
      demo_files_def demo_files_view_def split: if_splits prod.splits)

lemma demo_path: "utf8_valid ''f''" "length ''f'' < 2 ^ 32"
  by code_simp simp

definition demo_empty_machine :: demo_machine where "demo_empty_machine = (\<lambda>_. None, [], [])"

definition demo_writer :: pg_file_write where
  "demo_writer = \<lparr> fw_path = ''f'', fw_file = 0, fw_position = 0, fw_needs_wal = True \<rparr>"

definition demo_written :: demo_machine where
  "demo_written = ([''f'' \<mapsto> ''abc''], [''f''], chunk_records LittleEndian ''f'' 0 [''ab'', ''c''])"

definition demo_standby :: "demo_machine redo_state" where
  "demo_standby = \<lparr> lossy_skipped_write_paths = {''f''}, redo_world = ([''f'' \<mapsto> ''older''], [], []) \<rparr>"

lemma demo_primary_run:
  "open_with_wal demo_files ''f'' True demo_empty_machine = (Inr demo_writer, [''f'' \<mapsto> []], [''f''], [])"
  "writer_run demo_files demo_machine_wal LittleEndian [''ab'', ''c''] demo_writer ([''f'' \<mapsto> []], [''f''], [])
     = (Inr (), demo_writer \<lparr> fw_position := 3 \<rparr>, demo_written)"
  by (simp add: open_with_wal_def demo_files_def demo_empty_machine_def demo_writer_def bind_act_def lift_act_def
      c_string_def map_err_act_def ok_act_def)
    (simp add: writer_write_def demo_files_def demo_writer_def write_at_def demo_written_def
      log_write_file_chunk [of _ _ _ 0, simplified] log_write_file_chunk [of _ _ _ 2, simplified]
      demo_machine_wal_def chunk_record_def)

lemma demo_replay:
  "fst (redo_all demo_files LittleEndian False (map as_record (chunk_records LittleEndian ''f'' 0 [''ab'', ''c''])) demo_standby)
     = Inr ()"
  by (simp add: redo_chunk_record [OF demo_path, where offset = 0, simplified] redo_chunk_record [OF demo_path] redo_chunk_def
      bind_act_def lift_act_def redo_io_def create_parent_def c_string_def open_redo_file_def write_redo_data_def
      ok_act_def is_lossy_skipped_write_path_def demo_files_def demo_standby_def unmark_lossy_skipped_write_path_def)

theorem standby_rebuilds_file_witness:
  "file_laws demo_files demo_files_view \<and> wal_laws demo_machine_wal demo_machine_log
   \<and> files demo_files_view demo_written ''f'' = Some ''abc''
   \<and> fst (redo_all demo_files LittleEndian False (map as_record (chunk_records LittleEndian ''f'' 0 [''ab'', ''c''])) demo_standby) = Inr ()
   \<and> files demo_files_view (redo_world (snd (redo_all demo_files LittleEndian False
        (map as_record (chunk_records LittleEndian ''f'' 0 [''ab'', ''c''])) demo_standby))) ''f'' = Some ''abc''"
proof -
  have log: "drop (length (wal_log demo_machine_log ([''f'' \<mapsto> []], [''f''], []))) (wal_log demo_machine_log demo_written)
      = chunk_records LittleEndian ''f'' 0 [''ab'', ''c'']"
    by (simp add: demo_machine_log_def demo_written_def)
  have content: "files demo_files_view demo_written ''f'' = Some ''abc''" by (simp add: demo_files_view_def demo_written_def)
  have run: "redo_all demo_files LittleEndian False (map as_record
        (drop (length (wal_log demo_machine_log ([''f'' \<mapsto> []], [''f''], []))) (wal_log demo_machine_log demo_written))) demo_standby
      = (Inr (), snd (redo_all demo_files LittleEndian False
          (map as_record (chunk_records LittleEndian ''f'' 0 [''ab'', ''c''])) demo_standby))"
    unfolding log using demo_replay by (metis prod.collapse)
  have total: "sum_list (map length [''ab'', ''c'']) < 2 ^ 63" by simp
  from standby_rebuilds_file [OF demo_file_laws demo_machine_laws(1,2) demo_file_laws demo_path demo_primary_run total content run]
  show ?thesis using demo_file_laws demo_machine_laws(1) content demo_replay by simp
qed


theorem standby_deletes_files_witness:
  "list_all utf8_valid [''f''] \<and> delete_file_fits_wal ''f''
   \<and> (\<exists>s'. redo_all demo_files LittleEndian True (map as_record
          (wal_log demo_machine_log (snd (log_delete_files demo_machine_wal LittleEndian [''f''] demo_empty_machine)))) demo_standby
        = (Inr (), s') \<and> files demo_files_view (redo_world s') ''f'' = None)"
proof -
  have u: "\<forall>p \<in> set [''f'']. utf8_valid p" using demo_path by simp
  have r: "\<forall>p \<in> set [''f'']. removable_path demo_files p" using demo_machine_laws(4) by simp
  have fits: "delete_file_fits_wal ''f''" by (simp add: delete_file_fits_wal_def max_delete_files_payload_bytes_def)
  have empty: "wal_log demo_machine_log demo_empty_machine = []" by (simp add: demo_machine_log_def demo_empty_machine_def)
  from standby_deletes_files [OF demo_machine_laws(1) u surjective_pairing [of "log_delete_files demo_machine_wal LittleEndian [''f''] demo_empty_machine"]
      demo_file_laws demo_machine_laws(3) r, of True demo_standby]
  obtain s' where "redo_all demo_files LittleEndian True (map as_record
          (wal_log demo_machine_log (snd (log_delete_files demo_machine_wal LittleEndian [''f''] demo_empty_machine)))) demo_standby
        = (Inr (), s')" "files demo_files_view (redo_world s') ''f'' = None"
    using fits unfolding empty by auto
  then show ?thesis using u fits unfolding list_all_iff by blast
qed

end
