(* ===== verification/Owner_Resources.thy ===== *)
theory Owner_Resources
  imports Prelude "HOL-Library.Multiset" "HOL-Library.Word"
begin

text \<open>
  Cleanup bound to PostgreSQL's resource owners (\<open>lagodb-core/src/resource.rs\<close>,
  \<open>resource/committed_cleanup.rs\<close> and \<open>resource/cleanup_suppression.rs\<close>): the backend-local list of
  remembered callbacks, each tagged with the owner that was current, the queue of cleanup that
  committed transactions handed over, and the two release callbacks PostgreSQL invokes.

  A callback is a value \<open>'c\<close>; what running it does to the backend, and whether it raises an ERROR, is
  a parameter, as are PostgreSQL's globals and its owner tree.
\<close>

section \<open>State and surroundings\<close>

record ('o, 'c) resource_entry =
  entry_id :: "64 word"
  entry_owner :: 'o
  entry_callback :: 'c

record ('o, 'c, 'w) owner_state =
  owner_entries :: "('o, 'c) resource_entry list"
  next_id :: "64 word"
  manager_registered :: bool
  committed :: "'c list"
  owner_world :: 'w

datatype release_phase = BeforeLocks | Locks | AfterLocks

datatype release_callback = CommittedCleanupCallback | OwnerReleaseCallback

record ('o, 'c, 'w) owner_env =
  current_resource_owner :: "'w \<Rightarrow> 'o option"
  top_transaction_resource_owner :: "'w \<Rightarrow> 'o option"
  resource_owner_parent :: "'o \<Rightarrow> 'w \<Rightarrow> 'o option"
  proc_exit_inprogress :: "'w \<Rightarrow> bool"
  register_release_callback :: "release_callback \<Rightarrow> 'w \<Rightarrow> 'w"
  run_callback :: "'c \<Rightarrow> ('o, 'c, 'w) owner_state \<Rightarrow> (string + unit) \<times> ('o, 'c, 'w) owner_state"
  owner_warning :: "string \<Rightarrow> 'w \<Rightarrow> 'w"
  show_owner :: "'o option \<Rightarrow> string"

definition warn_owner :: "('o, 'c, 'w) owner_env \<Rightarrow> string \<Rightarrow> ('o, 'c, 'w) owner_state \<Rightarrow> ('o, 'c, 'w) owner_state" where
  "warn_owner E text s = s \<lparr> owner_world := owner_warning E text (owner_world s) \<rparr>"

section \<open>Remembering and forgetting\<close>

text \<open>PostgreSQL prepends callbacks, so the owner callback registered last runs first.\<close>

definition init_resource_manager :: "('o, 'c, 'w) owner_env \<Rightarrow> ('o, 'c, 'w) owner_state \<Rightarrow> ('o, 'c, 'w) owner_state" where
  "init_resource_manager E s =
     (if manager_registered s then s
      else s \<lparr> owner_world := register_release_callback E OwnerReleaseCallback
                 (register_release_callback E CommittedCleanupCallback (owner_world s)),
               manager_registered := True \<rparr>)"

definition remember_resource :: "('o, 'c, 'w) owner_env \<Rightarrow> 'c \<Rightarrow> ('o, 'c, 'w) owner_state
    \<Rightarrow> (string + 64 word) \<times> ('o, 'c, 'w) owner_state" where
  "remember_resource E callback s =
     (let s = init_resource_manager E s in
      case current_resource_owner E (owner_world s) of
        None \<Rightarrow> (Inl ''remember_resource requires PostgreSQL's CurrentResourceOwner to be set'', s)
      | Some owner \<Rightarrow>
          (Inr (next_id s), s \<lparr> next_id := next_id s + 1,
             owner_entries := owner_entries s
               @ [\<lparr> entry_id = next_id s, entry_owner = owner, entry_callback = callback \<rparr>] \<rparr>))"

text \<open>\<open>Vec::swap_remove\<close>: the last element takes the place of the removed one.\<close>

definition swap_remove :: "nat \<Rightarrow> 'a list \<Rightarrow> 'a list" where
  "swap_remove i xs = (if i + 1 = length xs then butlast xs else (butlast xs)[i := last xs])"

fun position :: "('a \<Rightarrow> bool) \<Rightarrow> 'a list \<Rightarrow> nat option" where
  "position P [] = None"
| "position P (x # xs) = (if P x then Some 0 else map_option Suc (position P xs))"

definition forget_resource :: "64 word \<Rightarrow> ('o, 'c, 'w) owner_state \<Rightarrow> bool \<times> ('o, 'c, 'w) owner_state" where
  "forget_resource handle s = (case position (\<lambda>e. entry_id e = handle) (owner_entries s) of
       Some pos \<Rightarrow> (True, s \<lparr> owner_entries := swap_remove pos (owner_entries s) \<rparr>)
     | None \<Rightarrow> (False, s))"

section \<open>Release of an owner\<close>

function extract_owned :: "'o option \<Rightarrow> nat \<Rightarrow> ('o, 'c) resource_entry list \<Rightarrow> (64 word \<times> 'c) list
    \<Rightarrow> (64 word \<times> 'c) list \<times> ('o, 'c) resource_entry list" where
  "extract_owned owner i vec extracted =
     (if i < length vec then
        (if Some (entry_owner (vec ! i)) = owner
         then extract_owned owner i (swap_remove i vec)
                (extracted @ [(entry_id (vec ! i), entry_callback (vec ! i))])
         else extract_owned owner (i + 1) vec extracted)
      else (extracted, vec))"
  by pat_completeness auto

lemma length_swap_remove [simp]: "length (swap_remove i xs) = length xs - 1"
  by (simp add: swap_remove_def)

termination extract_owned
  by (relation "measure (\<lambda>(owner, i, vec, extracted). 2 * length vec - i)") auto

declare extract_owned.simps [simp del]

text \<open>One extracted callback: a commit warns about the leak, an ERROR becomes a warning.\<close>

definition run_released :: "('o, 'c, 'w) owner_env \<Rightarrow> bool \<Rightarrow> 'o option \<Rightarrow> 64 word \<times> 'c
    \<Rightarrow> ('o, 'c, 'w) owner_state \<Rightarrow> ('o, 'c, 'w) owner_state" where
  "run_released E is_commit owner = (\<lambda>(i, callback) s.
     let s = (if is_commit
              then warn_owner E (''resource leak detected for resource handle '' @ show_nat (unat i)
                     @ '' (owner='' @ show_owner E owner @ '')'') s
              else s)
     in case run_callback E callback s of
          (Inr _, s) \<Rightarrow> s
        | (Inl err, s) \<Rightarrow> warn_owner E (''error during resource cleanup for handle '' @ show_nat (unat i)
                               @ '': '' @ err) s)"

definition release_resource_callback :: "('o, 'c, 'w) owner_env \<Rightarrow> release_phase \<Rightarrow> bool \<Rightarrow> bool
    \<Rightarrow> ('o, 'c, 'w) owner_state \<Rightarrow> ('o, 'c, 'w) owner_state" where
  "release_resource_callback E phase is_commit is_top_level s =
     (let owner = current_resource_owner E (owner_world s) in
      if phase \<noteq> AfterLocks then s
      else if proc_exit_inprogress E (owner_world s) then s
      else if is_commit \<and> \<not> is_top_level then
        (case Option.bind owner (\<lambda>releasing. resource_owner_parent E releasing (owner_world s)) of
           None \<Rightarrow> s
         | Some parent \<Rightarrow> s \<lparr> owner_entries := map (\<lambda>e. if Some (entry_owner e) = owner then e \<lparr> entry_owner := parent \<rparr> else e)
               (owner_entries s) \<rparr>)
      else let (to_execute, rest) = extract_owned owner 0 (owner_entries s) []
           in fold (run_released E is_commit owner) to_execute (s \<lparr> owner_entries := rest \<rparr>))"

section \<open>Cleanup of committed transactions\<close>

definition committed_defer :: "('o, 'c, 'w) owner_env \<Rightarrow> 'c \<Rightarrow> ('o, 'c, 'w) owner_state \<Rightarrow> ('o, 'c, 'w) owner_state" where
  "committed_defer E cleanup s =
     (let s = init_resource_manager E s in s \<lparr> committed := committed s @ [cleanup] \<rparr>)"

definition run_committed :: "('o, 'c, 'w) owner_env \<Rightarrow> 'c \<Rightarrow> ('o, 'c, 'w) owner_state \<Rightarrow> ('o, 'c, 'w) owner_state" where
  "run_committed E cleanup s = (case run_callback E cleanup s of
       (Inr _, s) \<Rightarrow> s
     | (Inl err, s) \<Rightarrow> warn_owner E (''error during committed cleanup after lock release: '' @ err) s)"

definition committed_release :: "('o, 'c, 'w) owner_env \<Rightarrow> bool \<Rightarrow> ('o, 'c, 'w) owner_state \<Rightarrow> ('o, 'c, 'w) owner_state" where
  "committed_release E is_commit s =
     (let pending = committed s; s = s \<lparr> committed := [] \<rparr>
      in if is_commit then fold (run_committed E) pending s else s)"

definition release_committed_cleanup_callback :: "('o, 'c, 'w) owner_env \<Rightarrow> release_phase \<Rightarrow> bool \<Rightarrow> bool
    \<Rightarrow> ('o, 'c, 'w) owner_state \<Rightarrow> ('o, 'c, 'w) owner_state" where
  "release_committed_cleanup_callback E phase is_commit is_top_level s =
     (if phase \<noteq> AfterLocks \<or> \<not> is_top_level then s
      else if current_resource_owner E (owner_world s) = top_transaction_resource_owner E (owner_world s)
      then committed_release E is_commit s
      else s)"

section \<open>Suppressed cleanup\<close>

text \<open>The flag is set while the operation runs and restored afterwards, also when it unwinds.\<close>

definition without_pg_cleanup :: "(bool \<times> 'w \<Rightarrow> (string + 'a) \<times> bool \<times> 'w) \<Rightarrow> bool \<times> 'w \<Rightarrow> (string + 'a) \<times> bool \<times> 'w" where
  "without_pg_cleanup operation = (\<lambda>(suppressed, w).
     let (result, _, w) = operation (True, w) in (result, suppressed, w))"

section \<open>Removal from the list\<close>

lemma mset_swap_remove:
  assumes "i < length xs"
  shows "mset xs = add_mset (xs ! i) (mset (swap_remove i xs))"
proof -
  have xs: "xs \<noteq> []" using assms by auto
  then have "mset xs = add_mset (last xs) (mset (butlast xs))"
    by (metis append_butlast_last_id mset_append mset_single_iff add_mset_add_single mset.simps)
  moreover have "xs ! i = last xs" if "i + 1 = length xs"
    using that xs by (auto simp: last_conv_nth dest!: sym [of _ "length xs"])
  moreover have "i < length (butlast xs)" "xs ! i = butlast xs ! i"
      "add_mset (xs ! i) (mset (butlast xs) - {#xs ! i#}) = mset (butlast xs)" if "i + 1 \<noteq> length xs"
  proof -
    show "i < length (butlast xs)" "xs ! i = butlast xs ! i"
      using that assms by (auto simp: nth_butlast)
    then show "add_mset (xs ! i) (mset (butlast xs) - {#xs ! i#}) = mset (butlast xs)"
      by (metis insert_DiffM nth_mem set_mset_mset)
  qed
  ultimately show ?thesis
    by (cases "i + 1 = length xs") (simp_all add: swap_remove_def mset_update add_mset_commute)
qed

lemma nth_swap_remove: "j < i \<Longrightarrow> i < length xs \<Longrightarrow> swap_remove i xs ! j = xs ! j"
  by (simp add: swap_remove_def nth_butlast)

lemma extract_owned_partition:
  assumes "extract_owned owner i vec acc = (extracted, rest)"
    and "\<forall>j < i. j < length vec \<longrightarrow> Some (entry_owner (vec ! j)) \<noteq> owner"
  shows "mset extracted = mset acc + image_mset (\<lambda>e. (entry_id e, entry_callback e))
      (filter_mset (\<lambda>e. Some (entry_owner e) = owner) (mset vec))
    \<and> mset rest = filter_mset (\<lambda>e. Some (entry_owner e) \<noteq> owner) (mset vec)"
  using assms
proof (induction owner i vec acc rule: extract_owned.induct)
  case (1 owner i vec acc)
  consider (stop) "\<not> i < length vec" | (take) "i < length vec" "Some (entry_owner (vec ! i)) = owner"
    | (skip) "i < length vec" "Some (entry_owner (vec ! i)) \<noteq> owner" by blast
  then show ?case
  proof cases
    case stop
    then have "\<forall>e \<in> set vec. Some (entry_owner e) \<noteq> owner"
      using "1.prems"(2) stop by (metis in_set_conv_nth less_le_trans not_less)
    then have "filter_mset (\<lambda>e. Some (entry_owner e) = owner) (mset vec) = {#}"
        "filter_mset (\<lambda>e. Some (entry_owner e) \<noteq> owner) (mset vec) = mset vec"
      by (auto simp: filter_mset_eq_conv)
    moreover have "(extracted, rest) = (acc, vec)"
      using stop "1.prems"(1) by (subst (asm) extract_owned.simps) simp
    ultimately show ?thesis by simp
  next
    case take
    have "extract_owned owner i (swap_remove i vec) (acc @ [(entry_id (vec ! i), entry_callback (vec ! i))]) = (extracted, rest)"
      using take "1.prems"(1) by (subst (asm) extract_owned.simps) simp
    from "1.IH"(1) [OF take this] "1.prems"(2) take show ?thesis
      by (simp add: nth_swap_remove mset_swap_remove [OF take(1)])
  next
    case skip
    then have "extract_owned owner (i + 1) vec acc = (extracted, rest)"
      using "1.prems"(1) by (subst (asm) extract_owned.simps) simp
    from "1.IH"(2) [OF skip this] "1.prems"(2) skip show ?thesis
      by (auto simp: less_Suc_eq)
  qed
qed

text \<open>
  C30. Releasing an owner: outside backend exit, the end of an owner that is not a released
  subtransaction takes exactly the callbacks remembered for this owner off the list and runs each of
  them once; the callbacks of other owners stay remembered, whatever order the removal loop leaves
  them in, and one callback that raises an ERROR does not keep the others from running.
\<close>
theorem owner_release_runs_once:
  assumes "\<not> proc_exit_inprogress E (owner_world s)" and "is_commit \<longrightarrow> is_top_level"
    and "owner = current_resource_owner E (owner_world s)"
  shows "\<exists>runs rest. release_resource_callback E AfterLocks is_commit is_top_level s
        = fold (run_released E is_commit owner) runs (s \<lparr> owner_entries := rest \<rparr>)
    \<and> mset runs = image_mset (\<lambda>e. (entry_id e, entry_callback e))
        (filter_mset (\<lambda>e. Some (entry_owner e) = owner) (mset (owner_entries s)))
    \<and> mset rest = filter_mset (\<lambda>e. Some (entry_owner e) \<noteq> owner) (mset (owner_entries s))"
proof -
  obtain runs rest where split: "extract_owned owner 0 (owner_entries s) [] = (runs, rest)"
    by (rule prod.exhaust)
  then show ?thesis
    using assms extract_owned_partition [OF split]
    by (intro exI [of _ runs] exI [of _ rest]) (auto simp: release_resource_callback_def)
qed

section \<open>Handles\<close>

datatype 'c owner_op = OpRemember 'c | OpForget "64 word" | OpRelease release_phase bool bool

fun owner_step :: "('o, 'c, 'w) owner_env \<Rightarrow> 'c owner_op \<Rightarrow> ('o, 'c, 'w) owner_state \<Rightarrow> ('o, 'c, 'w) owner_state" where
  "owner_step E (OpRemember c) s = snd (remember_resource E c s)"
| "owner_step E (OpForget h) s = snd (forget_resource h s)"
| "owner_step E (OpRelease phase is_commit is_top_level) s = release_resource_callback E phase is_commit is_top_level s"

definition owner_start :: "'w \<Rightarrow> ('o, 'c, 'w) owner_state" where
  "owner_start w = \<lparr> owner_entries = [], next_id = 1, manager_registered = False, committed = [], owner_world = w \<rparr>"

definition handles :: "('o, 'c, 'w) owner_state \<Rightarrow> 64 word list" where
  "handles s = map entry_id (owner_entries s)"

text \<open>Callbacks that leave the list of remembered resources alone.\<close>

definition quiet_callbacks :: "('o, 'c, 'w) owner_env \<Rightarrow> bool" where
  "quiet_callbacks E \<longleftrightarrow> (\<forall>c s. owner_entries (snd (run_callback E c s)) = owner_entries s
     \<and> next_id (snd (run_callback E c s)) = next_id s)"

definition handles_ok :: "nat \<Rightarrow> ('o, 'c, 'w) owner_state \<Rightarrow> bool" where
  "handles_ok k s \<longleftrightarrow> distinct (handles s) \<and> (\<forall>h \<in> set (handles s). h < next_id s) \<and> unat (next_id s) \<le> k"

lemma position_Some: "position P xs = Some i \<Longrightarrow> i < length xs \<and> P (xs ! i)"
  by (induction xs arbitrary: i) (auto split: if_splits)

lemma position_None: "position P xs = None \<longleftrightarrow> (\<forall>x \<in> set xs. \<not> P x)"
  by (induction xs) auto

lemma forget_resource_handles:
  assumes "distinct (handles s)"
  shows "fst (forget_resource h s) = (h \<in> set (handles s))"
    and "mset (handles (snd (forget_resource h s))) = mset (handles s) - {#h#}"
    and "next_id (snd (forget_resource h s)) = next_id s"
proof -
  have "mset (map f xs) = add_mset (f (xs ! i)) (mset (map f (swap_remove i xs)))" if "i < length xs"
    for f :: "('a, 'b) resource_entry \<Rightarrow> 64 word" and xs i
    using mset_swap_remove [OF that] by (metis image_mset_add_mset mset_map)
  then show "fst (forget_resource h s) = (h \<in> set (handles s))"
      "mset (handles (snd (forget_resource h s))) = mset (handles s) - {#h#}"
      "next_id (snd (forget_resource h s)) = next_id s"
    using assms
    by (auto simp: forget_resource_def handles_def position_None dest!: position_Some split: option.splits
        intro!: diff_single_trivial [symmetric])
qed

lemma init_resource_manager_simps [simp]:
  "owner_entries (init_resource_manager E s) = owner_entries s" "next_id (init_resource_manager E s) = next_id s"
  "committed (init_resource_manager E s) = committed s"
  by (simp_all add: init_resource_manager_def)

lemma distinct_submset:
  assumes "mset ys \<subseteq># mset xs" and "distinct xs"
  shows "distinct ys"
proof -
  have "count (mset ys) a \<le> 1" for a
    using mset_subset_eq_count [OF assms(1), of a] assms(2)
    by (metis distinct_count_atmost_1 le_trans order_refl zero_le)
  then show ?thesis
    by (simp add: distinct_count_atmost_1) (metis One_nat_def count_greater_eq_one_iff le_antisym not_in_iff set_mset_mset)
qed

lemma handles_ok_sub:
  assumes "handles_ok k s" and "mset (handles t) \<subseteq># mset (handles s)" and "next_id t = next_id s"
  shows "handles_ok k t"
  using assms distinct_submset [OF assms(2)] set_mset_mono [OF assms(2)] by (auto simp: handles_ok_def)

lemma handles_ok_remember:
  assumes "handles_ok k s" and "k < 2 ^ 64 - 1"
  shows "handles_ok (Suc k) (snd (remember_resource E c s))"
proof -
  have bound: "unat (next_id s) + 1 < 2 ^ 64" using assms by (simp add: handles_ok_def)
  then have up: "unat (next_id s + 1) = unat (next_id s) + 1" by (simp add: unat_word_ariths)
  then show ?thesis
    using assms
    by (auto simp: remember_resource_def handles_ok_def handles_def Let_def word_less_nat_alt split: option.splits)
qed

lemma run_released_quiet:
  assumes "quiet_callbacks E"
  shows "owner_entries (run_released E is_commit owner r s) = owner_entries s
    \<and> next_id (run_released E is_commit owner r s) = next_id s"
proof -
  obtain i c where r: "r = (i, c)" by (rule prod.exhaust)
  define t where "t = (if is_commit then warn_owner E (''resource leak detected for resource handle '' @ show_nat (unat i)
      @ '' (owner='' @ show_owner E owner @ '')'') s else s)"
  have "owner_entries t = owner_entries s" "next_id t = next_id s" by (simp_all add: t_def warn_owner_def)
  moreover obtain res u where run: "run_callback E c t = (res, u)" by (rule prod.exhaust)
  moreover have "owner_entries (snd (run_callback E c t)) = owner_entries t" "next_id (snd (run_callback E c t)) = next_id t"
    using assms by (simp_all add: quiet_callbacks_def)
  ultimately show ?thesis
    by (cases res) (simp_all add: r run_released_def Let_def t_def [symmetric] warn_owner_def)
qed

lemma run_all_quiet:
  "quiet_callbacks E \<Longrightarrow> owner_entries (fold (run_released E is_commit owner) rs s) = owner_entries s
    \<and> next_id (fold (run_released E is_commit owner) rs s) = next_id s"
  by (induction rs arbitrary: s) (simp_all add: run_released_quiet)

lemma handles_ok_release:
  assumes "quiet_callbacks E" and "handles_ok k s"
  shows "handles_ok k (release_resource_callback E phase is_commit is_top_level s)"
proof -
  let ?owner = "current_resource_owner E (owner_world s)"
  let ?P = "\<lambda>e. Some (entry_owner e) = ?owner"
  obtain runs rest where split: "extract_owned ?owner 0 (owner_entries s) [] = (runs, rest)"
    by (rule prod.exhaust)
  then have "mset rest = filter_mset (\<lambda>e. \<not> ?P e) (mset (owner_entries s))"
    using extract_owned_partition [OF split] by simp
  then have "mset (map entry_id rest) \<subseteq># mset (map entry_id (owner_entries s))"
    by (simp add: image_mset_subseteq_mono)
  then have "handles_ok k (fold (run_released E is_commit ?owner) runs (s \<lparr> owner_entries := rest \<rparr>))"
    using run_all_quiet [OF assms(1), of is_commit ?owner runs "s \<lparr> owner_entries := rest \<rparr>"]
    by (intro handles_ok_sub [OF assms(2)]) (simp_all add: handles_def)
  moreover have "handles_ok k (s \<lparr> owner_entries := map (\<lambda>e. if ?P e then e \<lparr> entry_owner := parent \<rparr> else e) (owner_entries s) \<rparr>)"
    for parent
    by (intro handles_ok_sub [OF assms(2)]) (simp_all add: handles_def comp_def if_distrib cong: if_cong)
  ultimately show ?thesis
    using assms(2) by (simp add: release_resource_callback_def Let_def split split: option.split)
qed

lemma handles_ok_step:
  assumes "quiet_callbacks E" and "handles_ok k s" and "k < 2 ^ 64 - 1"
  shows "handles_ok (Suc k) (owner_step E op s)"
proof (cases op)
  case (OpRemember c)
  then show ?thesis using handles_ok_remember [OF assms(2,3)] by simp
next
  case (OpForget h)
  have "distinct (handles s)" using assms(2) by (simp add: handles_ok_def)
  from handles_ok_sub [OF assms(2), of "snd (forget_resource h s)"] forget_resource_handles [OF this, of h]
  show ?thesis using OpForget by (simp add: handles_ok_def)
next
  case (OpRelease phase is_commit is_top_level)
  then show ?thesis
    using handles_ok_release [OF assms(1,2), of phase is_commit is_top_level] by (simp add: handles_ok_def)
qed

lemma handles_ok_run:
  "quiet_callbacks E \<Longrightarrow> handles_ok k s \<Longrightarrow> k + length ops < 2 ^ 64 \<Longrightarrow>
    handles_ok (k + length ops) (fold (owner_step E) ops s)"
proof (induction ops arbitrary: k s)
  case (Cons op ops)
  from handles_ok_step [OF Cons.prems(1,2), of op] Cons.prems(3) have "handles_ok (Suc k) (owner_step E op s)" by simp
  from Cons.IH [OF Cons.prems(1) this] Cons.prems(3) show ?case by simp
qed simp

text \<open>
  Handles are never confused: as long as fewer than $2^{64} - 1$ operations ran, the outstanding
  handles are distinct and the next one is new; \<open>forget_resource\<close> answers whether the handle is
  outstanding, takes exactly this one off, and answers no when asked again.
\<close>
lemma handles_unique:
  assumes "quiet_callbacks E" and "length ops < 2 ^ 64 - 1" and "s = fold (owner_step E) ops (owner_start w)"
  shows "distinct (handles s) \<and> next_id s \<notin> set (handles s)
    \<and> fst (forget_resource h s) = (h \<in> set (handles s))
    \<and> mset (handles (snd (forget_resource h s))) = mset (handles s) - {#h#}
    \<and> \<not> fst (forget_resource h (snd (forget_resource h s)))"
proof -
  have "handles_ok 1 (owner_start w)" by (simp add: handles_ok_def owner_start_def handles_def)
  from handles_ok_run [OF assms(1) this, of ops] have ok: "handles_ok (1 + length ops) s"
    using assms(2,3) by simp
  then have dist: "distinct (handles s)" by (simp add: handles_ok_def)
  let ?t = "snd (forget_resource h s)"
  have m: "mset (handles ?t) = mset (handles s) - {#h#}" by (rule forget_resource_handles [OF dist])
  then have "distinct (handles ?t)" using distinct_submset [of "handles ?t" "handles s"] dist by simp
  moreover have "h \<notin> set (handles ?t)"
  proof -
    have "count (mset (handles s)) h \<le> 1" using dist by (simp add: distinct_count_atmost_1)
    then have "count (mset (handles ?t)) h = 0" by (simp add: m)
    then show ?thesis by (simp add: count_eq_zero_iff)
  qed
  ultimately show ?thesis
    using ok dist m forget_resource_handles(1) by (auto simp: handles_ok_def)
qed

section \<open>An example\<close>

text \<open>Owners are numbers, a callback appends its name to the log.\<close>

definition demo_owners :: "(nat, string, string list) owner_env" where
  "demo_owners = \<lparr> current_resource_owner = \<lambda>_. Some 1, top_transaction_resource_owner = \<lambda>_. Some 0,
     resource_owner_parent = \<lambda>i _. if i = 0 then None else Some (i - 1), proc_exit_inprogress = \<lambda>_. False,
     register_release_callback = \<lambda>_ w. w,
     run_callback = \<lambda>c s. (Inr (), s \<lparr> owner_world := owner_world s @ [c] \<rparr>),
     owner_warning = \<lambda>_ w. w, show_owner = \<lambda>_. ''owner'' \<rparr>"

definition demo_entry :: "64 word \<Rightarrow> nat \<Rightarrow> string \<Rightarrow> (nat, string) resource_entry" where
  "demo_entry i owner c = \<lparr> entry_id = i, entry_owner = owner, entry_callback = c \<rparr>"

definition demo_owner_state :: "(nat, string, string list) owner_state" where
  "demo_owner_state = \<lparr> owner_entries = [demo_entry 1 1 ''a'', demo_entry 2 0 ''b'', demo_entry 3 1 ''c''],
     next_id = 4, manager_registered = True, committed = [], owner_world = [] \<rparr>"

theorem owner_release_runs_once_witness:
  "\<exists>runs rest. release_resource_callback demo_owners AfterLocks False True demo_owner_state
        = fold (run_released demo_owners False (Some 1)) runs (demo_owner_state \<lparr> owner_entries := rest \<rparr>)
    \<and> mset runs = {#(1, ''a''), (3, ''c'')#} \<and> mset rest = {#demo_entry 2 0 ''b''#}"
  using owner_release_runs_once [of demo_owners demo_owner_state False True "Some 1"]
  by (simp add: demo_owners_def demo_owner_state_def demo_entry_def)

end
