(* ===== verification/Pending_Cleanup.thy ===== *)
theory Pending_Cleanup
  imports Tx_Callbacks Owner_Resources Local_Files
begin

text \<open>
  Deletion bound to the outcome of a transaction: the pending deletes of
  \<open>lagodb-core/src/transaction/cleanup.rs\<close>, the retirement of local table directories
  (\<open>storage/local_retirement.rs\<close>, \<open>local_retirement/transaction.rs\<close>) and the batched deletion of
  files after commit (\<open>storage/post_commit_delete.rs\<close>).

  Both are transaction resources (\<open>Tx_Callbacks\<close>) that hand their work to the committed cleanup of
  \<open>Owner_Resources\<close> when the top-level transaction commits. A pending delete is an action \<open>'p\<close>; what it
  does and when it is due are parameters, as are the file storage \<open>'io\<close> and the flush of the log.
\<close>

section \<open>Actions and state\<close>

datatype cleanup_timing = OnCommit | OnAbort

record ('p, 'w) pending_delete =
  pd_execute :: "'p \<Rightarrow> 'w \<Rightarrow> (string + unit) \<times> 'w"
  pd_timing :: "'p \<Rightarrow> cleanup_timing"

record 'p pending_delete_resource =
  pd_inner :: "'p option"
  pd_resource_timing :: cleanup_timing
  pd_nest_level :: nest_level

record 'io local_table_retirement =
  retired_directory :: string
  retired_file_io :: 'io
  retired_needs_wal :: bool

type_synonym 'io tracked_retirement = "nest_level \<times> 'io local_table_retirement"

datatype ('p, 'io) cleanup_action = ExecutePending 'p | ExecuteRetirements "'io tracked_retirement list"

text \<open>
  The backend-local state: the objects behind the handles of pending deletes, the slot \<open>CURRENT\<close> of
  the retirements, the owner state with its queue, and whether a callback panicked.
\<close>

record ('o, 'p, 'io, 'w) cleanup_world =
  pending_objects :: "'p pending_delete_resource list"
  retirements :: "'io tracked_retirement list option"
  cw_owner :: "('o, ('p, 'io) cleanup_action, 'w) owner_state"
  panicked :: "string option"

datatype cleanup_handle = PendingHandle nat | RetirementHandle

type_synonym ('o, 'p, 'io, 'w) cleanup_backend = "(cleanup_handle, ('o, 'p, 'io, 'w) cleanup_world) backend"

record ('o, 'p, 'io, 'lsn, 'w) cleanup_env =
  ce_owners :: "('o, ('p, 'io) cleanup_action, 'w) owner_env"
  ce_pending :: "('p, 'w) pending_delete"
  ce_wal :: "('lsn, 'w) wal_env"
  ce_order :: byte_order
  ce_flush_wal :: "'lsn \<Rightarrow> 'w \<Rightarrow> 'w"
  io_local_storage :: "'io \<Rightarrow> local_storage option"
  io_delete :: "'io \<Rightarrow> string \<Rightarrow> 'w \<Rightarrow> (string + unit) \<times> 'w"
  io_remove_dir_all :: "'io \<Rightarrow> string \<Rightarrow> 'w \<Rightarrow> (string + unit) \<times> 'w"
  ce_warning :: "string \<Rightarrow> 'w \<Rightarrow> 'w"

section \<open>Retirement of local directories\<close>

definition log_delete_wal :: "('o, 'p, 'io, 'lsn, 'w) cleanup_env \<Rightarrow> 'io local_table_retirement \<Rightarrow> 'w \<Rightarrow> 'lsn option \<times> 'w" where
  "log_delete_wal X r w =
     (if \<not> retired_needs_wal r then (None, w)
      else let (lsn, w) = log_delete_directory (ce_wal X) (ce_order X) (retired_directory r) w in (Some lsn, w))"

definition delete_storage :: "('o, 'p, 'io, 'lsn, 'w) cleanup_env \<Rightarrow> 'io local_table_retirement \<Rightarrow> 'w \<Rightarrow> 'w" where
  "delete_storage X r w = (case io_remove_dir_all X (retired_file_io r) (retired_directory r) w of
       (Inr _, w) \<Rightarrow> w
     | (Inl error, w) \<Rightarrow> ce_warning X (''failed to delete retired table directory '' @ quoted (retired_directory r)
                            @ '': '' @ error) w)"

fun log_retirements :: "('o, 'p, 'io, 'lsn, 'w) cleanup_env \<Rightarrow> 'io tracked_retirement list \<Rightarrow> 'lsn option \<Rightarrow> 'w
    \<Rightarrow> 'lsn option \<times> 'w" where
  "log_retirements X [] last_lsn w = (last_lsn, w)"
| "log_retirements X ((level, r) # rs) last_lsn w =
     (let (lsn, w) = log_delete_wal X r w
      in log_retirements X rs (case lsn of Some _ \<Rightarrow> lsn | None \<Rightarrow> last_lsn) w)"

definition retirement_batch_execute :: "('o, 'p, 'io, 'lsn, 'w) cleanup_env \<Rightarrow> 'io tracked_retirement list \<Rightarrow> 'w \<Rightarrow> 'w" where
  "retirement_batch_execute X entries w =
     (let (last_lsn, w) = log_retirements X entries None w;
          w = (case last_lsn of Some lsn \<Rightarrow> ce_flush_wal X lsn w | None \<Rightarrow> w)
      in fold (\<lambda>(level, r). delete_storage X r) entries w)"

text \<open>What a deferred action does when the committed cleanup runs it.\<close>

definition run_cleanup_action :: "('o, 'p, 'io, 'lsn, 'w) cleanup_env \<Rightarrow> ('p, 'io) cleanup_action
    \<Rightarrow> ('o, ('p, 'io) cleanup_action, 'w) owner_state
    \<Rightarrow> (string + unit) \<times> ('o, ('p, 'io) cleanup_action, 'w) owner_state" where
  "run_cleanup_action X a s = (case a of
       ExecutePending p \<Rightarrow> (let (r, w) = pd_execute (ce_pending X) p (owner_world s) in (r, s \<lparr> owner_world := w \<rparr>))
     | ExecuteRetirements entries \<Rightarrow>
         (Inr (), s \<lparr> owner_world := retirement_batch_execute X entries (owner_world s) \<rparr>))"

definition cleanup_owners :: "('o, 'p, 'io, 'lsn, 'w) cleanup_env \<Rightarrow> ('o, ('p, 'io) cleanup_action, 'w) owner_env" where
  "cleanup_owners X = (ce_owners X) \<lparr> run_callback := run_cleanup_action X \<rparr>"

section \<open>Registration\<close>

definition register_pending_delete :: "('o, 'p, 'io, 'lsn, 'w) cleanup_env \<Rightarrow> ('o, 'p, 'io, 'w) cleanup_world postgres
    \<Rightarrow> nest_level \<Rightarrow> 'p \<Rightarrow> ('o, 'p, 'io, 'w) cleanup_backend \<Rightarrow> ('o, 'p, 'io, 'w) cleanup_backend" where
  "register_pending_delete X P n entry s =
     (let i = length (pending_objects (outside s));
          resource = \<lparr> pd_inner = Some entry, pd_resource_timing = pd_timing (ce_pending X) entry, pd_nest_level = n \<rparr>
      in register_resource P (PendingHandle i)
           (s \<lparr> outside := (outside s) \<lparr> pending_objects := pending_objects (outside s) @ [resource] \<rparr> \<rparr>))"

definition retirements_register :: "('o, 'p, 'io, 'w) cleanup_world postgres \<Rightarrow> nest_level \<Rightarrow> 'io local_table_retirement
    \<Rightarrow> ('o, 'p, 'io, 'w) cleanup_backend \<Rightarrow> ('o, 'p, 'io, 'w) cleanup_backend" where
  "retirements_register P n retirement s =
     (let s = (case retirements (outside s) of
            Some _ \<Rightarrow> s
          | None \<Rightarrow> (let s = register_resource P RetirementHandle s
                      in s \<lparr> outside := (outside s) \<lparr> retirements := Some [] \<rparr> \<rparr>))
      in s \<lparr> outside := (outside s) \<lparr> retirements := map_option (\<lambda>es. es @ [(n, retirement)]) (retirements (outside s)) \<rparr> \<rparr>)"

definition register_retirement :: "('o, 'p, 'io, 'lsn, 'w) cleanup_env \<Rightarrow> ('o, 'p, 'io, 'w) cleanup_world postgres
    \<Rightarrow> nest_level \<Rightarrow> string \<Rightarrow> 'io \<Rightarrow> ('o, 'p, 'io, 'w) cleanup_backend
    \<Rightarrow> unit iceberg_result \<times> ('o, 'p, 'io, 'w) cleanup_backend" where
  "register_retirement X P n directory file_io s = (case io_local_storage X file_io of
       None \<Rightarrow> (Inl (InvariantViolated ''remote storage passed to local table-root cleanup''), s)
     | Some storage \<Rightarrow> (Inr (), retirements_register P n
           \<lparr> retired_directory = directory, retired_file_io = file_io, retired_needs_wal = ls_needs_wal storage \<rparr> s))"

section \<open>Callbacks of a pending delete\<close>

definition should_run_on :: "cleanup_timing \<Rightarrow> 'p pending_delete_resource \<Rightarrow> bool" where
  "should_run_on timing r \<longleftrightarrow> pd_resource_timing r = timing"

definition pending_on_commit :: "('o, 'p, 'io, 'lsn, 'w) cleanup_env \<Rightarrow> nat \<Rightarrow> ('o, 'p, 'io, 'w) cleanup_world
    \<Rightarrow> ('o, 'p, 'io, 'w) cleanup_world" where
  "pending_on_commit X i cw =
     (let r = pending_objects cw ! i in
      if should_run_on OnCommit r
      then (case pd_inner r of
          None \<Rightarrow> cw \<lparr> panicked := Some ''pending delete is consumed once at its transaction outcome'' \<rparr>
        | Some pending \<Rightarrow> cw \<lparr> pending_objects := (pending_objects cw)[i := r \<lparr> pd_inner := None \<rparr>],
              cw_owner := committed_defer (cleanup_owners X) (ExecutePending pending) (cw_owner cw) \<rparr>)
      else cw)"

text \<open>Deletes that are due at an abort report their failures themselves.\<close>

definition execute_abort :: "('o, 'p, 'io, 'lsn, 'w) cleanup_env \<Rightarrow> nat \<Rightarrow> ('o, 'p, 'io, 'w) cleanup_world
    \<Rightarrow> ('o, 'p, 'io, 'w) cleanup_world" where
  "execute_abort X i cw = (case pd_inner (pending_objects cw ! i) of
       None \<Rightarrow> cw \<lparr> panicked := Some ''abort cleanup retains its pending delete'' \<rparr>
     | Some pending \<Rightarrow> cw \<lparr> cw_owner := (cw_owner cw) \<lparr> owner_world :=
           snd (pd_execute (ce_pending X) pending (owner_world (cw_owner cw))) \<rparr> \<rparr>)"

definition pending_on_abort :: "('o, 'p, 'io, 'lsn, 'w) cleanup_env \<Rightarrow> nat \<Rightarrow> ('o, 'p, 'io, 'w) cleanup_world
    \<Rightarrow> ('o, 'p, 'io, 'w) cleanup_world" where
  "pending_on_abort X i cw = (if should_run_on OnAbort (pending_objects cw ! i) then execute_abort X i cw else cw)"

definition pending_on_abort_sub :: "('o, 'p, 'io, 'lsn, 'w) cleanup_env \<Rightarrow> nat \<Rightarrow> nest_level
    \<Rightarrow> ('o, 'p, 'io, 'w) cleanup_world \<Rightarrow> ('o, 'p, 'io, 'w) cleanup_world" where
  "pending_on_abort_sub X i n cw =
     (if n \<le> pd_nest_level (pending_objects cw ! i) \<and> should_run_on OnAbort (pending_objects cw ! i)
      then execute_abort X i cw else cw)"

definition no_prepare :: string where
  "no_prepare = ''cannot prepare a transaction with pending external-object cleanup''"

section \<open>Callbacks of the retirements\<close>

definition retirements_on_commit :: "('o, 'p, 'io, 'lsn, 'w) cleanup_env \<Rightarrow> ('o, 'p, 'io, 'w) cleanup_world
    \<Rightarrow> ('o, 'p, 'io, 'w) cleanup_world" where
  "retirements_on_commit X cw =
     (let entries = (case retirements cw of Some es \<Rightarrow> es | None \<Rightarrow> []);
          cw = cw \<lparr> retirements := None \<rparr>
      in if entries \<noteq> []
         then cw \<lparr> cw_owner := committed_defer (cleanup_owners X) (ExecuteRetirements entries) (cw_owner cw) \<rparr>
         else cw)"

definition retirements_on_abort :: "('o, 'p, 'io, 'w) cleanup_world \<Rightarrow> ('o, 'p, 'io, 'w) cleanup_world" where
  "retirements_on_abort cw = cw \<lparr> retirements := None \<rparr>"

definition retirements_on_prepare :: "('o, 'p, 'io, 'w) cleanup_world \<Rightarrow> ('o, 'p, 'io, 'w) cleanup_world" where
  "retirements_on_prepare cw = cw \<lparr> retirements := None \<rparr>"

definition retirements_on_pre_prepare :: "('o, 'p, 'io, 'w) cleanup_world \<Rightarrow> string + unit" where
  "retirements_on_pre_prepare cw = (case retirements cw of
       Some es \<Rightarrow> if es = [] then Inr () else Inl no_prepare
     | None \<Rightarrow> Inr ())"

definition retirements_on_commit_sub :: "nest_level \<Rightarrow> ('o, 'p, 'io, 'w) cleanup_world \<Rightarrow> ('o, 'p, 'io, 'w) cleanup_world" where
  "retirements_on_commit_sub n cw =
     cw \<lparr> retirements := map_option (map (\<lambda>(level, r). (if n \<le> level then n - 1 else level, r))) (retirements cw) \<rparr>"

definition retirements_on_abort_sub :: "nest_level \<Rightarrow> ('o, 'p, 'io, 'w) cleanup_world \<Rightarrow> ('o, 'p, 'io, 'w) cleanup_world" where
  "retirements_on_abort_sub n cw =
     cw \<lparr> retirements := map_option (filter (\<lambda>(level, r). level < n)) (retirements cw) \<rparr>"

section \<open>The resources as PostgreSQL's events reach them\<close>

definition on_outside :: "('a \<Rightarrow> 'a) \<Rightarrow> ('r, 'a) backend \<Rightarrow> ('r, 'a) backend" where
  "on_outside f s = s \<lparr> outside := f (outside s) \<rparr>"

definition cleanup_resource :: "('o, 'p, 'io, 'lsn, 'w) cleanup_env
    \<Rightarrow> (cleanup_handle, ('o, 'p, 'io, 'w) cleanup_world) transaction_resource" where
  "cleanup_resource X = \<lparr>
     res_on_commit = \<lambda>h. on_outside (case h of PendingHandle i \<Rightarrow> pending_on_commit X i | RetirementHandle \<Rightarrow> retirements_on_commit X),
     res_on_abort = \<lambda>h. on_outside (case h of PendingHandle i \<Rightarrow> pending_on_abort X i | RetirementHandle \<Rightarrow> retirements_on_abort),
     res_on_pre_commit = \<lambda>h s. (Inr (), s),
     res_on_pre_prepare = \<lambda>h s. (case h of PendingHandle i \<Rightarrow> Inl no_prepare
        | RetirementHandle \<Rightarrow> retirements_on_pre_prepare (outside s), s),
     res_on_prepare = \<lambda>h. on_outside (case h of PendingHandle i \<Rightarrow> (\<lambda>cw. cw) | RetirementHandle \<Rightarrow> retirements_on_prepare),
     res_on_commit_sub = \<lambda>h n. on_outside (case h of PendingHandle i \<Rightarrow> (\<lambda>cw. cw) | RetirementHandle \<Rightarrow> retirements_on_commit_sub n),
     res_on_abort_sub = \<lambda>h n. on_outside (case h of PendingHandle i \<Rightarrow> pending_on_abort_sub X i n
        | RetirementHandle \<Rightarrow> retirements_on_abort_sub n),
     res_nest_level = \<lambda>h s. (case h of PendingHandle i \<Rightarrow> pd_nest_level (pending_objects (outside s) ! i) | RetirementHandle \<Rightarrow> 1),
     res_set_nest_level = \<lambda>h n. on_outside (case h of
        PendingHandle i \<Rightarrow> (\<lambda>cw. cw \<lparr> pending_objects := (pending_objects cw)[i := (pending_objects cw ! i) \<lparr> pd_nest_level := n \<rparr>] \<rparr>)
      | RetirementHandle \<Rightarrow> (\<lambda>cw. cw)) \<rparr>"

section \<open>Batched deletion after commit\<close>

datatype post_commit_delete_purpose = Vacuum | CanceledCreatedFiles

definition purpose_description :: "post_commit_delete_purpose \<Rightarrow> string" where
  "purpose_description p = (case p of Vacuum \<Rightarrow> ''Iceberg VACUUM cleanup''
     | CanceledCreatedFiles \<Rightarrow> ''Iceberg transaction-created file cleanup'')"

definition max_delete_failure_warnings :: nat where "max_delete_failure_warnings = 8"
definition max_delete_path_warning_chars :: nat where "max_delete_path_warning_chars = 512"

record 'io post_commit_file_delete_batch =
  batch_file_io :: 'io
  batch_paths :: "string list"
  batch_needs_wal :: bool
  batch_purpose :: post_commit_delete_purpose

text \<open>The batch to register, if any path is given.\<close>

definition post_commit_batch :: "('o, 'p, 'io, 'lsn, 'w) cleanup_env \<Rightarrow> 'io \<Rightarrow> string list \<Rightarrow> post_commit_delete_purpose
    \<Rightarrow> 'io post_commit_file_delete_batch option" where
  "post_commit_batch X file_io paths purpose =
     (if paths = [] then None
      else Some \<lparr> batch_file_io = file_io, batch_paths = paths,
        batch_needs_wal = (case io_local_storage X file_io of Some storage \<Rightarrow> ls_needs_wal storage | None \<Rightarrow> False),
        batch_purpose = purpose \<rparr>)"

definition log_local_delete_wal :: "('o, 'p, 'io, 'lsn, 'w) cleanup_env \<Rightarrow> 'io post_commit_file_delete_batch \<Rightarrow> 'w \<Rightarrow> 'w" where
  "log_local_delete_wal X b w =
     (if \<not> batch_needs_wal b then w
      else let unrepresentable = length (filter (\<lambda>p. \<not> delete_file_fits_wal p) (batch_paths b));
               (last_lsn, w) = log_delete_files (ce_wal X) (ce_order X) (filter delete_file_fits_wal (batch_paths b)) w;
               w = (case last_lsn of Some lsn \<Rightarrow> ce_flush_wal X lsn w | None \<Rightarrow> w)
           in if 0 < unrepresentable
              then ce_warning X (''post-commit '' @ purpose_description (batch_purpose b) @ '' has '' @ show_nat unrepresentable
                     @ '' path(s) that cannot be represented in DELETE_FILES WAL; primary deletion will still be attempted'') w
              else w)"

text \<open>The first characters of a path, as formatting with a precision cuts it.\<close>

fun take_chars :: "nat \<Rightarrow> string \<Rightarrow> string" where
  "take_chars n [] = []"
| "take_chars n (c # cs) =
     (if 128 \<le> (of_char c :: nat) \<and> (of_char c :: nat) < 192 then c # take_chars n cs
      else if n = 0 then [] else c # take_chars (n - 1) cs)"

definition warn_failed_delete :: "('o, 'p, 'io, 'lsn, 'w) cleanup_env \<Rightarrow> 'io post_commit_file_delete_batch \<Rightarrow> string \<Rightarrow> string
    \<Rightarrow> 'w \<Rightarrow> 'w" where
  "warn_failed_delete X b path error =
     ce_warning X (if CHR 0x00 \<in> set path
       then ''post-commit '' @ purpose_description (batch_purpose b) @ '' could not delete a path containing NUL (path_bytes=''
              @ show_nat (length path) @ ''): '' @ error
       else ''post-commit '' @ purpose_description (batch_purpose b) @ '' could not delete ''
              @ quoted (take_chars max_delete_path_warning_chars path) @ '' (path_bytes='' @ show_nat (length path) @ ''): '' @ error)"

fun delete_paths :: "('o, 'p, 'io, 'lsn, 'w) cleanup_env \<Rightarrow> 'io post_commit_file_delete_batch \<Rightarrow> string list \<Rightarrow> nat \<Rightarrow> 'w
    \<Rightarrow> nat \<times> 'w" where
  "delete_paths X b [] failed w = (failed, w)"
| "delete_paths X b (path # paths) failed w = (case io_delete X (batch_file_io b) path w of
       (Inr _, w) \<Rightarrow> delete_paths X b paths failed w
     | (Inl error, w) \<Rightarrow> delete_paths X b paths (failed + 1)
         (if failed + 1 \<le> max_delete_failure_warnings then warn_failed_delete X b path error w else w))"

definition batch_delete_all :: "('o, 'p, 'io, 'lsn, 'w) cleanup_env \<Rightarrow> 'io post_commit_file_delete_batch \<Rightarrow> 'w \<Rightarrow> 'w" where
  "batch_delete_all X b w =
     (let (failed, w) = delete_paths X b (batch_paths b) 0 w in
      if 0 < failed
      then ce_warning X (''post-commit '' @ purpose_description (batch_purpose b) @ '' completed with deletion failures: total=''
             @ show_nat (length (batch_paths b)) @ '', succeeded='' @ show_nat (length (batch_paths b) - failed)
             @ '', failed='' @ show_nat failed @ '', suppressed_failure_warnings=''
             @ show_nat (failed - max_delete_failure_warnings)) w
      else w)"

definition post_commit_execute :: "('o, 'p, 'io, 'lsn, 'w) cleanup_env \<Rightarrow> 'io post_commit_file_delete_batch \<Rightarrow> 'w \<Rightarrow> 'w" where
  "post_commit_execute X b w = batch_delete_all X b (log_local_delete_wal X b w)"

definition batch_pending :: "('o, 'p, 'io, 'lsn, 'w) cleanup_env \<Rightarrow> ('io post_commit_file_delete_batch, 'w) pending_delete" where
  "batch_pending X = \<lparr> pd_execute = \<lambda>b w. (Inr (), post_commit_execute X b w), pd_timing = \<lambda>_. OnCommit \<rparr>"

definition register_post_commit :: "('o, 'io post_commit_file_delete_batch, 'io, 'lsn, 'w) cleanup_env
    \<Rightarrow> ('o, 'io post_commit_file_delete_batch, 'io, 'w) cleanup_world postgres \<Rightarrow> nest_level \<Rightarrow> 'io \<Rightarrow> string list
    \<Rightarrow> post_commit_delete_purpose \<Rightarrow> ('o, 'io post_commit_file_delete_batch, 'io, 'w) cleanup_backend
    \<Rightarrow> ('o, 'io post_commit_file_delete_batch, 'io, 'w) cleanup_backend" where
  "register_post_commit X P n file_io paths purpose s = (case post_commit_batch X file_io paths purpose of
       None \<Rightarrow> s
     | Some b \<Rightarrow> register_pending_delete X P n b s)"

section \<open>Programs and their reference outcome\<close>

datatype ('p, 'io) cleanup_op = RegisterPending 'p | RegisterRetirement string 'io

fun cleanup_step :: "('o, 'p, 'io, 'lsn, 'w) cleanup_env \<Rightarrow> ('o, 'p, 'io, 'w) cleanup_world postgres \<Rightarrow> nest_level
    \<Rightarrow> ('p, 'io) cleanup_op \<Rightarrow> ('o, 'p, 'io, 'w) cleanup_backend \<Rightarrow> ('o, 'p, 'io, 'w) cleanup_backend" where
  "cleanup_step X P n (RegisterPending p) s = register_pending_delete X P n p s"
| "cleanup_step X P n (RegisterRetirement directory file_io) s = snd (register_retirement X P n directory file_io s)"

definition cleanup_start :: "'w \<Rightarrow> ('o, 'p, 'io, 'w) cleanup_backend" where
  "cleanup_start w = \<lparr> resources = [], callback_registered = False,
     outside = \<lparr> pending_objects = [], retirements = None, cw_owner = owner_start w, panicked = None \<rparr> \<rparr>"

definition cleanup_run :: "('o, 'p, 'io, 'lsn, 'w) cleanup_env \<Rightarrow> ('o, 'p, 'io, 'w) cleanup_world postgres
    \<Rightarrow> ('p, 'io) cleanup_op tx_prog list \<Rightarrow> ('o, 'p, 'io, 'w) cleanup_backend \<Rightarrow> ('o, 'p, 'io, 'w) cleanup_backend" where
  "cleanup_run X P ps s = tx_execs (cleanup_step X P)
     (\<lambda>n. subxact_callback (cleanup_resource X) n SubxactCommit)
     (\<lambda>n. subxact_callback (cleanup_resource X) n SubxactAbort) 1 ps s"

text \<open>
  What should become of the pending deletes of a program: those of subtransactions that were not
  rolled back, in order, and those that ran because their subtransaction was rolled back.
\<close>

fun delete_outcome :: "('p \<Rightarrow> cleanup_timing) \<Rightarrow> ('p, 'io) cleanup_op tx_prog \<Rightarrow> 'p list \<times> 'p list"
  and delete_outcomes :: "('p \<Rightarrow> cleanup_timing) \<Rightarrow> ('p, 'io) cleanup_op tx_prog list \<Rightarrow> 'p list \<times> 'p list" where
  "delete_outcome due (TxOp x) = ((case x of RegisterPending p \<Rightarrow> [p] | RegisterRetirement _ _ \<Rightarrow> []), [])"
| "delete_outcome due (TxSub ps commits) = (let (live, gone) = delete_outcomes due ps in
     if commits then (live, gone) else ([], gone @ filter (\<lambda>p. due p = OnAbort) live))"
| "delete_outcomes due [] = ([], [])"
| "delete_outcomes due (p # ps) = (let (live, gone) = delete_outcome due p; (lives, gones) = delete_outcomes due ps
     in (live @ lives, gone @ gones))"

fun retired_by :: "('o, 'p, 'io, 'lsn, 'w) cleanup_env \<Rightarrow> ('p, 'io) cleanup_op \<Rightarrow> 'io local_table_retirement list" where
  "retired_by X (RegisterPending p) = []"
| "retired_by X (RegisterRetirement directory file_io) = (case io_local_storage X file_io of
       None \<Rightarrow> []
     | Some storage \<Rightarrow> [\<lparr> retired_directory = directory, retired_file_io = file_io, retired_needs_wal = ls_needs_wal storage \<rparr>])"

text \<open>PostgreSQL's own lists of registered callbacks are not part of the observed world.\<close>

definition quiet_registration :: "('o, 'p, 'io, 'lsn, 'w) cleanup_env \<Rightarrow> ('o, 'p, 'io, 'w) cleanup_world postgres \<Rightarrow> bool" where
  "quiet_registration X P \<longleftrightarrow> (\<forall>cw. register_xact_callbacks P cw = cw)
     \<and> (\<forall>c w. register_release_callback (ce_owners X) c w = w)"

section \<open>What the handles stand for\<close>

definition pending_indices :: "cleanup_handle list \<Rightarrow> nat list" where
  "pending_indices hs = concat (map (\<lambda>h. case h of PendingHandle i \<Rightarrow> [i] | RetirementHandle \<Rightarrow> []) hs)"

definition live_deletes :: "('o, 'p, 'io, 'w) cleanup_backend \<Rightarrow> (nest_level \<times> 'p) list" where
  "live_deletes s = map (\<lambda>i. (pd_nest_level (pending_objects (outside s) ! i), the (pd_inner (pending_objects (outside s) ! i))))
     (pending_indices (resources s))"

definition tracked_retirements :: "('o, 'p, 'io, 'w) cleanup_backend \<Rightarrow> 'io tracked_retirement list" where
  "tracked_retirements s = (case retirements (outside s) of Some es \<Rightarrow> es | None \<Rightarrow> [])"

definition cleanup_ok :: "('o, 'p, 'io, 'lsn, 'w) cleanup_env \<Rightarrow> ('o, 'p, 'io, 'w) cleanup_backend \<Rightarrow> bool" where
  "cleanup_ok X s \<longleftrightarrow> distinct (resources s) \<and> panicked (outside s) = None
     \<and> (RetirementHandle \<in> set (resources s) \<longleftrightarrow> retirements (outside s) \<noteq> None)
     \<and> (\<forall>i \<in> set (pending_indices (resources s)). i < length (pending_objects (outside s))
         \<and> (\<exists>p. pd_inner (pending_objects (outside s) ! i) = Some p
              \<and> pd_resource_timing (pending_objects (outside s) ! i) = pd_timing (ce_pending X) p))"

definition run_deletes :: "('o, 'p, 'io, 'lsn, 'w) cleanup_env \<Rightarrow> 'p list \<Rightarrow> 'w \<Rightarrow> 'w" where
  "run_deletes X = fold (\<lambda>p w. snd (pd_execute (ce_pending X) p w))"

abbreviation cleanup_queue :: "('o, 'p, 'io, 'w) cleanup_backend \<Rightarrow> ('p, 'io) cleanup_action list" where
  "cleanup_queue s \<equiv> committed (cw_owner (outside s))"

abbreviation storage_world :: "('o, 'p, 'io, 'w) cleanup_backend \<Rightarrow> 'w" where
  "storage_world s \<equiv> owner_world (cw_owner (outside s))"

lemma pending_indices_simps [simp]:
  "pending_indices [] = []" "pending_indices (PendingHandle i # hs) = i # pending_indices hs"
  "pending_indices (RetirementHandle # hs) = pending_indices hs"
  "pending_indices (hs @ hs') = pending_indices hs @ pending_indices hs'"
  by (simp_all add: pending_indices_def)

lemma pending_indices_iff [simp]: "i \<in> set (pending_indices hs) \<longleftrightarrow> PendingHandle i \<in> set hs"
  by (auto simp: pending_indices_def split: cleanup_handle.splits)

lemma cleanup_step_pending:
  assumes "quiet_registration X P" and "cleanup_ok X s"
  shows "cleanup_ok X (register_pending_delete X P n p s)"
    and "live_deletes (register_pending_delete X P n p s) = live_deletes s @ [(n, p)]"
    and "tracked_retirements (register_pending_delete X P n p s) = tracked_retirements s"
    and "cw_owner (outside (register_pending_delete X P n p s)) = cw_owner (outside s)"
proof -
  let ?t = "register_pending_delete X P n p s"
  have out: "outside ?t = (outside s) \<lparr> pending_objects := pending_objects (outside s)
        @ [\<lparr> pd_inner = Some p, pd_resource_timing = pd_timing (ce_pending X) p, pd_nest_level = n \<rparr>] \<rparr>"
      and res: "resources ?t = resources s @ [PendingHandle (length (pending_objects (outside s)))]"
    using assms(1)
    by (simp_all add: register_pending_delete_def register_resource_def init_callbacks_def quiet_registration_def Let_def)
  have "PendingHandle (length (pending_objects (outside s))) \<notin> set (resources s)"
    using assms(2) by (auto simp: cleanup_ok_def)
  then show "cleanup_ok X ?t" "live_deletes ?t = live_deletes s @ [(n, p)]"
      "tracked_retirements ?t = tracked_retirements s" "cw_owner (outside ?t) = cw_owner (outside s)"
    using assms(2) by (auto simp: cleanup_ok_def live_deletes_def tracked_retirements_def out res nth_append)
qed

lemma cleanup_step_retirement:
  assumes "quiet_registration X P" and "cleanup_ok X s"
  shows "cleanup_ok X (cleanup_step X P n (RegisterRetirement directory io) s)"
    and "live_deletes (cleanup_step X P n (RegisterRetirement directory io) s) = live_deletes s"
    and "tracked_retirements (cleanup_step X P n (RegisterRetirement directory io) s)
      = tracked_retirements s @ map (Pair n) (retired_by X (RegisterRetirement directory io))"
    and "cw_owner (outside (cleanup_step X P n (RegisterRetirement directory io) s)) = cw_owner (outside s)"
  using assms
  by (auto simp: cleanup_ok_def live_deletes_def tracked_retirements_def register_retirement_def retirements_register_def
      register_resource_def init_callbacks_def quiet_registration_def Let_def split: option.splits)
section \<open>Ends of subtransactions\<close>

definition lower_object :: "nest_level \<Rightarrow> 'p pending_delete_resource \<Rightarrow> 'p pending_delete_resource" where
  "lower_object n r = (if n \<le> pd_nest_level r then r \<lparr> pd_nest_level := n - 1 \<rparr> else r)"

lemma lower_object_simps [simp]:
  "pd_inner (lower_object n r) = pd_inner r" "pd_resource_timing (lower_object n r) = pd_resource_timing r"
  "pd_nest_level (lower_object n r) = (if n \<le> pd_nest_level r then n - 1 else pd_nest_level r)"
  "lower_object n (lower_object n r) = lower_object n r"
  by (simp_all add: lower_object_def)

lemma release_one_pending:
  "release_one (cleanup_resource X) n (PendingHandle i) s =
     on_outside (\<lambda>cw. cw \<lparr> pending_objects := (pending_objects cw)[i := lower_object n (pending_objects cw ! i)] \<rparr>) s"
  by (simp add: release_one_def cleanup_resource_def on_outside_def lower_object_def)

lemma release_one_retirement:
  "1 < n \<Longrightarrow> release_one (cleanup_resource X) n RetirementHandle s = on_outside (retirements_on_commit_sub n) s"
  by (simp add: release_one_def cleanup_resource_def on_outside_def)

lemma retirements_commit_sub_lower:
  "retirements_on_commit_sub n cw = cw \<lparr> retirements := map_option (lower_levels n) (retirements cw) \<rparr>"
  by (simp add: retirements_on_commit_sub_def lower_levels_def [abs_def])

lemma lower_levels_idem: "lower_levels n (lower_levels n es) = lower_levels n es"
  by (auto simp: lower_levels_def)

lemma nth_update_at: "j < length xs \<Longrightarrow> xs[i := x] ! j = (if i = j then x else xs ! j)"
  by (cases "i = j") simp_all

lemma release_all:
  assumes "1 < n" and "t = fold (release_one (cleanup_resource X) n) hs s"
  shows "resources t = resources s \<and> cw_owner (outside t) = cw_owner (outside s) \<and> panicked (outside t) = panicked (outside s)
    \<and> length (pending_objects (outside t)) = length (pending_objects (outside s))
    \<and> (\<forall>i < length (pending_objects (outside s)). pending_objects (outside t) ! i =
          (if PendingHandle i \<in> set hs then lower_object n (pending_objects (outside s) ! i) else pending_objects (outside s) ! i))
    \<and> retirements (outside t) = (if RetirementHandle \<in> set hs then map_option (lower_levels n) (retirements (outside s))
          else retirements (outside s))"
  using assms(2)
proof (induction hs arbitrary: s)
  case (Cons h hs)
  show ?case
  proof (cases h)
    case (PendingHandle i)
    then have "t = fold (release_one (cleanup_resource X) n) hs (on_outside (\<lambda>cw. cw \<lparr> pending_objects :=
        (pending_objects cw)[i := lower_object n (pending_objects cw ! i)] \<rparr>) s)"
      using Cons.prems by (simp add: release_one_pending)
    from Cons.IH [OF this] show ?thesis
      by (auto simp: PendingHandle on_outside_def nth_update_at)
  next
    case RetirementHandle
    then have "t = fold (release_one (cleanup_resource X) n) hs (on_outside (retirements_on_commit_sub n) s)"
      using Cons.prems assms(1) by (simp add: release_one_retirement)
    from Cons.IH [OF this] show ?thesis
      by (simp add: RetirementHandle on_outside_def retirements_commit_sub_lower lower_levels_idem option.map_comp comp_def)
  qed
qed simp

lemma cleanup_release:
  assumes "1 < n" and "cleanup_ok X s" and "t = subxact_callback (cleanup_resource X) n SubxactCommit s"
  shows "cleanup_ok X t \<and> live_deletes t = lower_levels n (live_deletes s)
    \<and> tracked_retirements t = lower_levels n (tracked_retirements s) \<and> cw_owner (outside t) = cw_owner (outside s)"
proof -
  have t: "t = fold (release_one (cleanup_resource X) n) (resources s) s"
    using assms(3) by (simp add: subxact_callback_def)
  note all = release_all [OF assms(1) this]
  show ?thesis
    using all assms(2)
    by (auto simp: cleanup_ok_def live_deletes_def tracked_retirements_def lower_levels_def split: option.splits)
qed
definition aborted_deletes :: "nest_level \<Rightarrow> (nest_level \<times> 'p) list \<Rightarrow> ('p \<Rightarrow> cleanup_timing) \<Rightarrow> 'p list" where
  "aborted_deletes n ds due = filter (\<lambda>p. due p = OnAbort) (map snd (filter (\<lambda>(l, p). n \<le> l) ds))"

lemma aborted_deletes_simps [simp]:
  "aborted_deletes n [] due = []"
  "aborted_deletes n ((l, p) # ds) due = (if n \<le> l \<and> due p = OnAbort then [p] else []) @ aborted_deletes n ds due"
  "aborted_deletes n (ds @ es) due = aborted_deletes n ds due @ aborted_deletes n es due"
  by (simp_all add: aborted_deletes_def)

definition deletes_of :: "cleanup_handle list \<Rightarrow> ('o, 'p, 'io, 'w) cleanup_world \<Rightarrow> (nest_level \<times> 'p) list" where
  "deletes_of hs cw = map (\<lambda>i. (pd_nest_level (pending_objects cw ! i), the (pd_inner (pending_objects cw ! i)))) (pending_indices hs)"

definition objects_ok :: "('o, 'p, 'io, 'lsn, 'w) cleanup_env \<Rightarrow> cleanup_handle list \<Rightarrow> 'p pending_delete_resource list \<Rightarrow> bool" where
  "objects_ok X hs objs \<longleftrightarrow> (\<forall>i \<in> set (pending_indices hs). i < length objs
     \<and> (\<exists>p. pd_inner (objs ! i) = Some p \<and> pd_resource_timing (objs ! i) = pd_timing (ce_pending X) p))"

lemma run_deletes_simps [simp]:
  "run_deletes X [] w = w" "run_deletes X (p # ps) w = run_deletes X ps (snd (pd_execute (ce_pending X) p w))"
  "run_deletes X (ps @ qs) w = run_deletes X qs (run_deletes X ps w)"
  by (simp_all add: run_deletes_def)

lemma abort_sub_all:
  assumes "objects_ok X hs (pending_objects (outside s))"
  shows "fold (\<lambda>h. res_on_abort_sub (cleanup_resource X) h n) hs s = on_outside (\<lambda>cw. cw
      \<lparr> cw_owner := (cw_owner cw) \<lparr> owner_world := run_deletes X
          (aborted_deletes n (deletes_of hs cw) (pd_timing (ce_pending X))) (owner_world (cw_owner cw)) \<rparr>,
        retirements := (if RetirementHandle \<in> set hs then map_option (filter (\<lambda>(l, r). l < n)) (retirements cw) else retirements cw) \<rparr>) s"
  using assms
proof (induction hs arbitrary: s)
  case Nil
  then show ?case by (simp add: on_outside_def deletes_of_def)
next
  case (Cons h hs)
  show ?case
  proof (cases h)
    case (PendingHandle i)
    then obtain p where p: "pd_inner (pending_objects (outside s) ! i) = Some p"
        "pd_resource_timing (pending_objects (outside s) ! i) = pd_timing (ce_pending X) p"
      using Cons.prems by (auto simp: objects_ok_def)
    have ok: "objects_ok X hs (pending_objects (outside (res_on_abort_sub (cleanup_resource X) h n s)))"
      using Cons.prems p by (auto simp: PendingHandle objects_ok_def cleanup_resource_def on_outside_def pending_on_abort_sub_def
          execute_abort_def)
    show ?thesis
      using Cons.IH [OF ok] p
      by (simp add: PendingHandle cleanup_resource_def on_outside_def pending_on_abort_sub_def execute_abort_def
          should_run_on_def deletes_of_def)
  next
    case RetirementHandle
    have ok: "objects_ok X hs (pending_objects (outside (res_on_abort_sub (cleanup_resource X) h n s)))"
      using Cons.prems by (auto simp: RetirementHandle objects_ok_def cleanup_resource_def on_outside_def retirements_on_abort_sub_def)
    show ?thesis
      using Cons.IH [OF ok]
      by (simp add: RetirementHandle cleanup_resource_def on_outside_def retirements_on_abort_sub_def deletes_of_def
          option.map_comp comp_def)
  qed
qed

lemma res_nest_level_cleanup:
  "res_nest_level (cleanup_resource X) h s = (case h of
     PendingHandle i \<Rightarrow> pd_nest_level (pending_objects (outside s) ! i) | RetirementHandle \<Rightarrow> 1)"
  by (simp add: cleanup_resource_def)

lemma cleanup_abort_sub:
  assumes "1 < n" and "cleanup_ok X s" and "t = subxact_callback (cleanup_resource X) n SubxactAbort s"
  shows "cleanup_ok X t \<and> live_deletes t = filter (\<lambda>(l, p). l < n) (live_deletes s)
    \<and> tracked_retirements t = filter (\<lambda>(l, r). l < n) (tracked_retirements s)
    \<and> cw_owner (outside t) = (cw_owner (outside s)) \<lparr> owner_world :=
        run_deletes X (aborted_deletes n (live_deletes s) (pd_timing (ce_pending X))) (storage_world s) \<rparr>"
proof -
  have ok: "objects_ok X (resources s) (pending_objects (outside s))"
    using assms(2) by (simp add: cleanup_ok_def objects_ok_def)
  let ?level = "\<lambda>h. case h of PendingHandle i \<Rightarrow> pd_nest_level (pending_objects (outside s) ! i) | RetirementHandle \<Rightarrow> 1"
  have res: "resources t = filter (\<lambda>h. ?level h < n) (resources s)"
    and out: "outside t = (outside s) \<lparr> cw_owner := (cw_owner (outside s)) \<lparr> owner_world := run_deletes X
          (aborted_deletes n (live_deletes s) (pd_timing (ce_pending X))) (storage_world s) \<rparr>,
        retirements := (if RetirementHandle \<in> set (resources s)
          then map_option (filter (\<lambda>(l, r). l < n)) (retirements (outside s)) else retirements (outside s)) \<rparr>"
    using assms(3)
    by (auto simp: subxact_callback_def Let_def abort_sub_all [OF ok] res_nest_level_cleanup on_outside_def deletes_of_def
        live_deletes_def cong: cleanup_handle.case_cong)
  have "map f (pending_indices (filter (\<lambda>h. ?level h < n) hs)) =
      filter (\<lambda>(l, p). l < n) (map f (pending_indices hs))"
    if "f = (\<lambda>i. (pd_nest_level (pending_objects (outside s) ! i), the (pd_inner (pending_objects (outside s) ! i))))" for f hs
    using assms(1) by (induction hs) (auto simp: that split: cleanup_handle.splits)
  then show ?thesis
    using assms(1,2) by (auto simp: cleanup_ok_def live_deletes_def tracked_retirements_def res out split: option.splits)
qed
section \<open>Whole programs\<close>

interpretation retired: levelled_store
  "\<lambda>s. quiet_registration X P \<and> cleanup_ok X s" tracked_retirements "cleanup_step X P" "retired_by X"
  "\<lambda>n. subxact_callback (cleanup_resource X) n SubxactCommit" "\<lambda>n. subxact_callback (cleanup_resource X) n SubxactAbort"
proof
  fix s n and x :: "('b, 'c) cleanup_op"
  assume "quiet_registration X P \<and> cleanup_ok X s"
  then have "quiet_registration X P" "cleanup_ok X s" by auto
  with cleanup_step_pending [OF this] cleanup_step_retirement [OF this]
  show "quiet_registration X P \<and> cleanup_ok X (cleanup_step X P n x s)"
      "tracked_retirements (cleanup_step X P n x s) = tracked_retirements s @ map (Pair n) (retired_by X x)"
    by (cases x; simp del: cleanup_step.simps(2))+
next
  fix s n
  assume "quiet_registration X P \<and> cleanup_ok X s" "1 < (n :: nest_level)"
  then show "quiet_registration X P \<and> cleanup_ok X (subxact_callback (cleanup_resource X) n SubxactCommit s)"
      "tracked_retirements (subxact_callback (cleanup_resource X) n SubxactCommit s) = lower_levels n (tracked_retirements s)"
      "quiet_registration X P \<and> cleanup_ok X (subxact_callback (cleanup_resource X) n SubxactAbort s)"
      "tracked_retirements (subxact_callback (cleanup_resource X) n SubxactAbort s) =
        filter (\<lambda>(l, r). l < n) (tracked_retirements s)"
    using cleanup_release [OF _ _ refl, of n X s] cleanup_abort_sub [OF _ _ refl, of n X s] by auto
qed

abbreviation cleanup_exec :: "('o, 'p, 'io, 'lsn, 'w) cleanup_env \<Rightarrow> ('o, 'p, 'io, 'w) cleanup_world postgres \<Rightarrow> nest_level
    \<Rightarrow> ('p, 'io) cleanup_op tx_prog \<Rightarrow> ('o, 'p, 'io, 'w) cleanup_backend \<Rightarrow> ('o, 'p, 'io, 'w) cleanup_backend" where
  "cleanup_exec X P \<equiv> tx_exec (cleanup_step X P)
     (\<lambda>n. subxact_callback (cleanup_resource X) n SubxactCommit) (\<lambda>n. subxact_callback (cleanup_resource X) n SubxactAbort)"

abbreviation cleanup_execs :: "('o, 'p, 'io, 'lsn, 'w) cleanup_env \<Rightarrow> ('o, 'p, 'io, 'w) cleanup_world postgres \<Rightarrow> nest_level
    \<Rightarrow> ('p, 'io) cleanup_op tx_prog list \<Rightarrow> ('o, 'p, 'io, 'w) cleanup_backend \<Rightarrow> ('o, 'p, 'io, 'w) cleanup_backend" where
  "cleanup_execs X P \<equiv> tx_execs (cleanup_step X P)
     (\<lambda>n. subxact_callback (cleanup_resource X) n SubxactCommit) (\<lambda>n. subxact_callback (cleanup_resource X) n SubxactAbort)"

text \<open>The state after a program, in terms of the reference outcome.\<close>

definition cleanup_after :: "('o, 'p, 'io, 'lsn, 'w) cleanup_env \<Rightarrow> nest_level \<Rightarrow> 'p list \<times> 'p list
    \<Rightarrow> ('o, 'p, 'io, 'w) cleanup_backend \<Rightarrow> ('o, 'p, 'io, 'w) cleanup_backend \<Rightarrow> bool" where
  "cleanup_after X n result s t \<longleftrightarrow> cleanup_ok X t \<and> live_deletes t = live_deletes s @ map (Pair n) (fst result)
     \<and> cw_owner (outside t) = (cw_owner (outside s)) \<lparr> owner_world := run_deletes X (snd result) (storage_world s) \<rparr>"

lemma cleanup_after_step:
  assumes "quiet_registration X P" and "cleanup_ok X s"
  shows "cleanup_after X n (delete_outcome (pd_timing (ce_pending X)) (TxOp x)) s (cleanup_step X P n x s)"
  using cleanup_step_pending [OF assms] cleanup_step_retirement [OF assms]
  by (cases x) (simp_all add: cleanup_after_def del: cleanup_step.simps(2))

lemma cleanup_after_trans:
  assumes "cleanup_after X n (live, gone) s t" and "cleanup_after X n (lives, gones) t u"
  shows "cleanup_after X n (live @ lives, gone @ gones) s u"
  using assms by (simp add: cleanup_after_def)

lemma cleanup_execs_after:
  assumes "\<And>p n s. p \<in> set ps \<Longrightarrow> 1 \<le> n \<Longrightarrow> cleanup_ok X s \<Longrightarrow> \<forall>(l, d) \<in> set (live_deletes s). l \<le> n \<Longrightarrow>
      cleanup_after X n (delete_outcome (pd_timing (ce_pending X)) p) s (cleanup_exec X P n p s)"
    and "1 \<le> n" and "cleanup_ok X s" and "\<forall>(l, d) \<in> set (live_deletes s). l \<le> n"
  shows "cleanup_after X n (delete_outcomes (pd_timing (ce_pending X)) ps) s (cleanup_execs X P n ps s)"
  using assms
proof (induction ps arbitrary: s)
  case Nil
  then show ?case by (simp add: cleanup_after_def)
next
  case (Cons p ps)
  have head: "cleanup_after X n (delete_outcome (pd_timing (ce_pending X)) p) s (cleanup_exec X P n p s)"
    using Cons.prems by simp
  then have "cleanup_ok X (cleanup_exec X P n p s)" "\<forall>(l, d) \<in> set (live_deletes (cleanup_exec X P n p s)). l \<le> n"
    using Cons.prems(4) by (auto simp: cleanup_after_def)
  with Cons have "cleanup_after X n (delete_outcomes (pd_timing (ce_pending X)) ps) (cleanup_exec X P n p s)
      (cleanup_execs X P n ps (cleanup_exec X P n p s))" by simp
  with head show ?case
    using cleanup_after_trans by (fastforce simp: Let_def split: prod.splits)
qed

lemma levels_kept:
  assumes "\<forall>(l, d) \<in> set ds. l \<le> (n :: nest_level)"
  shows "lower_levels (n + 1) ds = ds" and "filter (\<lambda>(l, d). l < n + 1) ds = ds" and "aborted_deletes (n + 1) ds due = []"
  using assms by (auto simp: lower_levels_def aborted_deletes_def filter_empty_conv intro!: map_idI filter_True)

lemma aborted_tags: "aborted_deletes n (map (Pair n) ds) due = filter (\<lambda>p. due p = OnAbort) ds"
  by (induction ds) simp_all

lemma cleanup_exec_after:
  assumes "quiet_registration X P"
  shows "1 \<le> n \<Longrightarrow> cleanup_ok X s \<Longrightarrow> \<forall>(l, d) \<in> set (live_deletes s). l \<le> n \<Longrightarrow>
    cleanup_after X n (delete_outcome (pd_timing (ce_pending X)) p) s (cleanup_exec X P n p s)"
proof (induction p arbitrary: n s)
  case (TxOp x)
  then show ?case using cleanup_after_step [OF assms] by simp
next
  case (TxSub ps c)
  let ?t = "cleanup_execs X P (n + 1) ps s"
  obtain live gone where result: "delete_outcomes (pd_timing (ce_pending X)) ps = (live, gone)" by (rule prod.exhaust)
  have deep: "\<forall>(l, d) \<in> set (live_deletes s). l \<le> n + 1" using TxSub.prems(3) by auto
  have "cleanup_after X (n + 1) (live, gone) s ?t"
    unfolding result [symmetric]
    by (rule cleanup_execs_after [OF TxSub.IH]) (use TxSub.prems deep in auto)
  then have t: "cleanup_ok X ?t" "live_deletes ?t = live_deletes s @ map (Pair (n + 1)) live"
      "cw_owner (outside ?t) = (cw_owner (outside s)) \<lparr> owner_world := run_deletes X gone (storage_world s) \<rparr>"
    by (simp_all add: cleanup_after_def)
  have rel: "lower_levels (n + 1) (live_deletes ?t) = live_deletes s @ map (Pair n) live"
    using levels_kept(1) [OF TxSub.prems(3)] by (simp add: t(2)) (simp add: lower_levels_def)
  have ab: "filter (\<lambda>(l, d). l < n + 1) (live_deletes ?t) = live_deletes s"
      "aborted_deletes (n + 1) (live_deletes ?t) (pd_timing (ce_pending X)) = filter (\<lambda>p. pd_timing (ce_pending X) p = OnAbort) live"
    using levels_kept(2,3) [OF TxSub.prems(3)] by (simp_all add: t(2) aborted_tags)
  show ?case
    using cleanup_release [OF _ t(1) refl, of "n + 1"] cleanup_abort_sub [OF _ t(1) refl, of "n + 1"] TxSub.prems(1) rel ab t(3)
    by (simp add: cleanup_after_def result Let_def)
qed
section \<open>The outcome of the transaction\<close>

definition deferred :: "('o, 'p, 'io, 'w) cleanup_world \<Rightarrow> cleanup_handle \<Rightarrow> ('p, 'io) cleanup_action list" where
  "deferred cw h = (case h of
       PendingHandle i \<Rightarrow> if pd_resource_timing (pending_objects cw ! i) = OnCommit
          then [ExecutePending (the (pd_inner (pending_objects cw ! i)))] else []
     | RetirementHandle \<Rightarrow> (case retirements cw of None \<Rightarrow> [] | Some es \<Rightarrow> if es = [] then [] else [ExecuteRetirements es]))"

lemma committed_defer_quiet:
  assumes "quiet_registration X P"
  shows "committed (committed_defer (cleanup_owners X) a s) = committed s @ [a]"
    and "owner_world (committed_defer (cleanup_owners X) a s) = owner_world s"
  using assms by (simp_all add: committed_defer_def init_resource_manager_def quiet_registration_def cleanup_owners_def Let_def)

lemma deferred_cong:
  "(\<And>i. h = PendingHandle i \<Longrightarrow> pending_objects cw' ! i = pending_objects cw ! i) \<Longrightarrow>
   (h = RetirementHandle \<Longrightarrow> retirements cw' = retirements cw) \<Longrightarrow> deferred cw' h = deferred cw h"
  by (cases h) (simp_all add: deferred_def)

lemma commit_one:
  assumes "quiet_registration X P" and "objects_ok X [h] (pending_objects (outside s))" and "panicked (outside s) = None"
    and "t = res_on_commit (cleanup_resource X) h s"
  shows "resources t = resources s \<and> panicked (outside t) = None \<and> storage_world t = storage_world s
    \<and> cleanup_queue t = cleanup_queue s @ deferred (outside s) h
    \<and> length (pending_objects (outside t)) = length (pending_objects (outside s))
    \<and> (\<forall>j. h \<noteq> PendingHandle j \<longrightarrow> pending_objects (outside t) ! j = pending_objects (outside s) ! j)
    \<and> (\<forall>j. pd_nest_level (pending_objects (outside t) ! j) = pd_nest_level (pending_objects (outside s) ! j))
    \<and> retirements (outside t) = (if h = RetirementHandle then None else retirements (outside s))"
proof (cases h)
  case (PendingHandle i)
  then obtain p where "i < length (pending_objects (outside s))" "pd_inner (pending_objects (outside s) ! i) = Some p"
    using assms(2) by (auto simp: objects_ok_def)
  then show ?thesis
    using assms(3,4) committed_defer_quiet [OF assms(1)]
    by (auto simp: PendingHandle cleanup_resource_def on_outside_def pending_on_commit_def Let_def should_run_on_def deferred_def
        nth_list_update)
next
  case RetirementHandle
  then show ?thesis
    using assms(3,4) committed_defer_quiet [OF assms(1)]
    by (auto simp: cleanup_resource_def on_outside_def retirements_on_commit_def Let_def deferred_def split: option.splits)
qed

lemma commit_all_handles:
  assumes "quiet_registration X P" and "distinct hs" and "objects_ok X hs (pending_objects (outside s))"
    and "panicked (outside s) = None" and "\<forall>h \<in> set hs. 1 \<le> res_nest_level (cleanup_resource X) h s"
    and "t = each_resource (cleanup_resource X) 1 (res_on_commit (cleanup_resource X)) hs s"
  shows "resources t = resources s \<and> panicked (outside t) = None \<and> storage_world t = storage_world s
    \<and> cleanup_queue t = cleanup_queue s @ concat (map (deferred (outside s)) hs)
    \<and> retirements (outside t) = (if RetirementHandle \<in> set hs then None else retirements (outside s))"
  using assms(2-)
proof (induction hs arbitrary: s)
  case (Cons h hs)
  let ?u = "res_on_commit (cleanup_resource X) h s"
  have "objects_ok X [h] (pending_objects (outside s))"
    using Cons.prems(2) by (cases h) (simp_all add: objects_ok_def)
  note u = commit_one [OF assms(1) this Cons.prems(3) refl]
  have same: "\<forall>i \<in> set (pending_indices hs). pending_objects (outside ?u) ! i = pending_objects (outside s) ! i"
    using u Cons.prems(1) by auto
  have ok: "objects_ok X hs (pending_objects (outside ?u))"
    using Cons.prems(2) u same by (cases h) (simp_all add: objects_ok_def)
  have defs: "map (deferred (outside ?u)) hs = map (deferred (outside s)) hs"
    using u same Cons.prems(1) by (intro map_cong deferred_cong refl) auto
  have lev: "\<forall>g \<in> set hs. 1 \<le> res_nest_level (cleanup_resource X) g ?u"
    using Cons.prems(4) u by (auto simp: res_nest_level_cleanup split: cleanup_handle.splits)
  have t: "t = each_resource (cleanup_resource X) 1 (res_on_commit (cleanup_resource X)) hs ?u"
    using Cons.prems(4,5) by simp
  have "distinct hs" "panicked (outside ?u) = None" using Cons.prems(1) u by auto
  from Cons.IH [OF this(1) ok this(2) lev t, unfolded defs] Cons.prems(1) u show ?case by auto
qed simp

lemma abort_all_handles:
  assumes "objects_ok X hs (pending_objects (outside s))"
    and "\<forall>h \<in> set hs. 1 \<le> res_nest_level (cleanup_resource X) h s"
  shows "each_resource (cleanup_resource X) 1 (res_on_abort (cleanup_resource X)) hs s = on_outside (\<lambda>cw. cw
      \<lparr> cw_owner := (cw_owner cw) \<lparr> owner_world := run_deletes X
          (filter (\<lambda>p. pd_timing (ce_pending X) p = OnAbort) (map snd (deletes_of hs cw))) (owner_world (cw_owner cw)) \<rparr>,
        retirements := (if RetirementHandle \<in> set hs then None else retirements cw) \<rparr>) s"
  using assms
proof (induction hs arbitrary: s)
  case Nil
  then show ?case by (simp add: on_outside_def deletes_of_def)
next
  case (Cons h hs)
  show ?case
  proof (cases h)
    case (PendingHandle i)
    then obtain p where p: "pd_inner (pending_objects (outside s) ! i) = Some p"
        "pd_resource_timing (pending_objects (outside s) ! i) = pd_timing (ce_pending X) p"
      using Cons.prems(1) by (auto simp: objects_ok_def)
    let ?u = "res_on_abort (cleanup_resource X) h s"
    have u: "pending_objects (outside ?u) = pending_objects (outside s)"
      using p by (simp add: PendingHandle cleanup_resource_def on_outside_def pending_on_abort_def execute_abort_def)
    have "objects_ok X hs (pending_objects (outside ?u))" "\<forall>g \<in> set hs. 1 \<le> res_nest_level (cleanup_resource X) g ?u"
      using Cons.prems u by (auto simp: PendingHandle objects_ok_def res_nest_level_cleanup split: cleanup_handle.splits)
    from Cons.IH [OF this] p Cons.prems(2) show ?thesis
      by (simp add: PendingHandle res_nest_level_cleanup) (simp add: cleanup_resource_def on_outside_def pending_on_abort_def
          execute_abort_def should_run_on_def deletes_of_def)
  next
    case RetirementHandle
    let ?u = "res_on_abort (cleanup_resource X) h s"
    have u: "pending_objects (outside ?u) = pending_objects (outside s)"
      by (simp add: RetirementHandle cleanup_resource_def on_outside_def retirements_on_abort_def)
    have "objects_ok X hs (pending_objects (outside ?u))" "\<forall>g \<in> set hs. 1 \<le> res_nest_level (cleanup_resource X) g ?u"
      using Cons.prems u by (auto simp: RetirementHandle objects_ok_def res_nest_level_cleanup split: cleanup_handle.splits)
    from Cons.IH [OF this] Cons.prems(2) show ?thesis
      by (simp add: RetirementHandle res_nest_level_cleanup) (simp add: cleanup_resource_def on_outside_def
          retirements_on_abort_def deletes_of_def)
  qed
qed
definition queued_deletes :: "('p, 'io) cleanup_action list \<Rightarrow> 'p list" where
  "queued_deletes q = concat (map (\<lambda>a. case a of ExecutePending p \<Rightarrow> [p] | ExecuteRetirements es \<Rightarrow> []) q)"

definition queued_batches :: "('p, 'io) cleanup_action list \<Rightarrow> 'io tracked_retirement list list" where
  "queued_batches q = concat (map (\<lambda>a. case a of ExecutePending p \<Rightarrow> [] | ExecuteRetirements es \<Rightarrow> [es]) q)"

lemma queued_append [simp]:
  "queued_deletes [] = []" "queued_batches [] = []"
  "queued_deletes (q @ q') = queued_deletes q @ queued_deletes q'" "queued_batches (q @ q') = queued_batches q @ queued_batches q'"
  by (simp_all add: queued_deletes_def queued_batches_def)

lemma queued_deferred:
  assumes "objects_ok X hs (pending_objects cw)"
  shows "queued_deletes (concat (map (deferred cw) hs)) = filter (\<lambda>p. pd_timing (ce_pending X) p = OnCommit) (map snd (deletes_of hs cw))"
  using assms
proof (induction hs)
  case (Cons h hs)
  then show ?case
    by (cases h) (auto simp: objects_ok_def deferred_def deletes_of_def queued_deletes_def split: option.splits)
qed (simp add: deletes_of_def)

lemma queued_batches_deferred:
  "distinct hs \<Longrightarrow> queued_batches (concat (map (deferred cw) hs)) =
     (if RetirementHandle \<in> set hs then (case retirements cw of None \<Rightarrow> [] | Some es \<Rightarrow> if es = [] then [] else [es]) else [])"
proof (induction hs)
  case (Cons h hs)
  then show ?case
    by (cases h) (auto simp: deferred_def queued_batches_def split: option.splits)
qed simp

lemma cleanup_run_after:
  fixes X :: "('o, 'p, 'io, 'lsn, 'w) cleanup_env"
  assumes "quiet_registration X P" and "s = cleanup_run X P ps (cleanup_start w)"
  shows "cleanup_after X 1 (delete_outcomes (pd_timing (ce_pending X)) ps) (cleanup_start w) s
    \<and> map snd (tracked_retirements s) = tx_specs (\<lambda>x rs. rs @ retired_by X x) ps []"
proof -
  let ?start = "cleanup_start w :: ('o, 'p, 'io, 'w) cleanup_backend"
  have start: "cleanup_ok X ?start" "live_deletes ?start = []" "tracked_retirements ?start = []"
    by (simp_all add: cleanup_ok_def cleanup_start_def live_deletes_def tracked_retirements_def)
  have "cleanup_after X 1 (delete_outcomes (pd_timing (ce_pending X)) ps) (cleanup_start w) (cleanup_execs X P 1 ps (cleanup_start w))"
    by (rule cleanup_execs_after [OF cleanup_exec_after [OF assms(1)]]) (simp_all add: start)
  moreover have lw: "retired.levels_within TYPE('lsn) X P 1 (cleanup_start w)"
    unfolding retired.levels_within_def using assms(1) start by simp
  from retired.execs_nested [OF _ lw, of ps] have run: "retired.levels_within TYPE('lsn) X P 1 s"
      "owned_below 2 (tracked_retirements s) = tx_specs (\<lambda>x rs. rs @ retired_by X x) ps []"
    using start(3) by (simp_all add: assms(2) cleanup_run_def owned_below_def)
  from retired.owned_all [OF run(1), of 2] run(2)
  have "map snd (tracked_retirements s) = tx_specs (\<lambda>x rs. rs @ retired_by X x) ps []" by simp
  ultimately show ?thesis by (simp add: assms(2) cleanup_run_def)
qed
lemma xact_outcome:
  "resources (snd (xact_callback (cleanup_resource X) P 1 XactCommit s)) =
     resources (each_resource (cleanup_resource X) 1 (res_on_commit (cleanup_resource X)) (resources s) (s \<lparr> resources := [] \<rparr>))"
  "outside (snd (xact_callback (cleanup_resource X) P 1 XactCommit s)) =
     outside (each_resource (cleanup_resource X) 1 (res_on_commit (cleanup_resource X)) (resources s) (s \<lparr> resources := [] \<rparr>))"
  "snd (xact_callback (cleanup_resource X) P 1 XactAbort s) =
     each_resource (cleanup_resource X) 1 (res_on_abort (cleanup_resource X)) (resources s) (s \<lparr> resources := [] \<rparr>)"
  by (simp_all add: xact_callback_def finish_all_def)

text \<open>
  C9. Cleanup follows the outcome of the transaction and of its savepoints. For every tree of
  subtransactions that registers pending deletes and retirements of table directories: a pending
  delete due at abort runs exactly when its subtransaction, an enclosing one or the whole transaction
  is rolled back, once, in registration order; one due at commit, and a retirement, is queued when the
  top-level transaction commits exactly if no enclosing subtransaction was rolled back, in registration
  order, retirements as one batch; an abort queues nothing. No callback panics, and no resource stays
  registered.
\<close>
theorem cleanup_follows_outcome:
  fixes X :: "('o, 'p, 'io, 'lsn, 'w) cleanup_env"
  assumes "quiet_registration X P" and "s = cleanup_run X P ps (cleanup_start w)"
    and "delete_outcomes (pd_timing (ce_pending X)) ps = (live, gone)"
    and "retired = tx_specs (\<lambda>x rs. rs @ retired_by X x) ps []"
    and "c = snd (xact_callback (cleanup_resource X) P 1 XactCommit s)"
    and "a = snd (xact_callback (cleanup_resource X) P 1 XactAbort s)"
  shows "storage_world c = run_deletes X gone w
    \<and> queued_deletes (cleanup_queue c) = filter (\<lambda>p. pd_timing (ce_pending X) p = OnCommit) live
    \<and> map (map snd) (queued_batches (cleanup_queue c)) = (if retired = [] then [] else [retired])
    \<and> resources c = [] \<and> retirements (outside c) = None \<and> panicked (outside c) = None
    \<and> storage_world a = run_deletes X (gone @ filter (\<lambda>p. pd_timing (ce_pending X) p = OnAbort) live) w
    \<and> cleanup_queue a = [] \<and> resources a = [] \<and> retirements (outside a) = None \<and> panicked (outside a) = None"
proof -
  have s: "cleanup_ok X s" "live_deletes s = map (Pair 1) live" "storage_world s = run_deletes X gone w" "cleanup_queue s = []"
      "map snd (tracked_retirements s) = retired"
    using cleanup_run_after [OF assms(1,2)] assms(3,4)
    by (simp_all add: cleanup_after_def cleanup_start_def owner_start_def live_deletes_def)
  let ?s = "s \<lparr> resources := [] \<rparr>"
  have ok: "objects_ok X (resources s) (pending_objects (outside ?s))" "distinct (resources s)" "panicked (outside ?s) = None"
      "RetirementHandle \<in> set (resources s) \<longleftrightarrow> retirements (outside s) \<noteq> None"
    using s(1) by (simp_all add: cleanup_ok_def objects_ok_def)
  have snds: "map snd (deletes_of (resources s) (outside s)) = live"
    using arg_cong [OF s(2), of "map snd"] by (simp add: deletes_of_def live_deletes_def comp_def)
  have "\<forall>d \<in> set (live_deletes s). 1 \<le> fst d" by (simp add: s(2))
  then have lev: "\<forall>h \<in> set (resources s). 1 \<le> res_nest_level (cleanup_resource X) h ?s"
    by (auto simp: live_deletes_def res_nest_level_cleanup split: cleanup_handle.splits)
  have batch: "map (map snd) (case retirements (outside s) of None \<Rightarrow> [] | Some es \<Rightarrow> if es = [] then [] else [es])
      = (if retired = [] then [] else [retired])"
    using s(5) by (auto simp: tracked_retirements_def split: option.splits)
  note commit = commit_all_handles [OF assms(1) ok(2,1,3) lev refl]
  note abort = abort_all_handles [OF ok(1) lev]
  show ?thesis
    using commit s(3,4) snds ok(4) batch queued_deferred [OF ok(1)] queued_batches_deferred [OF ok(2), of "outside ?s"] ok(3)
    by (auto simp: assms(5,6) xact_outcome abort on_outside_def split: option.splits if_splits)
qed
section \<open>Log before removal\<close>

text \<open>
  \<open>XLogFlush\<close> up to the record inserted last makes the whole log durable; warnings leave the log alone.
\<close>

definition flush_law :: "('o, 'p, 'io, 'lsn, 'w) cleanup_env \<Rightarrow> ('lsn, 'w) wal_view
    \<Rightarrow> ('w \<Rightarrow> (8 word \<times> 8 word \<times> string) list) \<Rightarrow> bool" where
  "flush_law X V durable \<longleftrightarrow>
     (\<forall>lsn w. last_insert V w = Some lsn \<longrightarrow>
        wal_log V (ce_flush_wal X lsn w) = wal_log V w \<and> durable (ce_flush_wal X lsn w) = wal_log V w)
   \<and> (\<forall>m w. wal_log V (ce_warning X m w) = wal_log V w \<and> durable (ce_warning X m w) = durable w)"

definition directory_record :: "byte_order \<Rightarrow> 'io local_table_retirement \<Rightarrow> 8 word \<times> 8 word \<times> string" where
  "directory_record order r = (iceberg_rmgr_id, wal_op_code DeleteDirectory,
     directory_header_bytes order \<lparr> dir_path_len = of_nat (length (retired_directory r)) \<rparr> @ retired_directory r)"

lemma log_delete_wal_record:
  assumes "wal_laws (ce_wal X) V" and "log_delete_wal X r w = (lsn, w')"
  shows "if retired_needs_wal r
    then wal_log V w' = wal_log V w @ [directory_record (ce_order X) r] \<and> lsn \<noteq> None \<and> lsn = last_insert V w'
    else lsn = None \<and> w' = w"
proof (cases "retired_needs_wal r")
  case True
  obtain n v where ins: "xlog_insert (ce_wal X) iceberg_rmgr_id (wal_op_code DeleteDirectory)
      (snd (snd (directory_record (ce_order X) r))) w = (n, v)" by (rule prod.exhaust)
  with assms(1) have "wal_log V v = wal_log V w @ [directory_record (ce_order X) r]" "last_insert V v = Some n"
    by (auto simp: wal_laws_def directory_record_def)
  moreover have "lsn = Some n" "w' = v"
    using ins assms(2) True
    by (simp_all add: log_delete_wal_def log_delete_directory_def insert_directory_def wal_insert_def register_data_def
        wal_begin_def directory_record_def Let_def)
  ultimately show ?thesis using True by simp
next
  case False
  then show ?thesis using assms(2) by (simp add: log_delete_wal_def)
qed

lemma log_retirements_records:
  assumes "wal_laws (ce_wal X) V" and "log_retirements X es last_lsn w = (lsn, w')"
  shows "wal_log V w' = wal_log V w @ map (directory_record (ce_order X)) (filter retired_needs_wal (map snd es))
    \<and> (if filter retired_needs_wal (map snd es) = [] then lsn = last_lsn \<and> w' = w else lsn \<noteq> None \<and> lsn = last_insert V w')"
  using assms(2)
proof (induction es arbitrary: last_lsn w)
  case (Cons e es)
  obtain level r where e: "e = (level, r)" by (rule prod.exhaust)
  obtain n v where one: "log_delete_wal X r w = (n, v)" by (rule prod.exhaust)
  then have rest: "log_retirements X es (case n of Some _ \<Rightarrow> n | None \<Rightarrow> last_lsn) v = (lsn, w')"
    using Cons.prems by (simp add: e)
  show ?case
    using Cons.IH [OF rest] log_delete_wal_record [OF assms(1) one]
    by (cases "retired_needs_wal r") (auto simp: e split: if_splits option.splits)
qed simp

lemma retirement_logged:
  assumes "wal_laws (ce_wal X) V" and "flush_law X V durable"
  shows "\<exists>w1. retirement_batch_execute X entries w = fold (\<lambda>(level, r). delete_storage X r) entries w1
    \<and> wal_log V w1 = wal_log V w @ map (directory_record (ce_order X)) (filter retired_needs_wal (map snd entries))
    \<and> (filter retired_needs_wal (map snd entries) \<noteq> [] \<longrightarrow> durable w1 = wal_log V w1)"
proof -
  obtain lsn v where log: "log_retirements X entries None w = (lsn, v)" by (rule prod.exhaust)
  let ?w1 = "case lsn of Some lsn \<Rightarrow> ce_flush_wal X lsn v | None \<Rightarrow> v"
  show ?thesis
    using log_retirements_records [OF assms(1) log] assms(2)
    by (intro exI [of _ ?w1])
      (auto simp: retirement_batch_execute_def log flush_law_def split: option.splits if_splits dest: sym)
qed

lemma post_commit_logged:
  assumes "wal_laws (ce_wal X) V" and "flush_law X V durable" and "\<forall>p \<in> set (batch_paths b). utf8_valid p"
  shows "\<exists>w1 records. post_commit_execute X b w = batch_delete_all X b w1
    \<and> wal_log V w1 = wal_log V w @ map (\<lambda>d. (iceberg_rmgr_id, wal_op_code DeleteFiles, d)) records
    \<and> concat (map (the \<circ> extract_delete_file_paths (ce_order X)) records)
        = (if batch_needs_wal b then filter delete_file_fits_wal (batch_paths b) else [])
    \<and> (records \<noteq> [] \<longrightarrow> durable w1 = wal_log V w1)"
proof (cases "batch_needs_wal b")
  case False
  then show ?thesis
    by (intro exI [of _ w] exI [of _ "[]"]) (simp add: post_commit_execute_def log_local_delete_wal_def)
next
  case True
  let ?paths = "filter delete_file_fits_wal (batch_paths b)"
  obtain lsn v where log: "log_delete_files (ce_wal X) (ce_order X) ?paths w = (lsn, v)" by (rule prod.exhaust)
  have "\<forall>p \<in> set ?paths. utf8_valid p" using assms(3) by simp
  from log_delete_files_records [OF assms(1) this log]
  obtain records batches where rb: "wal_log V v = wal_log V w @ map (\<lambda>d. (iceberg_rmgr_id, wal_op_code DeleteFiles, d)) records"
      "map (extract_delete_file_paths (ce_order X)) records = map Some batches" "concat batches = ?paths"
      "lsn = (if records = [] then None else last_insert V v)" by auto
  have batches: "map (the \<circ> extract_delete_file_paths (ce_order X)) records = batches"
    using arg_cong [OF rb(2), of "map the"] by (simp add: comp_def)
  have lsn: "lsn \<noteq> None \<and> lsn = last_insert V v" if "records \<noteq> []"
    using that rb(1,4) log_delete_loop_None [OF assms(1), of "ce_order X" ?paths "[]" 0 None w v] log
    by (auto simp: log_delete_files_def)
  define u where "u = (case lsn of Some lsn \<Rightarrow> ce_flush_wal X lsn v | None \<Rightarrow> v)"
  have u: "wal_log V u = wal_log V v \<and> (records \<noteq> [] \<longrightarrow> durable u = wal_log V v)"
    using lsn rb(4) assms(2) by (cases "records = []") (auto simp: u_def flush_law_def)
  have exec: "\<exists>m. log_local_delete_wal X b w = (if m = [] then u else ce_warning X m u)"
    using True
    by (auto simp: log_local_delete_wal_def log u_def [symmetric] intro: exI [of _ "[]"])
  then obtain m where "log_local_delete_wal X b w = (if m = [] then u else ce_warning X m u)" ..
  then have "wal_log V (log_local_delete_wal X b w) = wal_log V u" "durable (log_local_delete_wal X b w) = durable u"
    using assms(2) by (auto simp: flush_law_def)
  then show ?thesis
    using True u rb(1,3) batches
    by (intro exI [of _ "log_local_delete_wal X b w"] exI [of _ records]) (simp add: post_commit_execute_def)
qed

text \<open>
  C13. Nothing is removed before the log says so. When a committed transaction's retired directories
  are removed, the deletion records of all of them that need the log have been inserted and are
  durable before the first directory goes; when a batch of files is deleted, records that name
  exactly the paths a record can hold are durable before the first file goes.
\<close>
theorem deletions_logged_first:
  assumes "wal_laws (ce_wal X) V" and "flush_law X V durable" and "\<forall>p \<in> set (batch_paths b). utf8_valid p"
  shows "(\<exists>w1. retirement_batch_execute X entries w = fold (\<lambda>(level, r). delete_storage X r) entries w1
      \<and> wal_log V w1 = wal_log V w @ map (directory_record (ce_order X)) (filter retired_needs_wal (map snd entries))
      \<and> (filter retired_needs_wal (map snd entries) \<noteq> [] \<longrightarrow> durable w1 = wal_log V w1))
    \<and> (\<exists>w1 records. post_commit_execute X b w = batch_delete_all X b w1
      \<and> wal_log V w1 = wal_log V w @ map (\<lambda>d. (iceberg_rmgr_id, wal_op_code DeleteFiles, d)) records
      \<and> concat (map (the \<circ> extract_delete_file_paths (ce_order X)) records)
          = (if batch_needs_wal b then filter delete_file_fits_wal (batch_paths b) else [])
      \<and> (records \<noteq> [] \<longrightarrow> durable w1 = wal_log V w1))"
  using retirement_logged [OF assms(1,2)] post_commit_logged [OF assms] by blast
section \<open>An example\<close>

text \<open>The world is the log, its durable part, and what was deleted; a pending delete is a name with its timing.\<close>

type_synonym demo_disk = "(8 word \<times> 8 word \<times> string) list \<times> (8 word \<times> 8 word \<times> string) list \<times> string list"

definition demo_erase :: "string \<Rightarrow> demo_disk \<Rightarrow> (string + unit) \<times> demo_disk" where
  "demo_erase name = (\<lambda>(log, durable, deleted). (Inr (), (log, durable, deleted @ [name])))"

definition demo_cleanup :: "(nat, cleanup_timing \<times> string, unit, nat, demo_disk) cleanup_env" where
  "demo_cleanup = \<lparr>
     ce_owners = \<lparr> current_resource_owner = \<lambda>_. Some 0, top_transaction_resource_owner = \<lambda>_. Some 0,
       resource_owner_parent = \<lambda>_ _. None, proc_exit_inprogress = \<lambda>_. False, register_release_callback = \<lambda>_ w. w,
       run_callback = \<lambda>_ s. (Inr (), s), owner_warning = \<lambda>_ w. w, show_owner = \<lambda>_. [] \<rparr>,
     ce_pending = \<lparr> pd_execute = \<lambda>(t, name). demo_erase name, pd_timing = fst \<rparr>,
     ce_wal = \<lparr> xlog_insert = \<lambda>r i d (log, rest). (length log, (log @ [(r, i, d)], rest)), wal_warning = \<lambda>_ w. w \<rparr>,
     ce_order = LittleEndian,
     ce_flush_wal = \<lambda>lsn (log, durable, deleted). (log, take (lsn + 1) log, deleted),
     io_local_storage = \<lambda>_. Some (with_wal True), io_delete = \<lambda>_. demo_erase, io_remove_dir_all = \<lambda>_. demo_erase,
     ce_warning = \<lambda>_ w. w \<rparr>"

definition demo_disk_view :: "(nat, demo_disk) wal_view" where
  "demo_disk_view = \<lparr> wal_log = fst, last_insert = \<lambda>w. if fst w = [] then None else Some (length (fst w) - 1) \<rparr>"

definition demo_postgres :: "'w postgres" where
  "demo_postgres = \<lparr> register_xact_callbacks = \<lambda>w. w, active_snapshot_set = \<lambda>_. True,
     push_active_snapshot = \<lambda>w. w, pop_active_snapshot = \<lambda>w. w \<rparr>"

definition demo_cleanup_program :: "(cleanup_timing \<times> string, unit) cleanup_op tx_prog list" where
  "demo_cleanup_program =
     [TxOp (RegisterPending (OnCommit, ''a'')),
      TxSub [TxOp (RegisterPending (OnAbort, ''b'')), TxOp (RegisterRetirement ''d'' ())] False,
      TxSub [TxOp (RegisterPending (OnAbort, ''c'')), TxOp (RegisterRetirement ''e'' ())] True]"

lemma demo_cleanup_laws:
  "quiet_registration demo_cleanup demo_postgres" "wal_laws (ce_wal demo_cleanup) demo_disk_view"
  "flush_law demo_cleanup demo_disk_view (fst \<circ> snd)"
  by (auto simp: quiet_registration_def demo_cleanup_def demo_postgres_def wal_laws_def demo_disk_view_def flush_law_def
      split: if_splits)

theorem cleanup_follows_outcome_witness:
  "queued_deletes (cleanup_queue (snd (xact_callback (cleanup_resource demo_cleanup) demo_postgres 1 XactCommit
       (cleanup_run demo_cleanup demo_postgres demo_cleanup_program (cleanup_start ([], [], [])))))) = [(OnCommit, ''a'')]
   \<and> storage_world (snd (xact_callback (cleanup_resource demo_cleanup) demo_postgres 1 XactAbort
       (cleanup_run demo_cleanup demo_postgres demo_cleanup_program (cleanup_start ([], [], []))))) = ([], [], [''b'', ''c''])"
proof -
  have outcome: "delete_outcomes (pd_timing (ce_pending demo_cleanup)) demo_cleanup_program
      = ([(OnCommit, ''a''), (OnAbort, ''c'')], [(OnAbort, ''b'')])"
    by (simp add: demo_cleanup_program_def demo_cleanup_def)
  from cleanup_follows_outcome [OF demo_cleanup_laws(1) refl outcome refl refl refl, of "([], [], [])"]
  show ?thesis by (simp add: demo_cleanup_def demo_erase_def)
qed

theorem deletions_logged_first_witness:
  "wal_laws (ce_wal demo_cleanup) demo_disk_view \<and> flush_law demo_cleanup demo_disk_view (fst \<circ> snd)
   \<and> (\<exists>w1. retirement_batch_execute demo_cleanup
          [(1, \<lparr> retired_directory = ''d'', retired_file_io = (), retired_needs_wal = True \<rparr>)] ([], [], [])
        = delete_storage demo_cleanup \<lparr> retired_directory = ''d'', retired_file_io = (), retired_needs_wal = True \<rparr> w1
      \<and> length (fst (snd w1)) = 1)"
proof -
  let ?b = "\<lparr> batch_file_io = (), batch_paths = [], batch_needs_wal = False, batch_purpose = Vacuum \<rparr>"
  let ?r = "\<lparr> retired_directory = ''d'', retired_file_io = (), retired_needs_wal = True \<rparr>"
  let ?es = "[(1 :: nest_level, ?r)]"
  have "\<forall>p \<in> set (batch_paths ?b). utf8_valid p" by simp
  from deletions_logged_first [OF demo_cleanup_laws(2,3) this, of "?es" "([], [], [])", THEN conjunct1]
  obtain w1 where w1: "retirement_batch_execute demo_cleanup ?es ([], [], [])
        = fold (\<lambda>(level, r). delete_storage demo_cleanup r) ?es w1"
      "wal_log demo_disk_view w1 = wal_log demo_disk_view ([], [], [])
        @ map (directory_record (ce_order demo_cleanup)) (filter retired_needs_wal (map snd ?es))"
      "filter retired_needs_wal (map snd ?es) \<noteq> [] \<longrightarrow> (fst \<circ> snd) w1 = wal_log demo_disk_view w1"
    by blast
  then have "length (fst (snd w1)) = 1" by (simp add: demo_disk_view_def)
  with w1(1) show ?thesis using demo_cleanup_laws(2,3) by (intro conjI exI [of _ w1]) simp_all
qed

end
