(* ===== verification/Worker_Slot.thy ===== *)
theory Worker_Slot
  imports Prelude "HOL-Library.Word"
begin

text \<open>
  The shared-memory slot of one extension worker (\<open>lagodb-base/src/worker/state/slot.rs\<close>, \<open>policy.rs\<close>,
  \<open>process.rs\<close>, \<open>mod.rs\<close>) and the schedule a worker returns
  (\<open>lagodb-core/src/extension_worker/schedule.rs\<close>). Every operation runs under one lock, so a slot
  evolves by a sequence of these operations, called by the worker itself, by its exit callback, by the
  coordinator and by ordinary backends, in any order.

  Flags of the source (\<open>u8\<close> that are 0 or 1) are booleans, signed counters are integers with the
  saturation written out, a \<open>Duration\<close> is its number of nanoseconds.
\<close>

section \<open>States\<close>

datatype registration_state = Empty | Registered | Removing

definition registration_str :: "registration_state \<Rightarrow> string" where
  "registration_str r = (case r of Empty \<Rightarrow> ''empty'' | Registered \<Rightarrow> ''registered'' | Removing \<Rightarrow> ''removing'')"

datatype process_state = Stopped | Starting | Running | Restarting | NotStarted

definition process_str :: "process_state \<Rightarrow> string" where
  "process_str p = (case p of Stopped \<Rightarrow> ''stopped'' | Starting \<Rightarrow> ''starting'' | Running \<Rightarrow> ''running''
     | Restarting \<Rightarrow> ''restarting'' | NotStarted \<Rightarrow> ''not_started'')"

definition process_is_active :: "process_state \<Rightarrow> bool" where
  "process_is_active p \<longleftrightarrow> p \<noteq> Stopped \<and> p \<noteq> NotStarted"

definition invalid_oid :: oid where "invalid_oid = 0"
definition max_worker_name_bytes :: nat where "max_worker_name_bytes = 255"

section \<open>Durations and schedules\<close>

type_synonym duration = nat

definition duration_max :: duration where "duration_max = (2 ^ 64 - 1) * 1000000000 + 999999999"

definition as_millis :: "duration \<Rightarrow> nat" where "as_millis d = d div 1000000"
definition from_millis :: "nat \<Rightarrow> duration" where "from_millis ms = ms * 1000000"

text \<open>\<open>i64::try_from(d.as_millis()).unwrap_or(i64::MAX)\<close>.\<close>

definition millis_i64 :: "duration \<Rightarrow> int" where
  "millis_i64 d = (if int (as_millis d) \<le> i64_max then int (as_millis d) else i64_max)"

definition duration_saturating_mul :: "duration \<Rightarrow> nat \<Rightarrow> duration" where
  "duration_saturating_mul d k = min duration_max (d * k)"

datatype worker_schedule = Idle | RunImmediately | RunAfter duration

definition into_raw :: "worker_schedule \<Rightarrow> int" where
  "into_raw s = (case s of Idle \<Rightarrow> 0 | RunImmediately \<Rightarrow> - 1
     | RunAfter delay \<Rightarrow> if delay = 0 then - 1 else millis_i64 delay)"

section \<open>Restart policy\<close>

record restart_policy =
  policy_initial :: duration
  policy_maximum :: duration
  policy_healthy :: duration

definition failure_count_after_crash :: "restart_policy \<Rightarrow> int \<Rightarrow> int \<Rightarrow> int \<Rightarrow> int" where
  "failure_count_after_crash policy failures start_time_ms now_ms =
     (let previous = (if start_time_ms \<noteq> 0 \<and> millis_i64 (policy_healthy policy) \<le> sat_sub_i64 now_ms start_time_ms
                      then 0 else failures)
      in sat_add_i32 previous 1)"

definition crash_backoff :: "restart_policy \<Rightarrow> int \<Rightarrow> duration" where
  "crash_backoff policy failures =
     (let exponent = (let e = sat_sub_i32 failures 1 in if 0 \<le> e then nat e else u32_max);
          multiplier = (if exponent < 32 then 2 ^ exponent else u32_max)
      in min (duration_saturating_mul (policy_initial policy) multiplier) (policy_maximum policy))"

section \<open>The slot\<close>

record worker_key =
  key_database_oid :: oid
  key_worker_id :: int

record worker_slot =
  database_oid :: oid
  worker_id :: int
  extension_oid :: oid
  pid :: int
  restart_after_ms :: int
  start_time_ms :: int
  failure_count :: int
  worker_name :: string
  registration :: registration_state
  process :: process_state
  wake_requested :: bool
  stop_requested :: bool
  needs_restart :: bool

record worker_identity =
  identity_database_oid :: oid
  identity_worker_id :: int
  identity_extension_oid :: oid
  identity_worker_name :: string

definition empty_slot :: worker_slot where
  "empty_slot = \<lparr> database_oid = invalid_oid, worker_id = 0, extension_oid = invalid_oid, pid = 0, restart_after_ms = 0,
     start_time_ms = 0, failure_count = 0, worker_name = [], registration = Empty, process = Stopped,
     wake_requested = False, stop_requested = False, needs_restart = False \<rparr>"

definition new_slot :: "worker_key \<Rightarrow> worker_slot" where
  "new_slot key = empty_slot \<lparr> database_oid := key_database_oid key, worker_id := key_worker_id key \<rparr>"

definition slot_key :: "worker_slot \<Rightarrow> worker_key" where
  "slot_key s = \<lparr> key_database_oid = database_oid s, key_worker_id = worker_id s \<rparr>"

definition slot_identity :: "worker_slot \<Rightarrow> worker_identity" where
  "slot_identity s = \<lparr> identity_database_oid = database_oid s, identity_worker_id = worker_id s,
     identity_extension_oid = extension_oid s, identity_worker_name = worker_name s \<rparr>"

definition has_active_process :: "worker_slot \<Rightarrow> bool" where
  "has_active_process s \<longleftrightarrow> process s = Starting \<or> 0 < pid s"

definition restart_delay :: "worker_slot \<Rightarrow> int \<Rightarrow> duration option" where
  "restart_delay s now_ms =
     (if registration s \<noteq> Registered \<or> process s = Starting \<or> 0 < pid s \<or> stop_requested s \<or> \<not> needs_restart s
      then None
      else Some (from_millis (nat (max (sat_sub_i64 (restart_after_ms s) now_ms) 0))))"

text \<open>A name that does not fit the fixed buffer panics.\<close>

definition initialize_registration :: "oid \<Rightarrow> string \<Rightarrow> worker_slot \<Rightarrow> worker_slot option" where
  "initialize_registration extension name s =
     (if max_worker_name_bytes < length name then None
      else Some (empty_slot \<lparr> database_oid := database_oid s, worker_id := worker_id s, extension_oid := extension,
             registration := Registered, process := NotStarted, needs_restart := True, worker_name := name \<rparr>))"

definition slot_request_wakeup :: "worker_slot \<Rightarrow> worker_slot" where
  "slot_request_wakeup s =
     (let s = s \<lparr> wake_requested := True \<rparr> in
      if process s \<noteq> Starting \<and> pid s = 0 \<and> registration s = Registered \<and> \<not> stop_requested s
         \<and> \<not> (0 < failure_count s \<and> 0 < restart_after_ms s)
      then s \<lparr> needs_restart := True, restart_after_ms := 0, wake_requested := False \<rparr>
      else s)"

definition schedule_existing_restart :: "worker_slot \<Rightarrow> worker_slot" where
  "schedule_existing_restart s = s \<lparr> process := Restarting, needs_restart := True \<rparr>"

definition reconcile_present :: "worker_slot \<Rightarrow> worker_slot" where
  "reconcile_present s =
     (let s = s \<lparr> registration := Registered \<rparr> in
      if stop_requested s then
        (if has_active_process s then s
         else let s = s \<lparr> stop_requested := False \<rparr> in
           if wake_requested s then slot_request_wakeup s
           else if needs_restart s then schedule_existing_restart s
           else s \<lparr> process := Stopped \<rparr>)
      else if wake_requested s then slot_request_wakeup s
      else s)"

definition slot_request_stop :: "worker_slot \<Rightarrow> worker_slot" where
  "slot_request_stop s =
     (let s = s \<lparr> stop_requested := True \<rparr> in if process s = Running then s \<lparr> process := Restarting \<rparr> else s)"

definition mark_removing :: "worker_slot \<Rightarrow> worker_slot" where
  "mark_removing s = slot_request_stop (s \<lparr> registration := Removing \<rparr>)"

definition prepare_start :: "worker_slot \<Rightarrow> worker_slot" where
  "prepare_start s = s \<lparr> process := Starting, needs_restart := False, wake_requested := False, restart_after_ms := 0,
     start_time_ms := 0 \<rparr>"

definition slot_mark_running :: "int \<Rightarrow> int \<Rightarrow> worker_slot \<Rightarrow> bool \<times> worker_slot" where
  "slot_mark_running p start s =
     (if process s \<noteq> Starting \<or> stop_requested s \<or> wake_requested s then (False, s)
      else (True, s \<lparr> process := Running, pid := p, needs_restart := False, start_time_ms := start \<rparr>))"

definition complete_run :: "worker_schedule \<Rightarrow> int \<Rightarrow> worker_slot \<Rightarrow> worker_slot" where
  "complete_run schedule now_ms s = (case schedule of
       Idle \<Rightarrow> s
     | RunImmediately \<Rightarrow> s \<lparr> needs_restart := True, restart_after_ms := 0, process := Restarting \<rparr>
     | RunAfter delay \<Rightarrow> s \<lparr> needs_restart := True, restart_after_ms := sat_add_i64 now_ms (millis_i64 delay),
         process := Restarting \<rparr>)"

definition prepare_transactional_stop :: "worker_slot \<Rightarrow> bool \<times> worker_slot" where
  "prepare_transactional_stop s =
     (if process s \<noteq> Starting \<and> pid s = 0 then (False, s)
      else (True, slot_request_stop (s \<lparr> needs_restart := True \<rparr>)))"

datatype stop_disposition = Settled | Reconcile

definition settle_stopped :: "int \<Rightarrow> restart_policy \<Rightarrow> bool \<Rightarrow> bool \<Rightarrow> bool \<Rightarrow> int \<Rightarrow> worker_slot \<Rightarrow> worker_slot" where
  "settle_stopped now_ms policy explicit_stop restart_requested stopped_normally start s =
     (if registration s \<noteq> Registered
      then s \<lparr> process := Stopped, stop_requested := False, needs_restart := False, restart_after_ms := 0, wake_requested := False \<rparr>
      else if explicit_stop then schedule_existing_restart s
      else if stopped_normally then
        (if wake_requested s
         then s \<lparr> process := Restarting, needs_restart := True, restart_after_ms := 0, wake_requested := False \<rparr>
         else if restart_requested then schedule_existing_restart s
         else s \<lparr> process := Stopped, needs_restart := False, restart_after_ms := 0 \<rparr>)
      else if restart_requested then schedule_existing_restart s
      else let failures = failure_count_after_crash policy (failure_count s) start now_ms
           in s \<lparr> process := Restarting, failure_count := failures, needs_restart := True,
                  restart_after_ms := sat_add_i64 now_ms (millis_i64 (crash_backoff policy failures)) \<rparr>)"

definition slot_confirm_stopped :: "int \<Rightarrow> restart_policy \<Rightarrow> int \<Rightarrow> worker_slot \<Rightarrow> stop_disposition option \<times> worker_slot" where
  "slot_confirm_stopped now_ms policy exit_code s =
     (if process s \<noteq> Starting \<and> pid s = 0 then (None, s)
      else let explicit_stop = stop_requested s;
               restart_requested = needs_restart s;
               stopped_normally = (exit_code = 0);
               needs_reconcile = (explicit_stop \<or> registration s \<noteq> Registered \<or> restart_requested \<or> wake_requested s
                 \<or> \<not> stopped_normally);
               t = s \<lparr> pid := 0, start_time_ms := 0,
                     failure_count := (if stopped_normally then 0 else failure_count s) \<rparr>
           in (Some (if needs_reconcile then Reconcile else Settled),
               settle_stopped now_ms policy explicit_stop restart_requested stopped_normally (start_time_ms s) t))"

definition registration_failed :: "int \<Rightarrow> duration \<Rightarrow> worker_slot \<Rightarrow> bool \<times> worker_slot" where
  "registration_failed now_ms retry_delay s =
     (let pending = (restart_delay s now_ms = Some 0) in
      if \<not> has_active_process s \<and> \<not> pending then (False, s)
      else let s = s \<lparr> pid := 0 \<rparr>;
               s = (if stop_requested s then schedule_existing_restart s
                    else s \<lparr> process := NotStarted, restart_after_ms := sat_add_i64 now_ms (millis_i64 retry_delay),
                           needs_restart := True \<rparr>)
           in (True, s \<lparr> start_time_ms := 0 \<rparr>))"

section \<open>Runs of a slot\<close>

text \<open>
  The operations with the conditions under which the store calls them. A worker reports its process
  with a positive PID; the exit of a process whose registration is
  being removed deletes the slot, so it has no successor here.
\<close>

datatype slot_event = EvWake | EvReconcile | EvRemove | EvStart int | EvRunning int int | EvComplete worker_schedule int
  | EvStop | EvExit int restart_policy int | EvFailed int duration

inductive slot_step :: "slot_event \<Rightarrow> worker_slot \<Rightarrow> worker_slot \<Rightarrow> bool" where
  wake: "slot_step EvWake s (slot_request_wakeup s)"
| reconcile: "slot_step EvReconcile s (reconcile_present s)"
| remove: "has_active_process s \<Longrightarrow> slot_step EvRemove s (mark_removing s)"
| start: "restart_delay s now = Some 0 \<Longrightarrow> slot_step (EvStart now) s (prepare_start s)"
| running: "0 < p \<Longrightarrow> slot_step (EvRunning p t) s (snd (slot_mark_running p t s))"
| complete: "slot_step (EvComplete schedule now) s (complete_run schedule now s)"
| stop: "slot_step EvStop s (snd (prepare_transactional_stop s))"
| exit: "registration s = Registered \<Longrightarrow> slot_step (EvExit now policy code) s (snd (slot_confirm_stopped now policy code s))"
| failed: "slot_step (EvFailed now delay) s (snd (registration_failed now delay s))"

inductive_simps slot_step_simps [simp]:
  "slot_step EvWake s t" "slot_step EvReconcile s t" "slot_step EvRemove s t" "slot_step (EvStart now) s t"
  "slot_step (EvRunning p start) s t" "slot_step (EvComplete schedule now) s t" "slot_step EvStop s t"
  "slot_step (EvExit now policy code) s t" "slot_step (EvFailed now delay) s t"

inductive slot_run :: "slot_event list \<Rightarrow> worker_slot \<Rightarrow> worker_slot \<Rightarrow> bool" where
  run_nil: "slot_run [] s s"
| run_cons: "slot_step e s t \<Longrightarrow> slot_run es t u \<Longrightarrow> slot_run (e # es) s u"

inductive_cases slot_run_consE: "slot_run (e # es) s u"

inductive slot_reachable :: "worker_slot \<Rightarrow> bool" where
  registered: "initialize_registration extension name s = Some t \<Longrightarrow> slot_reachable t"
| step: "slot_reachable s \<Longrightarrow> slot_step e s t \<Longrightarrow> slot_reachable t"

definition slot_ok :: "worker_slot \<Rightarrow> bool" where
  "slot_ok s \<longleftrightarrow> registration s \<noteq> Empty \<and> length (worker_name s) \<le> max_worker_name_bytes
     \<and> 0 \<le> failure_count s \<and> failure_count s \<le> i32_max \<and> (registration s = Removing \<longrightarrow> stop_requested s)
     \<and> (case process s of
          Starting \<Rightarrow> pid s = 0 \<and> start_time_ms s = 0 \<and> (needs_restart s \<longrightarrow> stop_requested s)
        | Running \<Rightarrow> 0 < pid s
        | Restarting \<Rightarrow> 0 < pid s \<or> pid s = 0 \<and> start_time_ms s = 0 \<and> needs_restart s
        | Stopped \<Rightarrow> pid s = 0 \<and> start_time_ms s = 0 \<and> \<not> stop_requested s \<and> (needs_restart s \<or> failure_count s = 0)
        | NotStarted \<Rightarrow> pid s = 0 \<and> start_time_ms s = 0 \<and> \<not> stop_requested s \<and> needs_restart s)"

lemma sat_succ_range: "0 \<le> f \<Longrightarrow> 0 \<le> sat_add_i32 f 1" "sat_add_i32 f 1 \<le> i32_max" "0 \<le> f \<Longrightarrow> 1 \<le> sat_add_i32 f 1"
  by (simp_all add: sat_add_i32_def clamp_i32_def i32_max_def i32_min_def)

lemma failure_count_range:
  "0 \<le> f \<Longrightarrow> 0 \<le> failure_count_after_crash policy f start now" "failure_count_after_crash policy f start now \<le> i32_max"
  using sat_succ_range(1) [of f] sat_succ_range(1) [of 0] sat_succ_range(2)
  by (simp_all add: failure_count_after_crash_def Let_def)

text \<open>Whether a wake-up schedules the next run at once.\<close>

definition wake_schedules :: "worker_slot \<Rightarrow> bool" where
  "wake_schedules s \<longleftrightarrow> process s \<noteq> Starting \<and> pid s = 0 \<and> registration s = Registered \<and> \<not> stop_requested s
     \<and> \<not> (0 < failure_count s \<and> 0 < restart_after_ms s)"

lemma slot_request_wakeup_eq:
  "slot_request_wakeup s = (if wake_schedules s then s \<lparr> wake_requested := False, needs_restart := True, restart_after_ms := 0 \<rparr>
     else s \<lparr> wake_requested := True \<rparr>)"
  unfolding slot_request_wakeup_def wake_schedules_def Let_def by (rule if_cong) simp_all

lemma slot_ok_wake: "slot_ok s \<Longrightarrow> slot_ok (slot_request_wakeup s)"
  by (cases "wake_schedules s"; cases "process s") (auto simp: slot_request_wakeup_eq slot_ok_def wake_schedules_def)

lemma reconcile_present_eq:
  "reconcile_present s =
     (if stop_requested s \<and> has_active_process s then s \<lparr> registration := Registered \<rparr>
      else if stop_requested s then
        (if wake_requested s then slot_request_wakeup (s \<lparr> registration := Registered, stop_requested := False \<rparr>)
         else s \<lparr> registration := Registered, stop_requested := False,
           process := (if needs_restart s then Restarting else Stopped) \<rparr>)
      else if wake_requested s then slot_request_wakeup (s \<lparr> registration := Registered \<rparr>)
      else s \<lparr> registration := Registered \<rparr>)"
  by (cases "stop_requested s"; cases "wake_requested s")
    (simp_all add: reconcile_present_def schedule_existing_restart_def has_active_process_def)

lemma slot_ok_reconcile:
  assumes "slot_ok s"
  shows "slot_ok (reconcile_present s)"
proof -
  have "slot_ok (s \<lparr> registration := Registered, stop_requested := False \<rparr>)" if "\<not> (stop_requested s \<and> has_active_process s)"
    using assms that by (cases "process s") (auto simp: slot_ok_def has_active_process_def)
  moreover have "slot_ok (s \<lparr> registration := Registered \<rparr>)"
    using assms by (cases "process s") (auto simp: slot_ok_def)
  moreover have "slot_ok (s \<lparr> registration := Registered, stop_requested := False,
        process := (if needs_restart s then Restarting else Stopped) \<rparr>)" if "stop_requested s" "\<not> has_active_process s"
    using assms that by (cases "process s") (auto simp: slot_ok_def has_active_process_def)
  ultimately show ?thesis
    by (simp add: reconcile_present_eq slot_ok_wake)
qed

lemma slot_ok_remove: "slot_ok s \<Longrightarrow> has_active_process s \<Longrightarrow> slot_ok (mark_removing s)"
  by (cases "process s") (auto simp: slot_ok_def has_active_process_def mark_removing_def slot_request_stop_def)

lemma restart_delay_Some:
  "restart_delay s now = Some d \<longleftrightarrow> registration s = Registered \<and> \<not> has_active_process s \<and> \<not> stop_requested s \<and> needs_restart s
     \<and> d = from_millis (nat (max (sat_sub_i64 (restart_after_ms s) now) 0))"
  by (auto simp: restart_delay_def has_active_process_def)

lemma slot_ok_start: "slot_ok s \<Longrightarrow> restart_delay s now = Some d \<Longrightarrow> slot_ok (prepare_start s)"
  by (cases "process s") (auto simp: restart_delay_Some slot_ok_def has_active_process_def prepare_start_def)

lemma slot_ok_running: "slot_ok s \<Longrightarrow> 0 < p \<Longrightarrow> slot_ok (snd (slot_mark_running p t s))"
  by (cases "process s") (auto simp: slot_ok_def slot_mark_running_def)

lemma slot_ok_complete: "slot_ok s \<Longrightarrow> slot_ok (complete_run schedule now s)"
  by (cases schedule; cases "process s") (auto simp: slot_ok_def complete_run_def)

lemma slot_ok_stop: "slot_ok s \<Longrightarrow> slot_ok (snd (prepare_transactional_stop s))"
  by (cases "process s") (auto simp: slot_ok_def prepare_transactional_stop_def slot_request_stop_def)

lemma registration_failed_eq:
  "snd (registration_failed now delay s) =
     (if \<not> has_active_process s \<and> restart_delay s now \<noteq> Some 0 then s
      else if stop_requested s then s \<lparr> pid := 0, process := Restarting, needs_restart := True, start_time_ms := 0 \<rparr>
      else s \<lparr> pid := 0, process := NotStarted, restart_after_ms := sat_add_i64 now (millis_i64 delay), needs_restart := True,
        start_time_ms := 0 \<rparr>)"
  by (simp add: registration_failed_def schedule_existing_restart_def)

lemma slot_ok_failed: "slot_ok s \<Longrightarrow> slot_ok (snd (registration_failed now delay s))"
  by (auto simp: registration_failed_eq slot_ok_def)

lemma slot_ok_settle:
  assumes "registration t = Registered" and "length (worker_name t) \<le> max_worker_name_bytes" and "0 \<le> failure_count t"
    and "failure_count t \<le> i32_max" and "pid t = 0" and "start_time_ms t = 0" and "stop_requested t \<longrightarrow> explicit"
    and "normal \<longrightarrow> failure_count t = 0"
  shows "slot_ok (settle_stopped now policy explicit restart normal start t)"
  using assms
  by (cases explicit; cases normal; cases restart; cases "wake_requested t")
    (simp_all add: settle_stopped_def slot_ok_def schedule_existing_restart_def failure_count_range Let_def)

lemma slot_ok_exit:
  assumes "slot_ok s" and "registration s = Registered"
  shows "slot_ok (snd (slot_confirm_stopped now policy code s))"
proof -
  let ?t = "s \<lparr> pid := 0, start_time_ms := 0, failure_count := (if code = 0 then 0 else failure_count s) \<rparr>"
  have "slot_ok (settle_stopped now policy (stop_requested s) (needs_restart s) (code = 0) (start_time_ms s) ?t)"
    by (rule slot_ok_settle) (use assms in \<open>auto simp: slot_ok_def i32_max_def\<close>)
  then show ?thesis
    using assms by (simp add: slot_confirm_stopped_def Let_def)
qed

lemma slot_ok_step: "slot_step e s t \<Longrightarrow> slot_ok s \<Longrightarrow> slot_ok t"
  by (induction e s t rule: slot_step.induct)
    (simp_all add: slot_ok_wake slot_ok_reconcile slot_ok_remove slot_ok_start slot_ok_running slot_ok_complete slot_ok_stop
      slot_ok_exit slot_ok_failed)

lemma slot_ok_reachable: "slot_reachable s \<Longrightarrow> slot_ok s"
proof (induction rule: slot_reachable.induct)
  case (registered extension name s t)
  then show ?case
    by (auto simp: initialize_registration_def slot_ok_def empty_slot_def i32_max_def split: if_splits)
qed (rule slot_ok_step)

lemma slot_ok_run: "slot_run es s t \<Longrightarrow> slot_ok s \<Longrightarrow> slot_ok t"
  by (induction es s t rule: slot_run.induct) (auto intro: slot_ok_step)

section \<open>Wake-ups are not lost\<close>

definition run_pending :: "worker_slot \<Rightarrow> bool" where
  "run_pending s \<longleftrightarrow> needs_restart s \<or> wake_requested s"

lemma run_pending_wake [simp]: "run_pending (slot_request_wakeup s)"
  by (simp add: slot_request_wakeup_eq run_pending_def)

lemma run_pending_reconcile: "run_pending s \<Longrightarrow> run_pending (reconcile_present s)"
  by (auto simp: reconcile_present_eq slot_request_wakeup_eq run_pending_def)

lemma run_pending_exit:
  "run_pending s \<Longrightarrow> registration s = Registered \<Longrightarrow> run_pending (snd (slot_confirm_stopped now policy code s))"
  by (cases "needs_restart s"; cases "code = 0"; cases "stop_requested s"; cases "wake_requested s")
    (simp_all add: slot_confirm_stopped_def settle_stopped_def schedule_existing_restart_def run_pending_def Let_def)

lemma run_pending_stop [simp]: "run_pending (slot_request_stop s) = run_pending s"
  by (simp add: slot_request_stop_def run_pending_def Let_def)

lemma run_pending_step:
  "slot_step e s t \<Longrightarrow> slot_ok s \<Longrightarrow> run_pending s \<Longrightarrow> (\<And>now. e \<noteq> EvStart now) \<Longrightarrow> run_pending t"
proof (induction e s t rule: slot_step.induct)
  case (running p t s)
  then show ?case by (auto simp: slot_mark_running_def run_pending_def slot_ok_def)
next
  case (complete schedule now s)
  then show ?case by (cases schedule) (auto simp: complete_run_def run_pending_def)
next
  case (failed now delay s)
  then show ?case by (simp add: registration_failed_eq run_pending_def)
next
  case (remove s)
  then show ?case by (simp add: mark_removing_def run_pending_stop) (simp add: run_pending_def)
next
  case (stop s)
  then show ?case by (simp add: prepare_transactional_stop_def run_pending_stop) (simp add: run_pending_def)
qed (auto simp: run_pending_reconcile run_pending_exit)

lemma run_pending_run:
  "slot_run es s t \<Longrightarrow> slot_ok s \<Longrightarrow> run_pending s \<Longrightarrow> (\<And>now. EvStart now \<notin> set es) \<Longrightarrow> run_pending t"
proof (induction es s t rule: slot_run.induct)
  case (run_cons e s t es u)
  have "slot_ok t" using slot_ok_step [OF run_cons.hyps(1) run_cons.prems(1)] .
  moreover have "run_pending t"
    by (rule run_pending_step [OF run_cons.hyps(1) run_cons.prems(1,2)]) (use run_cons.prems(3) in auto)
  ultimately show ?case using run_cons by auto
qed

lemma reconciled_launchable:
  assumes "slot_ok s" and "run_pending s" and "\<not> has_active_process s"
  shows "restart_delay (reconcile_present s) now = Some (from_millis (nat (max (sat_sub_i64 (restart_after_ms (reconcile_present s)) now) 0)))"
  using assms
  by (cases "process s") (auto simp: restart_delay_Some reconcile_present_eq slot_request_wakeup_eq wake_schedules_def
      has_active_process_def slot_ok_def run_pending_def)

lemma sat_sub_due: "a \<le> b \<Longrightarrow> sat_sub_i64 a b \<le> 0"
  by (simp add: sat_sub_i64_def clamp_i64_def i64_min_def)

text \<open>
  C19. A wake-up is never lost. Whatever happens to the slot after a wake-up (further wake-ups, stops,
  crashes, failed starts, reconciliation in any order) short of the launch of a new process: once no
  process is active, the next catalog reconciliation that finds the registration makes the worker
  eligible for a launch after a finite delay, and ready at its deadline.
\<close>
theorem wake_leads_to_launch:
  assumes "slot_reachable s" and "slot_run es (slot_request_wakeup s) t" and "\<And>now. EvStart now \<notin> set es"
    and "\<not> has_active_process t"
  shows "restart_delay (reconcile_present t) now \<noteq> None
    \<and> (restart_after_ms (reconcile_present t) \<le> now \<longrightarrow> restart_delay (reconcile_present t) now = Some 0)"
proof -
  have "slot_ok (slot_request_wakeup s)" using assms(1) by (simp add: slot_ok_reachable slot_ok_wake)
  then have "slot_ok t" "run_pending t"
    using slot_ok_run [OF assms(2)] run_pending_run [OF assms(2)] assms(3) by simp_all
  from reconciled_launchable [OF this assms(4), of now] show ?thesis
    by (auto simp: from_millis_def dest: sat_sub_due)
qed

definition demo_policy :: restart_policy where
  "demo_policy = \<lparr> policy_initial = 1000000000, policy_maximum = 60000000000, policy_healthy = 300000000000 \<rparr>"

definition demo_registered :: worker_slot where
  "demo_registered = empty_slot \<lparr> database_oid := 5, worker_id := 3, extension_oid := 90, registration := Registered,
     process := NotStarted, needs_restart := True, worker_name := ''compact'' \<rparr>"

lemma demo_reachable: "slot_reachable demo_registered" "slot_reachable (prepare_start demo_registered)"
  "slot_reachable (snd (slot_mark_running 77 5 (prepare_start demo_registered)))"
proof -
  have "initialize_registration 90 ''compact'' (new_slot \<lparr> key_database_oid = 5, key_worker_id = 3 \<rparr>) = Some demo_registered"
    by (simp add: initialize_registration_def demo_registered_def new_slot_def empty_slot_def max_worker_name_bytes_def)
  then show reg: "slot_reachable demo_registered" by (rule slot_reachable.registered)
  have "slot_step (EvStart 0) demo_registered (prepare_start demo_registered)"
    by (simp add: restart_delay_def demo_registered_def empty_slot_def from_millis_def sat_sub_i64_def clamp_i64_def i64_min_def i64_max_def)
  from slot_reachable.step [OF reg this] show start: "slot_reachable (prepare_start demo_registered)" .
  have "slot_step (EvRunning 77 5) (prepare_start demo_registered) (snd (slot_mark_running 77 5 (prepare_start demo_registered)))"
    by simp
  from slot_reachable.step [OF start this]
  show "slot_reachable (snd (slot_mark_running 77 5 (prepare_start demo_registered)))" .
qed

lemmas demo_slot_defs = demo_registered_def empty_slot_def prepare_start_def slot_mark_running_def

text \<open>A wake-up that arrives between the launch of the process and its exit.\<close>

theorem wake_leads_to_launch_witness:
  "restart_delay (reconcile_present (snd (slot_confirm_stopped 10 demo_policy 0
      (slot_request_wakeup (prepare_start demo_registered))))) 10 = Some 0"
proof -
  let ?woken = "slot_request_wakeup (prepare_start demo_registered)"
  let ?exited = "snd (slot_confirm_stopped 10 demo_policy 0 ?woken)"
  have "slot_run [EvExit 10 demo_policy 0] ?woken ?exited"
    by (rule run_cons [OF _ run_nil]) (simp add: slot_request_wakeup_def demo_slot_defs)
  then have "restart_after_ms (reconcile_present ?exited) \<le> 10
      \<longrightarrow> restart_delay (reconcile_present ?exited) 10 = Some 0"
    using wake_leads_to_launch [OF demo_reachable(2), of "[EvExit 10 demo_policy 0]" ?exited 10]
    by (simp add: slot_request_wakeup_def slot_confirm_stopped_def settle_stopped_def has_active_process_def demo_slot_defs)
  then show ?thesis
    by (simp add: slot_request_wakeup_def slot_confirm_stopped_def settle_stopped_def reconcile_present_def demo_slot_defs)
qed

section \<open>Transactional stops\<close>

lemma stopping_reconcile:
  "stop_requested s \<Longrightarrow> has_active_process s \<Longrightarrow> registration s = Registered \<Longrightarrow> reconcile_present s = s"
  by (cases s) (simp add: reconcile_present_eq)

text \<open>
  C32. A stop requested by a transaction that rolls back changes no schedule. For a registered worker
  with an active process and no wake-up outstanding: however often reconciliation runs before the
  process exits, the stop stays requested and nothing is launched until it has exited, whatever its
  exit code; the first reconciliation afterwards lifts the stop and leaves a pending restart with the
  deadline from before the stop.
\<close>
theorem transactional_stop_preserves_schedule:
  assumes "slot_reachable s" and "registration s = Registered" and "has_active_process s" and "\<not> wake_requested s"
    and "stopping = (reconcile_present ^^ k) (snd (prepare_transactional_stop s))"
    and "exited = snd (slot_confirm_stopped now policy code stopping)"
  shows "fst (prepare_transactional_stop s) \<and> stop_requested stopping \<and> restart_delay stopping t = None
    \<and> stop_requested exited \<and> restart_delay exited t = None
    \<and> \<not> stop_requested (reconcile_present exited) \<and> needs_restart (reconcile_present exited)
    \<and> process (reconcile_present exited) = Restarting
    \<and> restart_after_ms (reconcile_present exited) = restart_after_ms s
    \<and> failure_count (reconcile_present exited) = (if code = 0 then 0 else failure_count s)"
proof -
  let ?s = "snd (prepare_transactional_stop s)"
  have s: "?s = s \<lparr> needs_restart := True, stop_requested := True,
      process := (if process s = Running then Restarting else process s) \<rparr>" "fst (prepare_transactional_stop s)"
    using assms(3) by (cases s; auto simp: prepare_transactional_stop_def slot_request_stop_def has_active_process_def)+
  then have "reconcile_present ?s = ?s"
    using assms(2,3) by (intro stopping_reconcile) (auto simp: has_active_process_def)
  then have st: "stopping = ?s"
    unfolding assms(5) by (induction k) simp_all
  have ex: "exited = ?s \<lparr> pid := 0, start_time_ms := 0, failure_count := (if code = 0 then 0 else failure_count s),
      process := Restarting, needs_restart := True \<rparr>"
    using assms(2,3) s(1) unfolding assms(6) st
    by (auto simp: slot_confirm_stopped_def settle_stopped_def schedule_existing_restart_def has_active_process_def)
  show ?thesis
    using s assms(4) by (simp add: st ex restart_delay_def reconcile_present_eq has_active_process_def)
qed

theorem transactional_stop_preserves_schedule_witness:
  "let s = snd (slot_mark_running 77 5 (prepare_start demo_registered));
       stopping = (reconcile_present ^^ 2) (snd (prepare_transactional_stop s));
       exited = snd (slot_confirm_stopped 10 demo_policy 1 stopping)
   in stop_requested stopping \<and> restart_delay exited 10 = None \<and> process (reconcile_present exited) = Restarting
     \<and> restart_after_ms (reconcile_present exited) = 0"
  using transactional_stop_preserves_schedule [OF demo_reachable(3) _ _ _ refl refl,
    where k = 2 and now = 10 and policy = demo_policy and code = 1 and t = 10]
  by (simp add: has_active_process_def demo_slot_defs Let_def)

section \<open>Crash back-off\<close>

text \<open>
  The back-off after the \<open>n\<close>-th consecutive crash is the initial delay doubled \<open>n - 1\<close> times, capped
  by the maximum. The saturating arithmetic of the source (the shift that overflows at 32, the duration
  product) never shows, for every failure count the slot can hold and every maximum below the largest
  product.
\<close>
lemma crash_backoff_doubles:
  assumes "1 \<le> failures" and "failures \<le> i32_max"
    and "policy_maximum policy \<le> duration_max" and "policy_maximum policy \<le> policy_initial policy * u32_max"
  shows "crash_backoff policy failures = min (policy_initial policy * 2 ^ nat (failures - 1)) (policy_maximum policy)"
proof -
  let ?e = "nat (failures - 1)"
  have e: "sat_sub_i32 failures 1 = failures - 1"
    using assms(1,2) by (simp add: sat_sub_i32_def clamp_i32_def i32_min_def i32_max_def)
  show ?thesis
  proof (cases "?e < 32")
    case True
    then show ?thesis using assms(1,3) by (simp add: crash_backoff_def e duration_saturating_mul_def)
  next
    case False
    then have "(2::nat) ^ 32 \<le> 2 ^ ?e" by (intro power_increasing) simp_all
    then have "u32_max \<le> 2 ^ ?e" by (simp add: u32_max_def)
    then have "policy_maximum policy \<le> policy_initial policy * 2 ^ ?e"
      using assms(4) by (meson mult_le_mono2 order_trans)
    then show ?thesis using False assms by (simp add: crash_backoff_def e duration_saturating_mul_def)
  qed
qed

end
