(* ===== verification/Worker_Store.thy ===== *)
theory Worker_Store
  imports Worker_Slot
begin

text \<open>
  The shared-memory state of the worker runtime (\<open>lagodb-base/src/worker/store/\<close>, \<open>state/coordinator.rs\<close>,
  \<open>state/mod.rs\<close>, \<open>control.rs\<close>): the supervisor's identity, one slot per database coordinator and one
  slot per extension worker. Every operation holds \<open>SHARED_STATE\<close>, so the processes of the runtime
  interleave at the granularity of these operations.

  The two tables are PostgreSQL shared hashes. A table is a finite map; the order in which a scan visits
  its entries and the exhaustion of shared memory on insertion belong to PostgreSQL and are parameters
  (\<open>hash_env\<close>). A failed assertion is the error \<open>Panicked\<close>. Signals sent to other processes are kept in
  \<open>sent_signals\<close>.
\<close>

section \<open>Coordinator slots\<close>

definition invalid_proc_number :: int where "invalid_proc_number = - 1"

datatype coordinator_stop_disposition = CoordinatorSettled | HandoffNow | CoordinatorFailed

record coordinator_slot =
  coord_database_oid :: oid
  coord_pid :: int
  coord_proc_number :: int
  coord_process :: process_state
  coord_stop_requested :: bool
  coord_needs_restart :: bool

definition new_coordinator :: "oid \<Rightarrow> coordinator_slot" where
  "new_coordinator d = \<lparr> coord_database_oid = d, coord_pid = 0, coord_proc_number = invalid_proc_number,
     coord_process = Stopped, coord_stop_requested = False, coord_needs_restart = False \<rparr>"

definition has_reconciliation_authority :: "coordinator_slot \<Rightarrow> bool" where
  "has_reconciliation_authority c \<longleftrightarrow> process_is_active (coord_process c) \<and> \<not> coord_stop_requested c"

definition coord_reserve :: "coordinator_slot \<Rightarrow> coordinator_slot" where
  "coord_reserve c = c \<lparr> coord_pid := 0, coord_proc_number := invalid_proc_number, coord_process := Starting,
     coord_stop_requested := False, coord_needs_restart := False \<rparr>"

definition coord_mark_running :: "int \<Rightarrow> int \<Rightarrow> coordinator_slot \<Rightarrow> bool \<times> coordinator_slot" where
  "coord_mark_running p proc_number c =
     (if coord_process c \<noteq> Starting \<or> coord_stop_requested c \<or> coord_needs_restart c then (False, c)
      else (True, c \<lparr> coord_process := Running, coord_pid := p, coord_proc_number := proc_number \<rparr>))"

definition coord_request_restart :: "coordinator_slot \<Rightarrow> coordinator_slot" where
  "coord_request_restart c = c \<lparr> coord_needs_restart := True \<rparr>"

definition coord_request_stop :: "coordinator_slot \<Rightarrow> coordinator_slot" where
  "coord_request_stop c =
     (let c = c \<lparr> coord_needs_restart := False, coord_stop_requested := True \<rparr>
      in if coord_process c = Starting \<or> coord_process c = Running then c \<lparr> coord_process := Restarting \<rparr> else c)"

definition coord_request_handoff :: "coordinator_slot \<Rightarrow> coordinator_slot" where
  "coord_request_handoff c = (coord_request_stop c) \<lparr> coord_needs_restart := True \<rparr>"

definition coord_prepare_for_drop :: "coordinator_slot \<Rightarrow> coordinator_slot" where
  "coord_prepare_for_drop c = coord_request_handoff c"

definition coord_confirm_stopped :: "int \<Rightarrow> coordinator_slot \<Rightarrow> coordinator_stop_disposition option \<times> coordinator_slot" where
  "coord_confirm_stopped exit_code c =
     (if \<not> process_is_active (coord_process c) then (None, c)
      else let failed = (\<not> coord_stop_requested c \<and> exit_code \<noteq> 0);
               disposition = (if failed then CoordinatorFailed
                 else if coord_needs_restart c then HandoffNow else CoordinatorSettled);
               c = (if failed then c \<lparr> coord_needs_restart := True \<rparr> else c)
           in (Some disposition, c \<lparr> coord_process := Stopped, coord_pid := 0, coord_proc_number := invalid_proc_number \<rparr>))"

definition coord_reset_after_registration_failure :: "coordinator_slot \<Rightarrow> coordinator_slot" where
  "coord_reset_after_registration_failure c = c \<lparr> coord_pid := 0, coord_proc_number := invalid_proc_number,
     coord_process := Stopped, coord_stop_requested := False, coord_needs_restart := True \<rparr>"

section \<open>Shared hashes\<close>

definition table_with_mut :: "'k \<Rightarrow> ('e \<Rightarrow> 'r \<times> 'e) \<Rightarrow> ('k \<rightharpoonup> 'e) \<Rightarrow> 'r option \<times> ('k \<rightharpoonup> 'e)" where
  "table_with_mut k f m = (case m k of None \<Rightarrow> (None, m) | Some e \<Rightarrow> let (r, e) = f e in (Some r, m(k \<mapsto> e)))"

definition table_get_or_insert :: "bool \<Rightarrow> 'k \<Rightarrow> 'e \<Rightarrow> ('k \<rightharpoonup> 'e) \<Rightarrow> ('e \<times> ('k \<rightharpoonup> 'e)) option" where
  "table_get_or_insert full k initial m = (case m k of
       Some e \<Rightarrow> Some (e, m)
     | None \<Rightarrow> if full then None else Some (initial, m(k \<mapsto> initial)))"

definition table_replace :: "'k \<Rightarrow> 'e \<Rightarrow> ('k \<rightharpoonup> 'e) \<Rightarrow> bool \<times> ('k \<rightharpoonup> 'e)" where
  "table_replace k e m = (let (r, m) = table_with_mut k (\<lambda>_. ((), e)) m in (r \<noteq> None, m))"

definition table_remove :: "'k \<Rightarrow> ('k \<rightharpoonup> 'e) \<Rightarrow> bool \<times> ('k \<rightharpoonup> 'e)" where
  "table_remove k m = (m k \<noteq> None, m(k := None))"

definition table_snapshots :: "(('k \<rightharpoonup> 'e) \<Rightarrow> 'k list) \<Rightarrow> ('k \<rightharpoonup> 'e) \<Rightarrow> 'e list" where
  "table_snapshots scan m = List.map_filter m (scan m)"

definition table_for_each :: "(('k \<rightharpoonup> 'e) \<Rightarrow> 'k list) \<Rightarrow> ('e \<Rightarrow> 'a \<Rightarrow> 'a) \<Rightarrow> ('k \<rightharpoonup> 'e) \<Rightarrow> 'a \<Rightarrow> 'a" where
  "table_for_each scan f m a = fold f (List.map_filter m (scan m)) a"

definition table_for_each_mut :: "(('k \<rightharpoonup> 'e) \<Rightarrow> 'k list) \<Rightarrow> ('e \<Rightarrow> 'a \<Rightarrow> 'e \<times> 'a) \<Rightarrow> ('k \<rightharpoonup> 'e) \<Rightarrow> 'a \<Rightarrow> ('k \<rightharpoonup> 'e) \<times> 'a" where
  "table_for_each_mut scan f m a =
     fold (\<lambda>k (m, a). case m k of None \<Rightarrow> (m, a) | Some e \<Rightarrow> let (e, a) = f e a in (m(k \<mapsto> e), a)) (scan m) (m, a)"

section \<open>The store\<close>

record shared_state =
  supervisor_pid :: int
  supervisor_proc_number :: int
  rescan_all :: bool

definition default_shared_state :: shared_state where
  "default_shared_state = \<lparr> supervisor_pid = 0, supervisor_proc_number = invalid_proc_number, rescan_all = False \<rparr>"

datatype signal = Latch int | Terminate int

record worker_store =
  shared :: shared_state
  coordinator_table :: "oid \<rightharpoonup> coordinator_slot"
  worker_table :: "worker_key \<rightharpoonup> worker_slot"
  sent_signals :: "signal list"

definition new_store :: worker_store where
  "new_store = \<lparr> shared = default_shared_state, coordinator_table = Map.empty, worker_table = Map.empty, sent_signals = [] \<rparr>"

record hash_env =
  scan_coordinators :: "(oid \<rightharpoonup> coordinator_slot) \<Rightarrow> oid list"
  scan_workers :: "(worker_key \<rightharpoonup> worker_slot) \<Rightarrow> worker_key list"
  hash_full :: "worker_store \<Rightarrow> bool"

datatype store_error = OutOfSharedMemory | Panicked string

type_synonym 'a store_act = "(store_error, 'a, worker_store) act"

fun for_act :: "('x \<Rightarrow> ('e, unit, 'w) act) \<Rightarrow> 'x list \<Rightarrow> ('e, unit, 'w) act" where
  "for_act f [] = ok_act ()"
| "for_act f (x # xs) = bind_act (f x) (\<lambda>_. for_act f xs)"

definition send :: "signal \<Rightarrow> worker_store \<Rightarrow> worker_store" where
  "send sig s = s \<lparr> sent_signals := sent_signals s @ [sig] \<rparr>"

definition set_rescan_all :: "bool \<Rightarrow> worker_store \<Rightarrow> worker_store" where
  "set_rescan_all b s = s \<lparr> shared := (shared s) \<lparr> rescan_all := b \<rparr> \<rparr>"

definition with_coordinator :: "oid \<Rightarrow> (coordinator_slot \<Rightarrow> 'r \<times> coordinator_slot) \<Rightarrow> worker_store \<Rightarrow> 'r option \<times> worker_store" where
  "with_coordinator d f s = (let (r, m) = table_with_mut d f (coordinator_table s) in (r, s \<lparr> coordinator_table := m \<rparr>))"

definition with_worker :: "worker_key \<Rightarrow> (worker_slot \<Rightarrow> 'r \<times> worker_slot) \<Rightarrow> worker_store \<Rightarrow> 'r option \<times> worker_store" where
  "with_worker k f s = (let (r, m) = table_with_mut k f (worker_table s) in (r, s \<lparr> worker_table := m \<rparr>))"

text \<open>\<open>assert!(TABLE.replace(slot))\<close>.\<close>

definition replace_coordinator :: "coordinator_slot \<Rightarrow> unit store_act" where
  "replace_coordinator c s =
     (let (found, m) = table_replace (coord_database_oid c) c (coordinator_table s)
      in if found then (Inr (), s \<lparr> coordinator_table := m \<rparr>) else (Inl (Panicked ''coordinator replace''), s))"

definition replace_worker :: "worker_slot \<Rightarrow> unit store_act" where
  "replace_worker w s =
     (let (found, m) = table_replace (slot_key w) w (worker_table s)
      in if found then (Inr (), s \<lparr> worker_table := m \<rparr>) else (Inl (Panicked ''worker replace''), s))"

subsection \<open>Supervisor identity\<close>

definition signal_supervisor :: "worker_store \<Rightarrow> worker_store" where
  "signal_supervisor s =
     (let n = supervisor_proc_number (shared s) in if n \<noteq> invalid_proc_number then send (Latch n) s else s)"

definition claim_supervisor :: "int \<Rightarrow> int \<Rightarrow> worker_store \<Rightarrow> worker_store" where
  "claim_supervisor p proc_number s =
     s \<lparr> shared := \<lparr> supervisor_pid = p, supervisor_proc_number = proc_number, rescan_all = True \<rparr> \<rparr>"

definition clear_supervisor :: "worker_store \<Rightarrow> worker_store" where
  "clear_supervisor s =
     s \<lparr> shared := (shared s) \<lparr> supervisor_pid := 0, supervisor_proc_number := invalid_proc_number \<rparr> \<rparr>"

definition take_full_scan_request :: "worker_store \<Rightarrow> bool \<times> worker_store" where
  "take_full_scan_request s = (rescan_all (shared s), set_rescan_all False s)"

subsection \<open>Requests\<close>

definition request_coordination_locked :: "oid \<Rightarrow> bool store_act" where
  "request_coordination_locked d s =
     (if d = invalid_oid then (Inr False, s)
      else case coordinator_table s d of
        None \<Rightarrow> (Inr True, set_rescan_all True s)
      | Some c \<Rightarrow>
          let c = coord_request_restart c in
          bind_act (replace_coordinator c)
            (\<lambda>_ s. if coord_proc_number c \<noteq> invalid_proc_number then (Inr False, send (Latch (coord_proc_number c)) s)
                   else (Inr True, set_rescan_all True s)) s)"

definition wake_worker :: "worker_key \<Rightarrow> bool store_act" where
  "wake_worker k s =
     (let (_, s) = with_worker k (\<lambda>w. ((), slot_request_wakeup w)) s in request_coordination_locked (key_database_oid k) s)"

definition wake_database_workers :: "hash_env \<Rightarrow> oid \<Rightarrow> bool store_act" where
  "wake_database_workers H d s =
     (let (m, _) = table_for_each_mut (scan_workers H)
            (\<lambda>w u. (if database_oid w = d then slot_request_wakeup w else w, u)) (worker_table s) ()
      in request_coordination_locked d (s \<lparr> worker_table := m \<rparr>))"

definition request_database_reconcile :: "oid \<Rightarrow> bool store_act" where
  "request_database_reconcile d s = request_coordination_locked d s"

definition request_full_rescan :: "worker_store \<Rightarrow> bool \<times> worker_store" where
  "request_full_rescan s = (True, set_rescan_all True s)"

subsection \<open>Coordinators\<close>

datatype coordinator_registration = CoordinatorRegistered | CoordinatorAlreadyActive | CoordinatorNoWork | CoordinatorStartError

text \<open>\<open>accepted\<close> is the answer of \<open>RegisterDynamicBackgroundWorker\<close>.\<close>

definition register_coordinator :: "hash_env \<Rightarrow> bool \<Rightarrow> oid \<Rightarrow> coordinator_registration store_act" where
  "register_coordinator H accepted d s =
     (let enter = (case table_get_or_insert (hash_full H s) d (new_coordinator d) (coordinator_table s) of
            None \<Rightarrow> (Inl OutOfSharedMemory, s)
          | Some (c, m) \<Rightarrow>
              let c = coord_request_restart c in
              bind_act (replace_coordinator c) (\<lambda>_.
                if \<not> accepted then ok_act CoordinatorStartError
                else bind_act (replace_coordinator (coord_reserve c)) (\<lambda>_. ok_act CoordinatorRegistered))
              (s \<lparr> coordinator_table := m \<rparr>))
      in case coordinator_table s d of
           Some c \<Rightarrow>
             if process_is_active (coord_process c) then (Inr CoordinatorAlreadyActive, s)
             else if \<not> coord_needs_restart c then (Inr CoordinatorNoWork, s)
             else enter
         | None \<Rightarrow> enter)"

definition coordinator_registration_failed :: "oid \<Rightarrow> worker_store \<Rightarrow> worker_store" where
  "coordinator_registration_failed d s =
     snd (with_coordinator d (\<lambda>c. ((), if process_is_active (coord_process c)
       then coord_reset_after_registration_failure c else c)) s)"

definition begin_coordinator :: "int \<Rightarrow> int \<Rightarrow> oid \<Rightarrow> worker_store \<Rightarrow> bool \<times> worker_store" where
  "begin_coordinator p proc_number d s =
     (let (r, s) = with_coordinator d (coord_mark_running p proc_number) s
      in (case r of None \<Rightarrow> False | Some published \<Rightarrow> published, s))"

definition validate_coordinator :: "oid \<Rightarrow> worker_store \<Rightarrow> bool" where
  "validate_coordinator d s = (case coordinator_table s d of None \<Rightarrow> False | Some c \<Rightarrow> has_reconciliation_authority c)"

subsection \<open>Stops\<close>

definition terminate_process :: "int \<Rightarrow> worker_store \<Rightarrow> worker_store" where
  "terminate_process p s = (if 0 < p then send (Terminate p) s else s)"

definition drop_coordinator :: "oid \<Rightarrow> coordinator_slot \<Rightarrow> unit store_act" where
  "drop_coordinator d c s =
     (if coord_database_oid c = d
      then let c = coord_prepare_for_drop c in replace_coordinator c (terminate_process (coord_pid c) s)
      else (Inr (), s))"

definition drop_worker :: "(worker_slot \<Rightarrow> bool) \<Rightarrow> worker_slot \<Rightarrow> unit store_act" where
  "drop_worker affected w s =
     (if affected w
      then let (stopped, w) = prepare_transactional_stop w
           in if stopped then replace_worker w (terminate_process (pid w) s) else (Inr (), s)
      else (Inr (), s))"

definition prepare_drop_database :: "hash_env \<Rightarrow> oid \<Rightarrow> unit store_act" where
  "prepare_drop_database H d s =
     bind_act (for_act (drop_coordinator d) (table_snapshots (scan_coordinators H) (coordinator_table s)))
       (\<lambda>_ s. for_act (drop_worker (\<lambda>w. database_oid w = d)) (table_snapshots (scan_workers H) (worker_table s)) s) s"

definition prepare_drop_extension :: "hash_env \<Rightarrow> oid \<Rightarrow> oid \<Rightarrow> unit store_act" where
  "prepare_drop_extension H d extension s =
     bind_act (for_act (drop_coordinator d) (table_snapshots (scan_coordinators H) (coordinator_table s)))
       (\<lambda>_ s. for_act (drop_worker (\<lambda>w. database_oid w = d \<and> extension_oid w = extension))
                (table_snapshots (scan_workers H) (worker_table s)) s) s"

definition request_stop_worker :: "oid \<Rightarrow> int \<Rightarrow> bool store_act" where
  "request_stop_worker d worker s =
     (let key = \<lparr> key_database_oid = d, key_worker_id = worker \<rparr> in
      bind_act (case worker_table s key of None \<Rightarrow> ok_act () | Some w \<Rightarrow> drop_worker (\<lambda>_. True) w)
        (\<lambda>_ s. case coordinator_table s d of
            None \<Rightarrow> (Inr False, s)
          | Some c \<Rightarrow>
              let c = coord_request_handoff c in
              bind_act (replace_coordinator c)
                (\<lambda>_ s. if coord_proc_number c \<noteq> invalid_proc_number
                       then (Inr False, send (Latch (coord_proc_number c)) s) else (Inr True, s)) s) s)"

text \<open>\<open>StopController\<close>: the operation, then the supervisor is woken.\<close>

definition prepare_database_drop :: "hash_env \<Rightarrow> oid \<Rightarrow> unit store_act" where
  "prepare_database_drop H d = bind_act (prepare_drop_database H d) (\<lambda>_ s. (Inr (), signal_supervisor s))"

definition prepare_extension_drop :: "hash_env \<Rightarrow> oid \<Rightarrow> oid \<Rightarrow> unit store_act" where
  "prepare_extension_drop H d extension =
     bind_act (prepare_drop_extension H d extension) (\<lambda>_ s. (Inr (), signal_supervisor s))"

definition stop_worker :: "oid \<Rightarrow> int \<Rightarrow> unit store_act" where
  "stop_worker d worker =
     bind_act (request_stop_worker d worker) (\<lambda>wake s. (Inr (), if wake then signal_supervisor s else s))"

subsection \<open>Sweeps\<close>

text \<open>
  The loop that retires the slots of workers that are gone: a slot with an active process is marked
  removing, the others are removed after the scan.
\<close>

definition sweep_workers :: "hash_env \<Rightarrow> (worker_slot \<Rightarrow> bool) \<Rightarrow> worker_store \<Rightarrow> worker_store" where
  "sweep_workers H gone s =
     (let (m, remove) = table_for_each_mut (scan_workers H)
            (\<lambda>w remove. if gone w
               then (if has_active_process w then (mark_removing w, remove) else (w, remove @ [slot_key w]))
               else (w, remove)) (worker_table s) []
      in s \<lparr> worker_table := fold (\<lambda>k m. snd (table_remove k m)) remove m \<rparr>)"

definition remove_dropped_databases :: "hash_env \<Rightarrow> oid set \<Rightarrow> worker_store \<Rightarrow> worker_store" where
  "remove_dropped_databases H live s =
     (let (m, dropped) = table_for_each_mut (scan_coordinators H)
            (\<lambda>c dropped. if coord_database_oid c \<notin> live
               then (if process_is_active (coord_process c) then (coord_request_stop c, dropped)
                     else (c, dropped @ [coord_database_oid c]))
               else (c, dropped)) (coordinator_table s) [];
          s = s \<lparr> coordinator_table := fold (\<lambda>d m. snd (table_remove d m)) dropped m \<rparr>
      in sweep_workers H (\<lambda>w. database_oid w \<notin> live) s)"

definition clear_database_workers :: "hash_env \<Rightarrow> oid \<Rightarrow> worker_store \<Rightarrow> worker_store" where
  "clear_database_workers H d = sweep_workers H (\<lambda>w. database_oid w = d)"

subsection \<open>Workers\<close>

record worker_registration =
  reg_worker_id :: int
  reg_owner_oid :: oid
  reg_worker_name :: string

definition reconcile_one :: "hash_env \<Rightarrow> oid \<Rightarrow> worker_registration \<Rightarrow> unit store_act" where
  "reconcile_one H d r s =
     (let key = \<lparr> key_database_oid = d, key_worker_id = reg_worker_id r \<rparr>;
          (present, t) = with_worker key (\<lambda>w. ((), reconcile_present w)) s
      in if present \<noteq> None then (Inr (), t)
         else case table_get_or_insert (hash_full H s) key (new_slot key) (worker_table s) of
             None \<Rightarrow> (Inl OutOfSharedMemory, s)
           | Some (w, m) \<Rightarrow>
               let s = s \<lparr> worker_table := m \<rparr> in
               (case initialize_registration (reg_owner_oid r) (reg_worker_name r) w of
                  None \<Rightarrow> (Inl (Panicked ''worker name''), s)
                | Some w \<Rightarrow> replace_worker (slot_request_wakeup w) s))"

definition reconcile_registrations :: "hash_env \<Rightarrow> oid \<Rightarrow> worker_registration list \<Rightarrow> bool store_act" where
  "reconcile_registrations H d registrations s =
     (if \<not> (case coordinator_table s d of None \<Rightarrow> False | Some c \<Rightarrow> has_reconciliation_authority c) then (Inr False, s)
      else bind_act (for_act (reconcile_one H d) registrations)
        (\<lambda>_ s. (Inr True, sweep_workers H
            (\<lambda>w. database_oid w = d \<and> worker_id w \<notin> set (map reg_worker_id registrations)) s)) s)"

record worker_launch =
  launch_key :: worker_key
  launch_identity :: worker_identity

datatype worker_launch_registration = LaunchRegistered worker_launch | LaunchFailed worker_launch

definition capacity_retry :: duration where "capacity_retry = from_millis 100"

definition find_ready :: "hash_env \<Rightarrow> oid \<Rightarrow> int \<Rightarrow> worker_store \<Rightarrow> worker_launch option" where
  "find_ready H d now s = table_for_each (scan_workers H)
     (\<lambda>w launch. if launch \<noteq> None \<or> database_oid w \<noteq> d \<or> restart_delay w now \<noteq> Some 0 then launch
        else Some \<lparr> launch_key = slot_key w, launch_identity = slot_identity w \<rparr>) (worker_table s) None"

text \<open>\<open>accepted\<close> is the answer of \<open>RegisterDynamicBackgroundWorker\<close>, \<open>later\<close> the clock after it.\<close>

definition register_ready_worker ::
  "hash_env \<Rightarrow> (worker_key \<Rightarrow> bool) \<Rightarrow> int \<Rightarrow> int \<Rightarrow> oid \<Rightarrow> worker_launch_registration option store_act" where
  "register_ready_worker H accepted now later d s =
     (if \<not> (case coordinator_table s d of None \<Rightarrow> False | Some c \<Rightarrow> has_reconciliation_authority c) then (Inr None, s)
      else case find_ready H d now s of
        None \<Rightarrow> (Inr None, s)
      | Some launch \<Rightarrow>
          if accepted (launch_key launch)
          then case with_worker (launch_key launch) (\<lambda>w. ((), prepare_start w)) s of
              (None, s) \<Rightarrow> (Inl (Panicked ''eligible worker disappeared''), s)
            | (Some _, s) \<Rightarrow> (Inr (Some (LaunchRegistered launch)), s)
          else case with_worker (launch_key launch) (registration_failed later capacity_retry) s of
              (None, s) \<Rightarrow> (Inl (Panicked ''eligible worker disappeared''), s)
            | (Some delayed, s) \<Rightarrow>
                if delayed then (Inr (Some (LaunchFailed launch)), s)
                else (Inl (Panicked ''eligible worker rejected registration failure''), s))"

definition worker_registration_failed :: "int \<Rightarrow> worker_key \<Rightarrow> worker_store \<Rightarrow> worker_store" where
  "worker_registration_failed now k s = snd (with_worker k (registration_failed now capacity_retry) s)"

definition begin_worker :: "int \<Rightarrow> int \<Rightarrow> worker_key \<Rightarrow> worker_store \<Rightarrow> worker_identity option \<times> worker_store" where
  "begin_worker p now k s =
     (case with_worker k (\<lambda>w. let (published, w) = slot_mark_running p now w in ((published, slot_identity w), w)) s of
        (None, s) \<Rightarrow> (None, s)
      | (Some (published, identity), s) \<Rightarrow> (if published then Some identity else None, s))"

definition worker_registration_missing :: "worker_key \<Rightarrow> worker_store \<Rightarrow> worker_store" where
  "worker_registration_missing k s =
     snd (with_worker k (\<lambda>w. ((), if has_active_process w then mark_removing w else w)) s)"

definition validate_worker :: "worker_key \<Rightarrow> worker_store \<Rightarrow> bool" where
  "validate_worker k s = (case worker_table s k of None \<Rightarrow> False | Some w \<Rightarrow> has_active_process w \<and> \<not> stop_requested w)"

datatype process_key = CoordinatorProcess oid | WorkerProcess worker_key

datatype stopped_worker_process = StoppedCoordinator coordinator_stop_disposition | StoppedWorker bool | StaleProcess

definition confirm_process_stopped ::
  "restart_policy \<Rightarrow> int \<Rightarrow> process_key \<Rightarrow> int \<Rightarrow> worker_store \<Rightarrow> stopped_worker_process \<times> worker_store" where
  "confirm_process_stopped policy now key exit_code s = (case key of
       CoordinatorProcess d \<Rightarrow>
         (case with_coordinator d (coord_confirm_stopped exit_code) s of
            (Some (Some completion), s) \<Rightarrow> (StoppedCoordinator completion, s)
          | (_, s) \<Rightarrow> (StaleProcess, s))
     | WorkerProcess k \<Rightarrow>
         (case with_worker k (\<lambda>w. let (disposition, w) = slot_confirm_stopped now policy exit_code w
              in ((disposition, registration w), w)) s of
            (Some (Some disposition, Removing), s) \<Rightarrow>
              (StoppedWorker (disposition = Reconcile), s \<lparr> worker_table := snd (table_remove k (worker_table s)) \<rparr>)
          | (Some (Some disposition, _), s) \<Rightarrow> (StoppedWorker (disposition = Reconcile), s)
          | (_, s) \<Rightarrow> (StaleProcess, s)))"

definition coordinator_exit :: "restart_policy \<Rightarrow> int \<Rightarrow> oid \<Rightarrow> int \<Rightarrow> worker_store \<Rightarrow> coordinator_stop_disposition option \<times> worker_store" where
  "coordinator_exit policy now d code s =
     (case confirm_process_stopped policy now (CoordinatorProcess d) code s of
        (StoppedCoordinator disposition, s) \<Rightarrow> (Some disposition, s)
      | (_, s) \<Rightarrow> (None, s))"

definition worker_exit :: "restart_policy \<Rightarrow> int \<Rightarrow> worker_key \<Rightarrow> int \<Rightarrow> bool store_act" where
  "worker_exit policy now k code s =
     (let (stopped, s) = confirm_process_stopped policy now (WorkerProcess k) code s
      in if stopped = StoppedWorker True then request_database_reconcile (key_database_oid k) s else (Inr False, s))"

definition complete_worker :: "int \<Rightarrow> worker_key \<Rightarrow> worker_schedule \<Rightarrow> bool store_act" where
  "complete_worker now k schedule s =
     (case with_worker k (\<lambda>w. ((), complete_run schedule now w)) s of
        (None, s) \<Rightarrow> (Inr False, s)
      | (Some _, s) \<Rightarrow> if schedule = Idle then (Inr False, s) else request_coordination_locked (key_database_oid k) s)"

text \<open>The exit callbacks of a coordinator and of a worker process.\<close>

definition coordinator_exit_callback :: "restart_policy \<Rightarrow> int \<Rightarrow> int \<Rightarrow> oid \<Rightarrow> worker_store \<Rightarrow> worker_store" where
  "coordinator_exit_callback policy now code d s =
     (let (disposition, s) = coordinator_exit policy now d code s in if disposition = Some HandoffNow then signal_supervisor s else s)"

definition worker_exit_callback :: "restart_policy \<Rightarrow> int \<Rightarrow> int \<Rightarrow> worker_key \<Rightarrow> unit store_act" where
  "worker_exit_callback policy now code k =
     bind_act (worker_exit policy now k code) (\<lambda>wake s. (Inr (), if wake then signal_supervisor s else s))"

subsection \<open>Queries\<close>

definition next_database_worker_start_delay :: "hash_env \<Rightarrow> int \<Rightarrow> oid \<Rightarrow> worker_store \<Rightarrow> duration option" where
  "next_database_worker_start_delay H now d s = table_for_each (scan_workers H)
     (\<lambda>w minimum. if database_oid w \<noteq> d then minimum
        else case restart_delay w now of None \<Rightarrow> minimum
          | Some delay \<Rightarrow> Some (case minimum of None \<Rightarrow> delay | Some current \<Rightarrow> min current delay)) (worker_table s) None"

definition requested_databases :: "hash_env \<Rightarrow> worker_store \<Rightarrow> oid list" where
  "requested_databases H s = table_for_each (scan_coordinators H)
     (\<lambda>c requested. if coord_needs_restart c \<and> coord_process c = Stopped then requested @ [coord_database_oid c] else requested)
     (coordinator_table s) []"

definition all_worker_databases :: "hash_env \<Rightarrow> worker_store \<Rightarrow> oid set" where
  "all_worker_databases H s = table_for_each (scan_workers H)
     (\<lambda>w seen. if registration w = Registered \<or> registration w = Removing then insert (database_oid w) seen else seen)
     (worker_table s) {}"

record worker_status =
  status_identity :: worker_identity
  status_registration :: string
  status_process :: string
  status_pid :: "int option"
  status_needs_restart :: bool
  status_restart_after_ms :: "int option"
  status_failure_count :: int
  status_stop_requested :: bool

definition worker_status_of :: "worker_slot \<Rightarrow> worker_status" where
  "worker_status_of w = \<lparr> status_identity = slot_identity w, status_registration = registration_str (registration w),
     status_process = process_str (process w), status_pid = (if 0 < pid w then Some (pid w) else None),
     status_needs_restart = needs_restart w,
     status_restart_after_ms = (if needs_restart w \<and> 0 < restart_after_ms w then Some (restart_after_ms w) else None),
     status_failure_count = failure_count w, status_stop_requested = stop_requested w \<rparr>"

definition list_worker_status :: "hash_env \<Rightarrow> worker_store \<Rightarrow> worker_status list" where
  "list_worker_status H s = map worker_status_of (table_snapshots (scan_workers H) (worker_table s))"

record process_status =
  status_kind :: string
  status_database_oid :: "oid option"
  status_state :: string
  status_process_pid :: "int option"
  status_process_needs_restart :: "bool option"

definition list_process_status :: "hash_env \<Rightarrow> worker_store \<Rightarrow> process_status list" where
  "list_process_status H s =
     (let p = supervisor_pid (shared s) in
      \<lparr> status_kind = ''supervisor'', status_database_oid = None, status_state = (if 0 < p then ''running'' else ''stopped''),
        status_process_pid = (if 0 < p then Some p else None), status_process_needs_restart = None \<rparr>
      # map (\<lambda>c. \<lparr> status_kind = ''coordinator'', status_database_oid = Some (coord_database_oid c),
          status_state = process_str (coord_process c), status_process_pid = (if 0 < coord_pid c then Some (coord_pid c) else None),
          status_process_needs_restart = Some (coord_needs_restart c) \<rparr>)
        (table_snapshots (scan_coordinators H) (coordinator_table s)))"

end
