(* ===== verification/Worker_Runs.thy ===== *)
theory Worker_Runs
  imports Worker_Store "HOL-Library.Product_Lexorder"
begin

text \<open>
  Runs of the worker runtime: any interleaving of the operations of the store, each atomic under the
  shared-state lock. The slots of the tables evolve by the steps of their own state machines; from this
  follow that no assertion of the store fails, that a DROP revokes the authority of the running
  coordinator for good, and that a coordination request is kept until it is taken up.
\<close>

section \<open>Tables\<close>

text \<open>What PostgreSQL promises of a scan: every entry of a table is visited exactly once.\<close>

definition scan_law :: "(('k \<rightharpoonup> 'e) \<Rightarrow> 'k list) \<Rightarrow> bool" where
  "scan_law scan \<longleftrightarrow> (\<forall>m. finite (dom m) \<longrightarrow> distinct (scan m) \<and> set (scan m) = dom m)"

definition hash_laws :: "hash_env \<Rightarrow> bool" where
  "hash_laws H \<longleftrightarrow> scan_law (scan_coordinators H) \<and> scan_law (scan_workers H)"

lemma fold_for_each_mut:
  assumes "distinct ks"
  shows "fold (\<lambda>k (m, a). case m k of None \<Rightarrow> (m, a) | Some e \<Rightarrow> let (e, a) = (g e, h e a) in (m(k \<mapsto> e), a)) ks (m, a)
    = (\<lambda>k. if k \<in> set ks then map_option g (m k) else m k, fold h (List.map_filter m ks) a)"
  using assms
proof (induction ks arbitrary: m a)
  case (Cons k ks)
  have "List.map_filter (m(k \<mapsto> e)) ks = List.map_filter m ks" for e
    using Cons.prems by (auto simp: List.map_filter_def intro!: map_cong filter_cong)
  with Cons show ?case
    by (cases "m k") (auto simp: fun_eq_iff List.map_filter_simps)
qed (simp add: List.map_filter_simps)

lemma table_for_each_mut_eq:
  assumes "scan_law scan" and "finite (dom m)"
  shows "table_for_each_mut scan (\<lambda>e a. (g e, h e a)) m a = (\<lambda>k. map_option g (m k), fold h (List.map_filter m (scan m)) a)"
proof -
  have "distinct (scan m)" "set (scan m) = dom m" using assms by (simp_all add: scan_law_def)
  with fold_for_each_mut [of "scan m" g h m a] show ?thesis
    by (auto simp: table_for_each_mut_def fun_eq_iff dom_def)
qed

lemma set_snapshots:
  assumes "scan_law scan" and "finite (dom m)"
  shows "set (List.map_filter m (scan m)) = ran m"
proof -
  have "set (scan m) = dom m" using assms by (simp add: scan_law_def)
  then show ?thesis by (force simp: List.map_filter_def ran_def dom_def)
qed

lemma fold_table_remove: "fold (\<lambda>k m. snd (table_remove k m)) ks m = (\<lambda>k. if k \<in> set ks then None else m k)"
  by (induction ks arbitrary: m) (auto simp: table_remove_def)

lemma fold_collect: "fold (\<lambda>e a. if P e then a @ [f e] else a) es a = a @ map f (filter P es)"
  by (induction es arbitrary: a) auto

text \<open>The entries of a table sit under their own keys.\<close>

definition keyed :: "('e \<Rightarrow> 'k) \<Rightarrow> ('k \<rightharpoonup> 'e) \<Rightarrow> bool" where
  "keyed key m \<longleftrightarrow> finite (dom m) \<and> (\<forall>k e. m k = Some e \<longrightarrow> key e = k)"

text \<open>A scan that retires the entries that are gone, keeping and changing those still busy.\<close>

lemma sweep_eq:
  assumes "scan_law scan" and "keyed key m" and "\<And>e. key (mark e) = key e"
    and "table_for_each_mut scan (\<lambda>e a. if gone e then (if busy e then (mark e, a) else (e, a @ [key e])) else (e, a)) m []
      = (m', remove)"
  shows "fold (\<lambda>k m. snd (table_remove k m)) remove m'
    = (\<lambda>k. case m k of None \<Rightarrow> None
        | Some e \<Rightarrow> if gone e then (if busy e then Some (mark e) else None) else Some e)"
proof -
  have fin: "finite (dom m)" and key: "\<And>k e. m k = Some e \<Longrightarrow> key e = k"
    using assms(2) by (simp_all add: keyed_def)
  have f: "(\<lambda>e a. if gone e then (if busy e then (mark e, a) else (e, a @ [key e])) else (e, a))
      = (\<lambda>e a. (if gone e \<and> busy e then mark e else e, if gone e \<and> \<not> busy e then a @ [key e] else a))"
    by (auto simp: fun_eq_iff)
  have m': "m' = (\<lambda>k. map_option (\<lambda>e. if gone e \<and> busy e then mark e else e) (m k))"
    and r: "remove = map key (filter (\<lambda>e. gone e \<and> \<not> busy e) (List.map_filter m (scan m)))"
    using assms(4) unfolding f table_for_each_mut_eq [OF assms(1) fin] fold_collect by auto
  have mem: "k \<in> set remove \<longleftrightarrow> (\<exists>e. m k = Some e \<and> gone e \<and> \<not> busy e)" for k
    using set_snapshots [OF assms(1) fin] key by (auto simp: r ran_def)
  show ?thesis
    unfolding fold_table_remove by (rule ext) (auto simp: mem m' split: option.splits)
qed

section \<open>Events\<close>

datatype store_event =
    ClaimSupervisor int int | ClearSupervisor | TakeFullScan | RemoveDropped "oid set"
  | WakeWorker worker_key | WakeDatabase oid | ReconcileDatabase oid | FullRescan
  | RegisterCoordinator bool oid | CoordinatorStartFailed oid | BeginCoordinator int int oid | CoordinatorExit restart_policy int int oid
  | DropDatabase oid | DropExtension oid oid | StopWorker oid int
  | ReconcileRegistrations oid "worker_registration list" | ClearWorkers oid | Launch "worker_key \<Rightarrow> bool" int int oid
  | WorkerStartFailed int worker_key | BeginWorker int int worker_key | RegistrationMissing worker_key
  | WorkerExit restart_policy int int worker_key | CompleteWorker int worker_key worker_schedule

definition discard :: "'a store_act \<Rightarrow> unit store_act" where
  "discard m s = (let (r, s) = m s in (case r of Inl e \<Rightarrow> Inl e | Inr _ \<Rightarrow> Inr (), s))"

definition effect_act :: "(worker_store \<Rightarrow> worker_store) \<Rightarrow> unit store_act" where
  "effect_act f s = (Inr (), f s)"

fun store_op :: "hash_env \<Rightarrow> store_event \<Rightarrow> unit store_act" where
  "store_op H (ClaimSupervisor p n) = effect_act (claim_supervisor p n)"
| "store_op H ClearSupervisor = effect_act clear_supervisor"
| "store_op H TakeFullScan = effect_act (\<lambda>s. snd (take_full_scan_request s))"
| "store_op H (RemoveDropped live) = effect_act (remove_dropped_databases H live)"
| "store_op H (WakeWorker k) = discard (wake_worker k)"
| "store_op H (WakeDatabase d) = discard (wake_database_workers H d)"
| "store_op H (ReconcileDatabase d) = discard (request_database_reconcile d)"
| "store_op H FullRescan = effect_act (\<lambda>s. snd (request_full_rescan s))"
| "store_op H (RegisterCoordinator accepted d) = discard (register_coordinator H accepted d)"
| "store_op H (CoordinatorStartFailed d) = effect_act (coordinator_registration_failed d)"
| "store_op H (BeginCoordinator p n d) = effect_act (\<lambda>s. snd (begin_coordinator p n d s))"
| "store_op H (CoordinatorExit policy now code d) = effect_act (coordinator_exit_callback policy now code d)"
| "store_op H (DropDatabase d) = prepare_database_drop H d"
| "store_op H (DropExtension d extension) = prepare_extension_drop H d extension"
| "store_op H (StopWorker d worker) = stop_worker d worker"
| "store_op H (ReconcileRegistrations d registrations) = discard (reconcile_registrations H d registrations)"
| "store_op H (ClearWorkers d) = effect_act (clear_database_workers H d)"
| "store_op H (Launch accepted now later d) = discard (register_ready_worker H accepted now later d)"
| "store_op H (WorkerStartFailed now k) = effect_act (worker_registration_failed now k)"
| "store_op H (BeginWorker p now k) = effect_act (\<lambda>s. snd (begin_worker p now k s))"
| "store_op H (RegistrationMissing k) = effect_act (worker_registration_missing k)"
| "store_op H (WorkerExit policy now code k) = worker_exit_callback policy now code k"
| "store_op H (CompleteWorker now k schedule) = discard (complete_worker now k schedule)"

definition store_step :: "hash_env \<Rightarrow> store_event \<Rightarrow> worker_store \<Rightarrow> worker_store" where
  "store_step H e s = snd (store_op H e s)"

text \<open>
  What the callers guarantee: process identifiers are positive, a name read from the catalog fits its
  slot, and the clock does not run backwards inside one operation.
\<close>

definition event_ok :: "store_event \<Rightarrow> bool" where
  "event_ok e = (case e of
       BeginWorker p now k \<Rightarrow> 0 < p
     | ReconcileRegistrations d registrations \<Rightarrow> list_all (\<lambda>r. length (reg_worker_name r) \<le> max_worker_name_bytes) registrations
     | Launch accepted now later d \<Rightarrow> now \<le> later
     | _ \<Rightarrow> True)"

inductive store_reachable :: "hash_env \<Rightarrow> worker_store \<Rightarrow> bool" for H where
  start: "store_reachable H new_store"
| step: "store_reachable H s \<Longrightarrow> event_ok e \<Longrightarrow> store_reachable H (store_step H e s)"

section \<open>Moves of the slots\<close>

text \<open>The steps of a coordinator slot other than its reservation; \<open>dropped\<close> are the databases found missing.\<close>

inductive coord_step :: "oid set \<Rightarrow> coordinator_slot \<Rightarrow> coordinator_slot \<Rightarrow> bool" for dropped where
  restart: "coord_step dropped c (coord_request_restart c)"
| stop: "coord_database_oid c \<in> dropped \<Longrightarrow> coord_step dropped c (coord_request_stop c)"
| handoff: "coord_step dropped c (coord_request_handoff c)"
| running: "coord_step dropped c (snd (coord_mark_running p n c))"
| exited: "coord_step dropped c (snd (coord_confirm_stopped code c))"
| reset: "process_is_active (coord_process c) \<Longrightarrow> coord_step dropped c (coord_reset_after_registration_failure c)"

definition coord_ok :: "coordinator_slot \<Rightarrow> bool" where
  "coord_ok c \<longleftrightarrow> coord_process c \<noteq> NotStarted
     \<and> (coord_process c = Stopped \<longrightarrow> coord_pid c = 0 \<and> coord_proc_number c = invalid_proc_number)"

lemmas coord_defs = coord_request_restart_def coord_request_stop_def coord_request_handoff_def coord_mark_running_def
  coord_confirm_stopped_def coord_reset_after_registration_failure_def coord_reserve_def coord_prepare_for_drop_def
  process_is_active_def Let_def

lemma coord_step_keeps:
  assumes "coord_step dropped c c'"
  shows "coord_database_oid c' = coord_database_oid c" and "coord_ok c \<Longrightarrow> coord_ok c'"
    and "\<not> has_reconciliation_authority c \<Longrightarrow> \<not> has_reconciliation_authority c'"
    and "coord_needs_restart c \<Longrightarrow> coord_database_oid c \<notin> dropped \<Longrightarrow> coord_needs_restart c'"
  using assms
  by (induction rule: coord_step.induct)
    (auto simp: coord_defs coord_ok_def has_reconciliation_authority_def)

lemma coord_steps_keep:
  assumes "(coord_step dropped)\<^sup>*\<^sup>* c c'"
  shows "coord_database_oid c' = coord_database_oid c" and "coord_ok c \<Longrightarrow> coord_ok c'"
    and "\<not> has_reconciliation_authority c \<Longrightarrow> \<not> has_reconciliation_authority c'"
    and "coord_needs_restart c \<Longrightarrow> coord_database_oid c \<notin> dropped \<Longrightarrow> coord_needs_restart c'"
  using assms by (induction rule: rtranclp_induct) (auto dest: coord_step_keeps)

text \<open>Events of a worker slot that neither launch its process nor reconcile it with the catalog.\<close>

definition quiet_event :: "slot_event \<Rightarrow> bool" where
  "quiet_event e = (case e of EvReconcile \<Rightarrow> False | EvStart now \<Rightarrow> False | _ \<Rightarrow> True)"

definition quiet_run :: "worker_slot \<Rightarrow> worker_slot \<Rightarrow> bool" where
  "quiet_run w w' \<longleftrightarrow> (\<exists>es. slot_run es w w' \<and> list_all quiet_event es)"

definition stopping :: "worker_slot \<Rightarrow> bool" where
  "stopping w \<longleftrightarrow> (has_active_process w \<longrightarrow> stop_requested w)"

lemma slot_run_append: "slot_run es s t \<Longrightarrow> slot_run fs t u \<Longrightarrow> slot_run (es @ fs) s u"
  by (induction es s t rule: slot_run.induct) (auto intro: slot_run.intros)

lemma quiet_run_refl [simp]: "quiet_run w w"
  unfolding quiet_run_def by (intro exI [of _ "[]"]) (simp add: run_nil)

lemma quiet_run_trans: "quiet_run u v \<Longrightarrow> quiet_run v w \<Longrightarrow> quiet_run u w"
  unfolding quiet_run_def using slot_run_append by (metis list_all_append)

lemma quiet_run_step: "slot_step e w w' \<Longrightarrow> quiet_event e \<Longrightarrow> quiet_run w w'"
  unfolding quiet_run_def by (intro exI [of _ "[e]"]) (auto intro: slot_run.intros)

lemma slot_key_step: "slot_step e w w' \<Longrightarrow> slot_key w' = slot_key w"
proof (induction e w w' rule: slot_step.induct)
  case (complete schedule now s)
  then show ?case by (cases schedule) (simp_all add: complete_run_def slot_key_def)
qed (simp_all add: slot_key_def slot_request_wakeup_eq reconcile_present_eq mark_removing_def slot_request_stop_def
    prepare_start_def slot_mark_running_def prepare_transactional_stop_def slot_confirm_stopped_def settle_stopped_def
    schedule_existing_restart_def registration_failed_eq Let_def)

lemma slot_key_run: "slot_run es w w' \<Longrightarrow> slot_key w' = slot_key w"
  by (induction es w w' rule: slot_run.induct) (auto dest: slot_key_step)

lemma slot_reachable_run: "slot_run es w w' \<Longrightarrow> slot_reachable w \<Longrightarrow> slot_reachable w'"
  by (induction es w w' rule: slot_run.induct) (auto intro: slot_reachable.step)

lemma settle_inactive: "pid s = 0 \<Longrightarrow> \<not> has_active_process (settle_stopped now policy explicit restart normal start s)"
  by (simp add: settle_stopped_def has_active_process_def schedule_existing_restart_def Let_def)

lemma stopping_step:
  assumes "slot_step e w w'" and "quiet_event e" and "stopping w"
  shows "stopping w'"
  using assms
proof (induction e w w' rule: slot_step.induct)
  case (complete schedule now s)
  then show ?case by (cases schedule) (auto simp: complete_run_def stopping_def has_active_process_def)
next
  case (exit s now policy code)
  then show ?case
    by (auto simp: slot_confirm_stopped_def stopping_def settle_inactive Let_def)
next
  case (failed now delay s)
  then show ?case by (simp add: registration_failed_eq stopping_def has_active_process_def)
qed (simp_all add: quiet_event_def stopping_def has_active_process_def slot_request_wakeup_eq mark_removing_def
    slot_request_stop_def slot_mark_running_def prepare_transactional_stop_def Let_def)

lemma stopping_run: "slot_run es w w' \<Longrightarrow> list_all quiet_event es \<Longrightarrow> stopping w \<Longrightarrow> stopping w'"
  by (induction es w w' rule: slot_run.induct) (auto dest: stopping_step)

lemma quiet_run_keeps:
  assumes "quiet_run w w'"
  shows "slot_key w' = slot_key w" and "slot_reachable w \<Longrightarrow> slot_reachable w'" and "stopping w \<Longrightarrow> stopping w'"
  using assms by (auto simp: quiet_run_def intro: slot_key_run slot_reachable_run stopping_run)

text \<open>The quiet steps the store makes.\<close>

lemma quiet_steps [simp, intro]:
  "quiet_run w (slot_request_wakeup w)"
  "has_active_process w \<Longrightarrow> quiet_run w (mark_removing w)"
  "0 < p \<Longrightarrow> quiet_run w (snd (slot_mark_running p now w))"
  "quiet_run w (complete_run schedule now w)"
  "quiet_run w (snd (prepare_transactional_stop w))"
  "registration w = Registered \<Longrightarrow> quiet_run w (snd (slot_confirm_stopped now policy code w))"
  "quiet_run w (snd (registration_failed now delay w))"
  by (rule quiet_run_step, rule slot_step.intros, simp, simp add: quiet_event_def |
      rule quiet_run_step, rule slot_step.intros, simp add: quiet_event_def)+

section \<open>Moves of the store\<close>

text \<open>
  A move that is quiet for the database \<open>d\<close>: its coordinator is not reserved anew and forgotten only if
  the database is \<open>dropped\<close>; none of its workers is created, launched or reconciled.
\<close>

definition quiet_on :: "oid set \<Rightarrow> oid \<Rightarrow> worker_store \<Rightarrow> worker_store \<Rightarrow> bool" where
  "quiet_on dropped d s t \<longleftrightarrow>
     (case coordinator_table s d of
        None \<Rightarrow> coordinator_table t d = None
      | Some c \<Rightarrow> (case coordinator_table t d of None \<Rightarrow> d \<in> dropped | Some c' \<Rightarrow> (coord_step dropped)\<^sup>*\<^sup>* c c'))
   \<and> (\<forall>k w'. key_database_oid k = d \<longrightarrow> worker_table t k = Some w' \<longrightarrow> (\<exists>w. worker_table s k = Some w \<and> quiet_run w w'))"

lemma quiet_on_refl:
  "coordinator_table t d = coordinator_table s d \<Longrightarrow> (\<And>k. key_database_oid k = d \<Longrightarrow> worker_table t k = worker_table s k)
    \<Longrightarrow> quiet_on dropped d s t"
  by (auto simp: quiet_on_def split: option.splits)

lemma quiet_on_coordinator:
  "quiet_on dropped d s t \<Longrightarrow> coordinator_table t d = Some c' \<Longrightarrow> \<exists>c. coordinator_table s d = Some c \<and> (coord_step dropped)\<^sup>*\<^sup>* c c'"
  "quiet_on dropped d s t \<Longrightarrow> coordinator_table s d = None \<Longrightarrow> coordinator_table t d = None"
  "quiet_on dropped d s t \<Longrightarrow> coordinator_table s d = Some c \<Longrightarrow> coordinator_table t d = None \<Longrightarrow> d \<in> dropped"
  by (simp_all add: quiet_on_def split: option.splits)

lemma quiet_on_worker:
  "quiet_on dropped d s t \<Longrightarrow> key_database_oid k = d \<Longrightarrow> worker_table t k = Some w' \<Longrightarrow> \<exists>w. worker_table s k = Some w \<and> quiet_run w w'"
  by (simp add: quiet_on_def)

lemma quiet_onI:
  assumes "\<And>c'. coordinator_table t d = Some c' \<Longrightarrow> \<exists>c. coordinator_table s d = Some c \<and> (coord_step dropped)\<^sup>*\<^sup>* c c'"
    and "\<And>c. coordinator_table s d = Some c \<Longrightarrow> coordinator_table t d = None \<Longrightarrow> d \<in> dropped"
    and "\<And>k w'. key_database_oid k = d \<Longrightarrow> worker_table t k = Some w' \<Longrightarrow> \<exists>w. worker_table s k = Some w \<and> quiet_run w w'"
  shows "quiet_on dropped d s t"
proof -
  have "case coordinator_table s d of
        None \<Rightarrow> coordinator_table t d = None
      | Some c \<Rightarrow> (case coordinator_table t d of None \<Rightarrow> d \<in> dropped | Some c' \<Rightarrow> (coord_step dropped)\<^sup>*\<^sup>* c c')"
    using assms(1,2) by (cases "coordinator_table s d"; cases "coordinator_table t d") auto
  with assms(3) show ?thesis by (simp add: quiet_on_def)
qed

lemma quiet_on_trans:
  assumes "quiet_on dropped d s t" and "quiet_on dropped d t u"
  shows "quiet_on dropped d s u"
proof (rule quiet_onI)
  fix c' assume "coordinator_table u d = Some c'"
  then show "\<exists>c. coordinator_table s d = Some c \<and> (coord_step dropped)\<^sup>*\<^sup>* c c'"
    using quiet_on_coordinator(1) [OF assms(2)] quiet_on_coordinator(1) [OF assms(1)] by (meson rtranclp_trans)
next
  fix c assume "coordinator_table s d = Some c" "coordinator_table u d = None"
  then show "d \<in> dropped"
    using quiet_on_coordinator(3) [OF assms(1)] quiet_on_coordinator(3) [OF assms(2)]
    by (cases "coordinator_table t d") auto
next
  fix k w' assume k: "key_database_oid k = d" and "worker_table u k = Some w'"
  then obtain v where "worker_table t k = Some v" "quiet_run v w'" using quiet_on_worker [OF assms(2) k] by blast
  moreover from this obtain w where "worker_table s k = Some w" "quiet_run w v" using quiet_on_worker [OF assms(1) k] by blast
  ultimately show "\<exists>w. worker_table s k = Some w \<and> quiet_run w w'" using quiet_run_trans by blast
qed

text \<open>The part of the store that belongs to a database is in order.\<close>

definition database_ok :: "oid \<Rightarrow> worker_store \<Rightarrow> bool" where
  "database_ok d s \<longleftrightarrow> (\<forall>c. coordinator_table s d = Some c \<longrightarrow> coord_database_oid c = d \<and> coord_ok c)
     \<and> (\<forall>k w. key_database_oid k = d \<longrightarrow> worker_table s k = Some w \<longrightarrow> slot_key w = k \<and> slot_reachable w)"

definition store_ok :: "worker_store \<Rightarrow> bool" where
  "store_ok s \<longleftrightarrow> finite (dom (coordinator_table s)) \<and> finite (dom (worker_table s)) \<and> (\<forall>d. database_ok d s)"

lemma database_ok_worker:
  "database_ok d s \<Longrightarrow> key_database_oid k = d \<Longrightarrow> worker_table s k = Some w \<Longrightarrow> slot_key w = k \<and> slot_reachable w"
  by (simp add: database_ok_def)

lemma database_ok_quiet:
  assumes "quiet_on dropped d s t" and "database_ok d s"
  shows "database_ok d t"
proof -
  have "coord_database_oid c = d \<and> coord_ok c" if "coordinator_table t d = Some c" for c
    using quiet_on_coordinator(1) [OF assms(1) that] assms(2) coord_steps_keep(1,2)
    by (auto simp: database_ok_def)
  moreover have "slot_key w = k \<and> slot_reachable w" if "key_database_oid k = d" "worker_table t k = Some w" for k w
    using quiet_on_worker [OF assms(1) that] assms(2) that(1) quiet_run_keeps(1,2)
    by (auto simp: database_ok_def)
  ultimately show ?thesis by (simp add: database_ok_def)
qed

lemma store_ok_quiet:
  assumes "\<And>d. quiet_on dropped d s t" and "store_ok s"
  shows "store_ok t"
proof -
  have "dom (coordinator_table t) \<subseteq> dom (coordinator_table s)"
    using quiet_on_coordinator(1) [OF assms(1)] by blast
  moreover have "dom (worker_table t) \<subseteq> dom (worker_table s)"
    using quiet_on_worker [OF assms(1) refl] by blast
  ultimately show ?thesis
    using assms(2) database_ok_quiet [OF assms(1)] by (auto simp: store_ok_def intro: finite_subset)
qed

lemma store_ok_keyed: "store_ok s \<Longrightarrow> keyed coord_database_oid (coordinator_table s) \<and> keyed slot_key (worker_table s)"
  by (auto simp: store_ok_def keyed_def database_ok_def)

section \<open>Effects of the operations\<close>

lemma store_unchanged [simp]:
  "coordinator_table (send sig s) = coordinator_table s" "worker_table (send sig s) = worker_table s"
  "coordinator_table (set_rescan_all b s) = coordinator_table s" "worker_table (set_rescan_all b s) = worker_table s"
  "coordinator_table (signal_supervisor s) = coordinator_table s" "worker_table (signal_supervisor s) = worker_table s"
  "coordinator_table (terminate_process p s) = coordinator_table s" "worker_table (terminate_process p s) = worker_table s"
  "coordinator_table (claim_supervisor p n s) = coordinator_table s" "worker_table (claim_supervisor p n s) = worker_table s"
  "coordinator_table (clear_supervisor s) = coordinator_table s" "worker_table (clear_supervisor s) = worker_table s"
  "coordinator_table (snd (take_full_scan_request s)) = coordinator_table s" "worker_table (snd (take_full_scan_request s)) = worker_table s"
  "coordinator_table (snd (request_full_rescan s)) = coordinator_table s" "worker_table (snd (request_full_rescan s)) = worker_table s"
  by (simp_all add: send_def set_rescan_all_def signal_supervisor_def terminate_process_def claim_supervisor_def
      clear_supervisor_def take_full_scan_request_def request_full_rescan_def Let_def)

lemma with_coordinator_eq:
  "with_coordinator d f s = (map_option (\<lambda>c. fst (f c)) (coordinator_table s d),
     s \<lparr> coordinator_table := (coordinator_table s)(d := map_option (\<lambda>c. snd (f c)) (coordinator_table s d)) \<rparr>)"
  by (cases "coordinator_table s d") (auto simp: with_coordinator_def table_with_mut_def fun_upd_idem split: prod.splits)

lemma with_worker_eq:
  "with_worker k f s = (map_option (\<lambda>w. fst (f w)) (worker_table s k),
     s \<lparr> worker_table := (worker_table s)(k := map_option (\<lambda>w. snd (f w)) (worker_table s k)) \<rparr>)"
  by (cases "worker_table s k") (auto simp: with_worker_def table_with_mut_def fun_upd_idem split: prod.splits)

lemma quiet_on_coordinators:
  assumes "coordinator_table t = (coordinator_table s)(d := map_option g (coordinator_table s d))"
    and "worker_table t = worker_table s" and "\<And>c. coordinator_table s d = Some c \<Longrightarrow> (coord_step dropped)\<^sup>*\<^sup>* c (g c)"
  shows "quiet_on dropped e s t"
  using assms(3) by (intro quiet_onI) (auto simp: assms(1,2) split: if_splits)

lemma quiet_on_workers:
  assumes "worker_table t = (worker_table s)(k := map_option g (worker_table s k))"
    and "coordinator_table t = coordinator_table s" and "\<And>w. worker_table s k = Some w \<Longrightarrow> quiet_run w (g w)"
  shows "quiet_on dropped e s t"
  using assms(3) by (intro quiet_onI) (auto simp: assms(1,2) split: if_splits)

lemma with_coordinator_quiet:
  "(\<And>c. coordinator_table s d = Some c \<Longrightarrow> (coord_step dropped)\<^sup>*\<^sup>* c (snd (f c))) \<Longrightarrow> quiet_on dropped e s (snd (with_coordinator d f s))"
  by (rule quiet_on_coordinators) (auto simp: with_coordinator_eq)

lemma with_worker_quiet:
  "(\<And>w. worker_table s k = Some w \<Longrightarrow> quiet_run w (snd (f w))) \<Longrightarrow> quiet_on dropped e s (snd (with_worker k f s))"
  by (rule quiet_on_workers) (auto simp: with_worker_eq)

lemma replace_coordinator_eq:
  "coordinator_table s (coord_database_oid c') = Some c \<Longrightarrow>
     replace_coordinator c' s = (Inr (), s \<lparr> coordinator_table := (coordinator_table s)(coord_database_oid c' \<mapsto> c') \<rparr>)"
  by (simp add: replace_coordinator_def table_replace_def table_with_mut_def)

lemma replace_worker_eq:
  "worker_table s (slot_key w') = Some w \<Longrightarrow>
     replace_worker w' s = (Inr (), s \<lparr> worker_table := (worker_table s)(slot_key w' \<mapsto> w') \<rparr>)"
  by (simp add: replace_worker_def table_replace_def table_with_mut_def)

text \<open>Where the coordination request for a database is kept.\<close>

lemma request_coordination_eq:
  assumes "database_ok d s"
  shows "\<exists>wake t. request_coordination_locked d s = (Inr wake, t) \<and> worker_table t = worker_table s
    \<and> coordinator_table t = (coordinator_table s)(d := (if d = invalid_oid then coordinator_table s d
        else map_option coord_request_restart (coordinator_table s d)))
    \<and> (rescan_all (shared s) \<longrightarrow> rescan_all (shared t))
    \<and> (d \<noteq> invalid_oid \<longrightarrow> wake \<longrightarrow> rescan_all (shared t))
    \<and> (d \<noteq> invalid_oid \<longrightarrow> \<not> wake \<longrightarrow> coordinator_table s d \<noteq> None)"
proof (cases "coordinator_table s d")
  case (Some c)
  then have "coord_database_oid (coord_request_restart c) = d"
    using assms by (simp add: database_ok_def coord_request_restart_def)
  then show ?thesis
    using Some replace_coordinator_eq [of s "coord_request_restart c" c]
    by (auto simp: request_coordination_locked_def bind_act_def send_def set_rescan_all_def fun_upd_idem Let_def)
qed (auto simp: request_coordination_locked_def set_rescan_all_def fun_upd_idem)

lemma request_coordination_quiet:
  assumes "database_ok d s"
  shows "quiet_on dropped e s (snd (request_coordination_locked d s))"
proof -
  obtain wake t where t: "request_coordination_locked d s = (Inr wake, t)" "worker_table t = worker_table s"
      "coordinator_table t = (coordinator_table s)(d := (if d = invalid_oid then coordinator_table s d
        else map_option coord_request_restart (coordinator_table s d)))"
    using request_coordination_eq [OF assms] by blast
  have "quiet_on dropped e s t"
  proof (cases "d = invalid_oid")
    case True
    then show ?thesis using t by (intro quiet_on_refl) simp_all
  next
    case False
    then show ?thesis
      using t by (intro quiet_on_coordinators [where g = coord_request_restart]) (auto intro: coord_step.restart)
  qed
  then show ?thesis by (simp add: t(1))
qed

lemma for_act_Cons: "f x s = (Inr (), t) \<Longrightarrow> for_act f (x # xs) s = for_act f xs t"
  by (simp add: bind_act_def)

text \<open>A loop over the entries of a table that replaces each of them in turn.\<close>

lemma replaced_each:
  assumes "m (key e) = Some e" and "key e \<notin> key ` set es"
  shows "(\<lambda>k. case (m(key e \<mapsto> g e)) k of None \<Rightarrow> None | Some x \<Rightarrow> Some (if k \<in> key ` set es then g x else x))
    = (\<lambda>k. case m k of None \<Rightarrow> None | Some x \<Rightarrow> Some (if k \<in> key ` set (e # es) then g x else x))"
proof (rule ext)
  fix k
  show "(case (m(key e \<mapsto> g e)) k of None \<Rightarrow> None | Some x \<Rightarrow> Some (if k \<in> key ` set es then g x else x))
    = (case m k of None \<Rightarrow> None | Some x \<Rightarrow> Some (if k \<in> key ` set (e # es) then g x else x))"
    using assms by (cases "k = key e"; cases "m k") auto
qed

definition dropped_coordinator :: "oid \<Rightarrow> coordinator_slot \<Rightarrow> coordinator_slot" where
  "dropped_coordinator d c = (if coord_database_oid c = d then coord_prepare_for_drop c else c)"

definition dropped_worker :: "(worker_slot \<Rightarrow> bool) \<Rightarrow> worker_slot \<Rightarrow> worker_slot" where
  "dropped_worker affected w = (if affected w then snd (prepare_transactional_stop w) else w)"

lemma drop_coordinator_eq:
  assumes "coordinator_table s (coord_database_oid c) = Some c"
  shows "\<exists>t. drop_coordinator d c s = (Inr (), t) \<and> worker_table t = worker_table s \<and> shared t = shared s
    \<and> coordinator_table t = (coordinator_table s)(coord_database_oid c \<mapsto> dropped_coordinator d c)"
proof (cases "coord_database_oid c = d")
  case True
  let ?c = "coord_prepare_for_drop c"
  have "coord_database_oid ?c = d" using True by (simp add: coord_defs)
  then show ?thesis
    using True assms replace_coordinator_eq [of "terminate_process (coord_pid ?c) s" ?c c]
    by (simp add: drop_coordinator_def dropped_coordinator_def Let_def) (simp add: terminate_process_def send_def)
qed (use assms in \<open>simp add: drop_coordinator_def dropped_coordinator_def fun_upd_idem\<close>)

lemma slot_key_stop [simp]: "slot_key (snd (prepare_transactional_stop w)) = slot_key w"
  by (simp add: prepare_transactional_stop_def slot_request_stop_def slot_key_def Let_def)

lemma drop_worker_eq:
  assumes "worker_table s (slot_key w) = Some w"
  shows "\<exists>t. drop_worker affected w s = (Inr (), t) \<and> coordinator_table t = coordinator_table s \<and> shared t = shared s
    \<and> worker_table t = (worker_table s)(slot_key w \<mapsto> dropped_worker affected w)"
proof (cases "affected w \<and> fst (prepare_transactional_stop w)")
  case True
  let ?w = "snd (prepare_transactional_stop w)"
  have "drop_worker affected w s = replace_worker ?w (terminate_process (pid ?w) s)"
    using True by (auto simp: drop_worker_def split: prod.splits)
  then show ?thesis
    using True assms replace_worker_eq [of "terminate_process (pid ?w) s" ?w w]
    by (simp add: terminate_process_def send_def dropped_worker_def)
next
  case False
  then have "drop_worker affected w s = (Inr (), s)" "dropped_worker affected w = w"
    by (auto simp: drop_worker_def dropped_worker_def prepare_transactional_stop_def split: prod.splits if_splits)
  then show ?thesis using assms by (simp add: fun_upd_idem)
qed

lemma drop_coordinators_eq:
  assumes "distinct (map coord_database_oid cs)" and "\<And>c. c \<in> set cs \<Longrightarrow> coordinator_table s (coord_database_oid c) = Some c"
  shows "\<exists>t. for_act (drop_coordinator d) cs s = (Inr (), t) \<and> worker_table t = worker_table s \<and> shared t = shared s
    \<and> coordinator_table t = (\<lambda>k. case coordinator_table s k of None \<Rightarrow> None
        | Some c \<Rightarrow> Some (if k \<in> coord_database_oid ` set cs then dropped_coordinator d c else c))"
  using assms
proof (induction cs arbitrary: s)
  case Nil
  then show ?case by (auto simp: ok_act_def fun_eq_iff split: option.splits)
next
  case (Cons c cs)
  have c: "coordinator_table s (coord_database_oid c) = Some c" using Cons.prems(2) by simp
  from drop_coordinator_eq [OF c] obtain u where
    u: "drop_coordinator d c s = (Inr (), u)" "worker_table u = worker_table s" "shared u = shared s"
      "coordinator_table u = (coordinator_table s)(coord_database_oid c \<mapsto> dropped_coordinator d c)" by blast
  have other: "coord_database_oid c \<notin> coord_database_oid ` set cs" and dist: "distinct (map coord_database_oid cs)"
    using Cons.prems(1) by auto
  have "coord_database_oid x \<noteq> coord_database_oid c" if "x \<in> set cs" for x
    using that other by (metis imageI)
  then have "coordinator_table u (coord_database_oid x) = Some x" if "x \<in> set cs" for x
    using that Cons.prems(2) by (simp add: u(4))
  from Cons.IH [OF dist this] obtain t where
    t: "for_act (drop_coordinator d) cs u = (Inr (), t)" "worker_table t = worker_table u" "shared t = shared u"
      "coordinator_table t = (\<lambda>k. case coordinator_table u k of None \<Rightarrow> None
        | Some c \<Rightarrow> Some (if k \<in> coord_database_oid ` set cs then dropped_coordinator d c else c))" by auto
  show ?case
    using t(1-3) u(1-3) t(4) [unfolded u(4) replaced_each [of "coordinator_table s", OF c other]]
    by (simp add: for_act_Cons del: for_act.simps)
qed

lemma drop_workers_eq:
  assumes "distinct (map slot_key ws)" and "\<And>w. w \<in> set ws \<Longrightarrow> worker_table s (slot_key w) = Some w"
  shows "\<exists>t. for_act (drop_worker affected) ws s = (Inr (), t) \<and> coordinator_table t = coordinator_table s \<and> shared t = shared s
    \<and> worker_table t = (\<lambda>k. case worker_table s k of None \<Rightarrow> None
        | Some w \<Rightarrow> Some (if k \<in> slot_key ` set ws then dropped_worker affected w else w))"
  using assms
proof (induction ws arbitrary: s)
  case Nil
  then show ?case by (auto simp: ok_act_def fun_eq_iff split: option.splits)
next
  case (Cons w ws)
  have w: "worker_table s (slot_key w) = Some w" using Cons.prems(2) by simp
  from drop_worker_eq [OF w] obtain u where
    u: "drop_worker affected w s = (Inr (), u)" "coordinator_table u = coordinator_table s" "shared u = shared s"
      "worker_table u = (worker_table s)(slot_key w \<mapsto> dropped_worker affected w)" by blast
  have other: "slot_key w \<notin> slot_key ` set ws" and dist: "distinct (map slot_key ws)"
    using Cons.prems(1) by auto
  have "slot_key x \<noteq> slot_key w" if "x \<in> set ws" for x
    using that other by (metis imageI)
  then have "worker_table u (slot_key x) = Some x" if "x \<in> set ws" for x
    using that Cons.prems(2) by (simp add: u(4))
  from Cons.IH [OF dist this] obtain t where
    t: "for_act (drop_worker affected) ws u = (Inr (), t)" "coordinator_table t = coordinator_table u" "shared t = shared u"
      "worker_table t = (\<lambda>k. case worker_table u k of None \<Rightarrow> None
        | Some w \<Rightarrow> Some (if k \<in> slot_key ` set ws then dropped_worker affected w else w))" by auto
  show ?case
    using t(1-3) u(1-3) t(4) [unfolded u(4) replaced_each [of "worker_table s", OF w other]]
    by (simp add: for_act_Cons del: for_act.simps)
qed

lemma snapshots_keyed:
  assumes "scan_law scan" and "keyed key m"
  shows "distinct (map key (table_snapshots scan m))" and "key ` set (table_snapshots scan m) = dom m"
    and "e \<in> set (table_snapshots scan m) \<Longrightarrow> m (key e) = Some e"
proof -
  have fin: "finite (dom m)" and key: "\<And>k e. m k = Some e \<Longrightarrow> key e = k" using assms(2) by (simp_all add: keyed_def)
  have d: "distinct (scan m)" "set (scan m) = dom m" using assms(1) fin by (simp_all add: scan_law_def)
  have "map key (List.map_filter m ks) = ks" if "set ks \<subseteq> dom m" for ks
    using that by (induction ks) (auto simp: List.map_filter_simps key)
  with d have k: "map key (table_snapshots scan m) = scan m" by (simp add: table_snapshots_def)
  then show "distinct (map key (table_snapshots scan m))" using d by simp
  show "key ` set (table_snapshots scan m) = dom m" using k d by (metis list.set_map)
  show "m (key e) = Some e" if "e \<in> set (table_snapshots scan m)"
    using that set_snapshots [OF assms(1) fin] key by (auto simp: table_snapshots_def ran_def)
qed

lemma drop_all_eq:
  assumes "store_ok s" and "hash_laws H"
  shows "\<exists>t. bind_act (for_act (drop_coordinator d) (table_snapshots (scan_coordinators H) (coordinator_table s)))
        (\<lambda>_ s. for_act (drop_worker affected) (table_snapshots (scan_workers H) (worker_table s)) s) s = (Inr (), t)
    \<and> shared t = shared s
    \<and> coordinator_table t = (\<lambda>k. map_option (dropped_coordinator d) (coordinator_table s k))
    \<and> worker_table t = (\<lambda>k. map_option (dropped_worker affected) (worker_table s k))"
proof -
  have k: "keyed coord_database_oid (coordinator_table s)" "keyed slot_key (worker_table s)"
    using store_ok_keyed [OF assms(1)] by simp_all
  have l: "scan_law (scan_coordinators H)" "scan_law (scan_workers H)" using assms(2) by (simp_all add: hash_laws_def)
  note c = snapshots_keyed [OF l(1) k(1)] and w = snapshots_keyed [OF l(2) k(2)]
  from drop_coordinators_eq [OF c(1) c(3), of d] obtain u where
    u: "for_act (drop_coordinator d) (table_snapshots (scan_coordinators H) (coordinator_table s)) s = (Inr (), u)"
      "worker_table u = worker_table s" "shared u = shared s"
      "coordinator_table u = (\<lambda>k. case coordinator_table s k of None \<Rightarrow> None
        | Some c \<Rightarrow> Some (if k \<in> dom (coordinator_table s) then dropped_coordinator d c else c))" unfolding c(2) by blast
  from drop_workers_eq [of _ u affected, OF w(1) w(3) [folded u(2)]] obtain t where
    t: "for_act (drop_worker affected) (table_snapshots (scan_workers H) (worker_table s)) u = (Inr (), t)"
      "coordinator_table t = coordinator_table u" "shared t = shared u"
      "worker_table t = (\<lambda>k. case worker_table u k of None \<Rightarrow> None
        | Some c \<Rightarrow> Some (if k \<in> dom (worker_table u) then dropped_worker affected c else c))" unfolding u(2) w(2) by auto
  have "coordinator_table u = (\<lambda>k. map_option (dropped_coordinator d) (coordinator_table s k))"
    by (auto simp: u(4) fun_eq_iff split: option.splits)
  moreover have "worker_table t = (\<lambda>k. map_option (dropped_worker affected) (worker_table s k))"
    by (auto simp: t(4) u(2) fun_eq_iff split: option.splits)
  ultimately show ?thesis
    using u t by (simp add: bind_act_def)
qed

lemmas prepare_drop_defs = prepare_drop_database_def prepare_drop_extension_def

lemma sweep_workers_eq:
  assumes "store_ok s" and "hash_laws H"
  shows "sweep_workers H gone s = s \<lparr> worker_table := (\<lambda>k. case worker_table s k of None \<Rightarrow> None
      | Some w \<Rightarrow> if gone w then (if has_active_process w then Some (mark_removing w) else None) else Some w) \<rparr>"
proof -
  have k: "keyed slot_key (worker_table s)" and l: "scan_law (scan_workers H)"
    using store_ok_keyed [OF assms(1)] assms(2) by (simp_all add: hash_laws_def)
  have m: "slot_key (mark_removing w) = slot_key w" for w
    by (simp add: mark_removing_def slot_request_stop_def slot_key_def Let_def)
  show ?thesis
    unfolding sweep_workers_def using sweep_eq [OF l k m] by (auto split: prod.splits)
qed

lemma remove_dropped_eq:
  assumes "store_ok s" and "hash_laws H"
  shows "\<exists>t. remove_dropped_databases H live s = sweep_workers H (\<lambda>w. database_oid w \<notin> live) t
    \<and> worker_table t = worker_table s \<and> shared t = shared s
    \<and> coordinator_table t = (\<lambda>d. case coordinator_table s d of None \<Rightarrow> None
      | Some c \<Rightarrow> if coord_database_oid c \<notin> live
          then (if process_is_active (coord_process c) then Some (coord_request_stop c) else None) else Some c)"
proof -
  have k: "keyed coord_database_oid (coordinator_table s)" and l: "scan_law (scan_coordinators H)"
    using store_ok_keyed [OF assms(1)] assms(2) by (simp_all add: hash_laws_def)
  have m: "coord_database_oid (coord_request_stop c) = coord_database_oid c" for c by (simp add: coord_defs)
  obtain m' dropped where e: "table_for_each_mut (scan_coordinators H)
            (\<lambda>c dropped. if coord_database_oid c \<notin> live
               then (if process_is_active (coord_process c) then (coord_request_stop c, dropped)
                     else (c, dropped @ [coord_database_oid c]))
               else (c, dropped)) (coordinator_table s) [] = (m', dropped)" by (rule prod.exhaust)
  show ?thesis
    unfolding remove_dropped_databases_def e Let_def prod.case sweep_eq [OF l k m e]
    by (intro exI conjI, rule refl) simp_all
qed

lemma sweep_quiet:
  assumes "store_ok s" and "hash_laws H"
  shows "quiet_on dropped d s (sweep_workers H gone s)"
  unfolding sweep_workers_eq [OF assms]
  by (rule quiet_onI) (auto split: option.splits if_splits)

definition panics :: "'a store_act \<Rightarrow> worker_store \<Rightarrow> bool" where
  "panics m s \<longleftrightarrow> (\<exists>msg. fst (m s) = Inl (Panicked msg))"

lemma register_coordinator_effect:
  assumes "database_ok d s" and "register_coordinator H accepted d s = (r, t)"
  shows "(\<forall>msg. r \<noteq> Inl (Panicked msg)) \<and> worker_table t = worker_table s \<and> shared t = shared s
    \<and> (\<exists>x. coordinator_table t = (coordinator_table s)(d := x)
        \<and> (\<forall>c. x = Some c \<longrightarrow> coord_database_oid c = d \<and> coord_ok c))"
proof -
  define c0 where "c0 = (case coordinator_table s d of None \<Rightarrow> new_coordinator d | Some c \<Rightarrow> c)"
  have key: "coord_database_oid c0 = d" and ok: "coord_ok c0"
    using assms(1) by (auto simp: c0_def database_ok_def new_coordinator_def coord_ok_def split: option.splits)
  let ?c = "coord_request_restart c0"
  let ?u = "s \<lparr> coordinator_table := (coordinator_table s)(d \<mapsto> ?c) \<rparr>"
  let ?v = "s \<lparr> coordinator_table := (coordinator_table s)(d \<mapsto> coord_reserve ?c) \<rparr>"
  have k: "coord_database_oid ?c = d" "coord_ok ?c" "coord_database_oid (coord_reserve ?c) = d" "coord_ok (coord_reserve ?c)"
    using key ok by (simp_all add: coord_defs coord_ok_def)
  have first: "replace_coordinator ?c (s \<lparr> coordinator_table := (coordinator_table s)(d \<mapsto> c0) \<rparr>) = (Inr (), ?u)"
    by (subst replace_coordinator_eq [where c = c0]) (simp_all add: k)
  have second: "replace_coordinator (coord_reserve ?c) ?u = (Inr (), ?v)"
    by (subst replace_coordinator_eq [where c = ?c]) (simp_all add: k)
  have upd: "coordinator_table s d = Some c \<Longrightarrow> s \<lparr> coordinator_table := (coordinator_table s)(d \<mapsto> c) \<rparr> = s" for c
    by (simp add: fun_upd_idem)
  have "(r, t) \<in> {(Inr CoordinatorAlreadyActive, s), (Inr CoordinatorNoWork, s), (Inl OutOfSharedMemory, s),
      (Inr CoordinatorStartError, ?u), (Inr CoordinatorRegistered, ?v)}"
    using assms(2) first second upd
    by (cases "coordinator_table s d"; cases accepted)
      (auto simp: register_coordinator_def table_get_or_insert_def c0_def bind_act_def ok_act_def Let_def split: if_splits)
  moreover have "\<exists>x. coordinator_table s = (coordinator_table s)(d := x) \<and> (\<forall>c. x = Some c \<longrightarrow> coord_database_oid c = d \<and> coord_ok c)"
    using assms(1) by (intro exI [of _ "coordinator_table s d"]) (simp add: database_ok_def)
  ultimately show ?thesis using k by auto
qed

lemma new_slot_reachable:
  assumes "initialize_registration extension name (new_slot k) = Some w"
  shows "slot_key w = k" and "slot_reachable (slot_request_wakeup w)"
proof -
  show "slot_key w = k"
    using assms by (auto simp: initialize_registration_def new_slot_def slot_key_def empty_slot_def split: if_splits)
  have "slot_reachable w" using assms by (rule slot_reachable.registered)
  then show "slot_reachable (slot_request_wakeup w)" by (rule slot_reachable.step) (rule slot_step.wake)
qed

lemma reconcile_one_effect:
  assumes "database_ok d s" and "length (reg_worker_name r) \<le> max_worker_name_bytes" and "reconcile_one H d r s = (res, t)"
  shows "(\<forall>msg. res \<noteq> Inl (Panicked msg)) \<and> coordinator_table t = coordinator_table s \<and> shared t = shared s
    \<and> (\<exists>k x. key_database_oid k = d \<and> worker_table t = (worker_table s)(k := x)
        \<and> (\<forall>w. x = Some w \<longrightarrow> slot_key w = k \<and> slot_reachable w))"
proof -
  let ?k = "\<lparr> key_database_oid = d, key_worker_id = reg_worker_id r \<rparr>"
  show ?thesis
  proof (cases "worker_table s ?k")
    case (Some w)
    then have w: "slot_key w = ?k" "slot_reachable w" using database_ok_worker [OF assms(1), of ?k w] by simp_all
    then have "slot_key (reconcile_present w) = ?k" "slot_reachable (reconcile_present w)"
      using slot_key_step [OF slot_step.reconcile] slot_reachable.step [OF _ slot_step.reconcile] by metis+
    moreover have "res = Inr ()" "t = s \<lparr> worker_table := (worker_table s)(?k \<mapsto> reconcile_present w) \<rparr>"
      using assms(3) Some by (simp_all add: reconcile_one_def with_worker_eq)
    ultimately show ?thesis by (intro conjI exI [of _ ?k] exI [of _ "Some (reconcile_present w)"]) simp_all
  next
    case None
    obtain w where w: "initialize_registration (reg_owner_oid r) (reg_worker_name r) (new_slot ?k) = Some w"
      using assms(2) by (simp add: initialize_registration_def)
    note n = new_slot_reachable [OF w]
    have key: "slot_key (slot_request_wakeup w) = ?k" using n(1) slot_key_step [OF slot_step.wake] by metis
    let ?s = "s \<lparr> worker_table := (worker_table s)(?k \<mapsto> new_slot ?k) \<rparr>"
    have rep: "replace_worker (slot_request_wakeup w) ?s
        = (Inr (), s \<lparr> worker_table := (worker_table s)(?k \<mapsto> slot_request_wakeup w) \<rparr>)"
      by (subst replace_worker_eq [where w = "new_slot ?k"]) (simp_all add: key)
    show ?thesis
    proof (cases "hash_full H s")
      case True
      then have "res = Inl OutOfSharedMemory" "t = s"
        using assms(3) None by (simp_all add: reconcile_one_def with_worker_eq table_get_or_insert_def)
      then show ?thesis using None by (intro conjI exI [of _ ?k] exI [of _ None]) (simp_all add: fun_upd_idem)
    next
      case False
      then have "res = Inr ()" "t = s \<lparr> worker_table := (worker_table s)(?k \<mapsto> slot_request_wakeup w) \<rparr>"
        using assms(3) None w rep by (simp_all add: reconcile_one_def with_worker_eq table_get_or_insert_def)
      then show ?thesis
        using key n(2) by (intro conjI exI [of _ ?k] exI [of _ "Some (slot_request_wakeup w)"]) simp_all
    qed
  qed
qed

text \<open>A move that touches only workers of the database \<open>d\<close>, and leaves them in order.\<close>

definition only_workers_of :: "oid \<Rightarrow> worker_store \<Rightarrow> worker_store \<Rightarrow> bool" where
  "only_workers_of d s t \<longleftrightarrow> coordinator_table t = coordinator_table s \<and> shared t = shared s
     \<and> (\<forall>k. key_database_oid k \<noteq> d \<longrightarrow> worker_table t k = worker_table s k) \<and> (store_ok s \<longrightarrow> store_ok t)"

lemma only_workers_of_refl [simp]: "only_workers_of d s s"
  by (simp add: only_workers_of_def)

lemma only_workers_of_trans: "only_workers_of d s t \<Longrightarrow> only_workers_of d t u \<Longrightarrow> only_workers_of d s u"
  by (simp add: only_workers_of_def)

lemma only_workers_of_quiet: "only_workers_of d s t \<Longrightarrow> e \<noteq> d \<Longrightarrow> quiet_on dropped e s t"
  by (rule quiet_on_refl) (auto simp: only_workers_of_def)

lemma only_workers_of_update:
  assumes "worker_table t = (worker_table s)(k := x)" and "key_database_oid k = d"
    and "coordinator_table t = coordinator_table s" and "shared t = shared s"
    and "\<And>w. store_ok s \<Longrightarrow> x = Some w \<Longrightarrow> slot_key w = k \<and> slot_reachable w"
  shows "only_workers_of d s t"
proof -
  have "store_ok t" if ok: "store_ok s"
  proof -
    have "database_ok e t" for e
      using ok assms(5) [OF ok] by (simp add: store_ok_def database_ok_def assms(1,3))
    moreover have "finite (dom (worker_table t))" using ok by (simp add: assms(1) store_ok_def dom_fun_upd)
    ultimately show ?thesis using ok by (simp add: store_ok_def assms(3))
  qed
  then show ?thesis using assms(2-4) by (auto simp: only_workers_of_def assms(1))
qed

lemma store_ok_database: "store_ok s \<Longrightarrow> database_ok d s"
  by (simp add: store_ok_def)

lemma reconcile_all_effect:
  assumes "store_ok s" and "list_all (\<lambda>r. length (reg_worker_name r) \<le> max_worker_name_bytes) rs"
    and "for_act (reconcile_one H d) rs s = (res, t)"
  shows "(\<forall>msg. res \<noteq> Inl (Panicked msg)) \<and> only_workers_of d s t"
  using assms
proof (induction rs arbitrary: s)
  case Nil
  then show ?case by (auto simp: ok_act_def)
next
  case (Cons r rs)
  obtain res' u where u: "reconcile_one H d r s = (res', u)" by (rule prod.exhaust)
  have e: "(\<forall>msg. res' \<noteq> Inl (Panicked msg))" "only_workers_of d s u"
    using reconcile_one_effect [OF store_ok_database [OF Cons.prems(1)] _ u] Cons.prems(2) only_workers_of_update by auto
  show ?case
  proof (cases res')
    case (Inl err)
    then show ?thesis using Cons.prems(3) e by (auto simp: bind_act_def u)
  next
    case (Inr v)
    then have "for_act (reconcile_one H d) rs u = (res, t)" using Cons.prems(3) by (simp add: bind_act_def u)
    moreover have "store_ok u" using e(2) Cons.prems(1) by (simp add: only_workers_of_def)
    ultimately show ?thesis using Cons.IH Cons.prems(2) e(2) only_workers_of_trans by auto
  qed
qed

lemma sweep_only_workers:
  assumes "store_ok s" and "hash_laws H" and "\<And>w. gone w \<Longrightarrow> database_oid w = d"
  shows "only_workers_of d s (sweep_workers H gone s)"
proof -
  have "store_ok (sweep_workers H gone s)" using sweep_quiet [OF assms(1,2)] store_ok_quiet assms(1) by blast
  moreover have "worker_table (sweep_workers H gone s) k = worker_table s k" if "key_database_oid k \<noteq> d" for k
  proof -
    have "\<not> gone w" if "worker_table s k = Some w" for w
    proof -
      have "slot_key w = k" using that assms(1) by (auto simp: store_ok_def database_ok_def)
      then show ?thesis using \<open>key_database_oid k \<noteq> d\<close> assms(3) by (auto simp: slot_key_def)
    qed
    then show ?thesis by (auto simp: sweep_workers_eq [OF assms(1,2)] split: option.splits)
  qed
  ultimately show ?thesis by (simp add: only_workers_of_def sweep_workers_eq [OF assms(1,2)])
qed

lemma reconcile_registrations_effect:
  assumes "store_ok s" and "hash_laws H" and "list_all (\<lambda>r. length (reg_worker_name r) \<le> max_worker_name_bytes) rs"
    and "reconcile_registrations H d rs s = (res, t)"
  shows "(\<forall>msg. res \<noteq> Inl (Panicked msg)) \<and> only_workers_of d s t"
proof (cases "validate_coordinator d s")
  case False
  then show ?thesis using assms(4) by (auto simp: reconcile_registrations_def validate_coordinator_def)
next
  case True
  obtain res' u where u: "for_act (reconcile_one H d) rs s = (res', u)" by (rule prod.exhaust)
  note e = reconcile_all_effect [OF assms(1,3) u]
  show ?thesis
  proof (cases res')
    case (Inl err)
    then show ?thesis using assms(4) True e by (auto simp: reconcile_registrations_def validate_coordinator_def bind_act_def u)
  next
    case (Inr v)
    let ?gone = "\<lambda>w. database_oid w = d \<and> worker_id w \<notin> set (map reg_worker_id rs)"
    have "store_ok u" using e assms(1) by (simp add: only_workers_of_def)
    then have "only_workers_of d u (sweep_workers H ?gone u)" by (intro sweep_only_workers [OF _ assms(2)]) auto
    moreover have "res = Inr True" "t = sweep_workers H ?gone u"
      using assms(4) True Inr by (simp_all add: reconcile_registrations_def validate_coordinator_def bind_act_def u)
    ultimately show ?thesis using e only_workers_of_trans by auto
  qed
qed

lemma find_ready_Some:
  assumes "store_ok s" and "hash_laws H" and "find_ready H d now s = Some launch"
  shows "\<exists>w. worker_table s (launch_key launch) = Some w \<and> key_database_oid (launch_key launch) = d \<and> restart_delay w now = Some 0"
proof -
  let ?f = "\<lambda>w launch. if launch \<noteq> None \<or> database_oid w \<noteq> d \<or> restart_delay w now \<noteq> Some 0 then launch
        else Some \<lparr> launch_key = slot_key w, launch_identity = slot_identity w \<rparr>"
  have fold: "\<exists>w\<in>set ws. database_oid w = d \<and> restart_delay w now = Some 0 \<and> launch_key launch = slot_key w"
    if "fold ?f ws None = Some launch" for ws
    using that
  proof (induction ws rule: rev_induct)
    case (snoc w ws)
    then show ?case by (cases "fold ?f ws None") (auto split: if_splits)
  qed simp
  have k: "keyed slot_key (worker_table s)" and l: "scan_law (scan_workers H)"
    using store_ok_keyed [OF assms(1)] assms(2) by (simp_all add: hash_laws_def)
  obtain w where w: "w \<in> set (table_snapshots (scan_workers H) (worker_table s))" "database_oid w = d"
      "restart_delay w now = Some 0" "launch_key launch = slot_key w"
    using fold assms(3) by (auto simp: find_ready_def table_for_each_def table_snapshots_def)
  then show ?thesis using snapshots_keyed(3) [OF l k w(1)] by (auto simp: slot_key_def)
qed

lemma retry_accepted:
  "restart_delay w now = Some 0 \<Longrightarrow> now \<le> later \<Longrightarrow> fst (registration_failed later delay w)"
proof -
  assume a: "restart_delay w now = Some 0" "now \<le> later"
  then have "sat_sub_i64 (restart_after_ms w) now \<le> 0" by (auto simp: restart_delay_Some from_millis_def)
  then have "restart_after_ms w \<le> now"
    by (auto simp: sat_sub_i64_def clamp_i64_def i64_min_def i64_max_def max_def min_def split: if_splits)
  then have "sat_sub_i64 (restart_after_ms w) later \<le> 0" using a(2) by (simp add: sat_sub_due)
  then have "restart_delay w later = Some 0"
    using a(1) by (simp add: restart_delay_Some from_millis_def)
  then show ?thesis by (simp add: registration_failed_def Let_def)
qed

lemma register_ready_effect:
  assumes "store_ok s" and "hash_laws H" and "now \<le> later" and "register_ready_worker H accepted now later d s = (res, t)"
  shows "(\<forall>msg. res \<noteq> Inl (Panicked msg)) \<and> only_workers_of d s t"
proof (cases "validate_coordinator d s \<and> find_ready H d now s \<noteq> None")
  case False
  then show ?thesis using assms(4)
    by (auto simp: register_ready_worker_def validate_coordinator_def split: option.splits if_splits)
next
  case True
  then obtain launch where l: "find_ready H d now s = Some launch" by auto
  let ?k = "launch_key launch"
  from find_ready_Some [OF assms(1,2) l] obtain w where
    w: "worker_table s ?k = Some w" "key_database_oid ?k = d" "restart_delay w now = Some 0" by blast
  have ok: "slot_key w = ?k" "slot_reachable w" using database_ok_worker [OF store_ok_database [OF assms(1)] w(2,1)] by simp_all
  have start: "slot_key (prepare_start w) = ?k" "slot_reachable (prepare_start w)"
    using ok slot_key_step [OF slot_step.start [OF w(3)]] slot_reachable.step [OF ok(2) slot_step.start [OF w(3)]] by simp_all
  have fail: "slot_key (snd (registration_failed later capacity_retry w)) = ?k" "slot_reachable (snd (registration_failed later capacity_retry w))"
    using ok slot_key_step [OF slot_step.failed] slot_reachable.step [OF ok(2) slot_step.failed] by simp_all
  define w' where "w' = (if accepted ?k then prepare_start w else snd (registration_failed later capacity_retry w))"
  have "slot_key w' = ?k \<and> slot_reachable w'" using start fail by (simp add: w'_def)
  moreover have "t = s \<lparr> worker_table := (worker_table s)(?k \<mapsto> w') \<rparr>" "\<forall>msg. res \<noteq> Inl (Panicked msg)"
    using True assms(4) l w(1) retry_accepted [OF w(3) assms(3), of capacity_retry]
    by (auto simp: register_ready_worker_def validate_coordinator_def with_worker_eq w'_def split: option.splits if_splits)
  ultimately show ?thesis using w(2) by (auto intro!: only_workers_of_update [where k = ?k and x = "Some w'"])
qed

lemma discard_simps [simp]:
  "snd (discard m s) = snd (m s)" "fst (discard m s) = Inl err \<longleftrightarrow> fst (m s) = Inl err" "snd (effect_act f s) = f s"
  "fst (effect_act f s) = Inr ()"
  by (auto simp: discard_def effect_act_def split: prod.splits sum.splits)

lemma settle_registration [simp]: "registration (settle_stopped now policy explicit restart normal start w) = registration w"
  by (simp add: settle_stopped_def schedule_existing_restart_def Let_def)

lemma exit_registration [simp]: "registration (snd (slot_confirm_stopped now policy code w)) = registration w"
  by (simp add: slot_confirm_stopped_def Let_def)

lemma confirm_worker_effect:
  assumes "store_ok s"
  shows "quiet_on dropped d s (snd (confirm_process_stopped policy now (WorkerProcess k) code s))
    \<and> shared (snd (confirm_process_stopped policy now (WorkerProcess k) code s)) = shared s"
proof (cases "worker_table s k")
  case None
  then have "snd (confirm_process_stopped policy now (WorkerProcess k) code s) = s"
    by (simp add: confirm_process_stopped_def with_worker_eq fun_upd_idem)
  then show ?thesis by (simp add: quiet_on_refl)
next
  case (Some w)
  let ?w = "snd (slot_confirm_stopped now policy code w)"
  have reg: "registration w = Registered \<or> registration w = Removing"
    using database_ok_worker [OF store_ok_database [OF assms] refl Some] slot_ok_reachable [of w]
    by (cases "registration w") (auto simp: slot_ok_def)
  have "snd (confirm_process_stopped policy now (WorkerProcess k) code s) =
      s \<lparr> worker_table := (worker_table s)(k := (if registration w = Removing \<and> fst (slot_confirm_stopped now policy code w) \<noteq> None
        then None else Some ?w)) \<rparr>"
  proof -
    obtain x w' where x: "slot_confirm_stopped now policy code w = (x, w')" by (rule prod.exhaust)
    then have "registration w' = registration w" using exit_registration [of now policy code w] by simp
    then show ?thesis
      using Some reg x by (cases x) (auto simp: confirm_process_stopped_def with_worker_eq table_remove_def)
  qed
  moreover have "quiet_run w ?w" if "registration w = Registered \<or> fst (slot_confirm_stopped now policy code w) = None"
    using that
  proof
    assume "fst (slot_confirm_stopped now policy code w) = None"
    then have "?w = w" by (simp add: slot_confirm_stopped_def Let_def split: if_splits)
    then show ?thesis by simp
  qed (rule quiet_steps(6))
  ultimately show ?thesis using Some reg by (auto intro!: quiet_onI split: if_splits)
qed

lemma wake_worker_quiet:
  assumes "store_ok s"
  shows "quiet_on {} d s (snd (wake_worker k s))"
proof -
  let ?t = "snd (with_worker k (\<lambda>w. ((), slot_request_wakeup w)) s)"
  have q: "quiet_on {} e s ?t" for e by (rule with_worker_quiet) simp
  from quiet_on_trans [OF q request_coordination_quiet [OF store_ok_database [OF store_ok_quiet [OF q assms]]]]
  show ?thesis by (simp add: wake_worker_def split: prod.splits) (metis snd_conv)
qed

lemma wake_database_eq:
  assumes "store_ok s" and "hash_laws H"
  shows "\<exists>t. wake_database_workers H d s = request_coordination_locked d t \<and> (\<forall>e. quiet_on {} e s t)"
proof -
  let ?g = "\<lambda>w. if database_oid w = d then slot_request_wakeup w else w"
  let ?t = "s \<lparr> worker_table := \<lambda>k. map_option ?g (worker_table s k) \<rparr>"
  have l: "scan_law (scan_workers H)" "finite (dom (worker_table s))" using assms by (simp_all add: hash_laws_def store_ok_def)
  have "table_for_each_mut (scan_workers H) (\<lambda>w u. (?g w, u)) (worker_table s) () = (\<lambda>k. map_option ?g (worker_table s k), ())"
    using table_for_each_mut_eq [OF l, of ?g "\<lambda>e a. a" "()"] by simp
  then have "wake_database_workers H d s = request_coordination_locked d ?t"
    by (simp add: wake_database_workers_def)
  moreover have "quiet_on {} e s ?t" for e by (rule quiet_onI) auto
  ultimately show ?thesis by blast
qed

section \<open>Steps of the store\<close>

definition dropped_by :: "store_event \<Rightarrow> oid set" where
  "dropped_by e = (case e of RemoveDropped live \<Rightarrow> - live | _ \<Rightarrow> {})"

definition reserves :: "oid \<Rightarrow> store_event \<Rightarrow> bool" where
  "reserves d e = (case e of RegisterCoordinator accepted d' \<Rightarrow> d' = d | _ \<Rightarrow> False)"

definition works_on :: "oid \<Rightarrow> store_event \<Rightarrow> bool" where
  "works_on d e = (case e of Launch accepted now later d' \<Rightarrow> d' = d | ReconcileRegistrations d' rs \<Rightarrow> d' = d | _ \<Rightarrow> False)"

lemma bind_snd_signal [simp]:
  "coordinator_table (snd (bind_act m (\<lambda>a s. (Inr (), if f a then signal_supervisor s else s)) s)) = coordinator_table (snd (m s))"
  "worker_table (snd (bind_act m (\<lambda>a s. (Inr (), if f a then signal_supervisor s else s)) s)) = worker_table (snd (m s))"
  "coordinator_table (snd (bind_act m (\<lambda>a s. (Inr (), signal_supervisor s)) s)) = coordinator_table (snd (m s))"
  "worker_table (snd (bind_act m (\<lambda>a s. (Inr (), signal_supervisor s)) s)) = worker_table (snd (m s))"
  by (simp_all add: bind_act_def split: prod.splits sum.splits)

lemma quiet_on_same_tables:
  "quiet_on dropped d s t \<Longrightarrow> coordinator_table u = coordinator_table t \<Longrightarrow> worker_table u = worker_table t \<Longrightarrow> quiet_on dropped d s u"
  by (erule quiet_on_trans) (simp add: quiet_on_refl)

lemma drop_quiet:
  assumes "store_ok s" and "hash_laws H"
  shows "quiet_on dropped e s (snd (bind_act (for_act (drop_coordinator d) (table_snapshots (scan_coordinators H) (coordinator_table s)))
        (\<lambda>_ s. for_act (drop_worker affected) (table_snapshots (scan_workers H) (worker_table s)) s) s))"
proof -
  obtain t where t: "bind_act (for_act (drop_coordinator d) (table_snapshots (scan_coordinators H) (coordinator_table s)))
        (\<lambda>_ s. for_act (drop_worker affected) (table_snapshots (scan_workers H) (worker_table s)) s) s = (Inr (), t)"
      "coordinator_table t = (\<lambda>k. map_option (dropped_coordinator d) (coordinator_table s k))"
      "worker_table t = (\<lambda>k. map_option (dropped_worker affected) (worker_table s k))"
    using drop_all_eq [OF assms] by blast
  have "(coord_step dropped)\<^sup>*\<^sup>* c (dropped_coordinator d c)" for c
    using coord_step.handoff [of dropped c] by (simp add: dropped_coordinator_def coord_prepare_for_drop_def r_into_rtranclp)
  moreover have "quiet_run w (dropped_worker affected w)" for w by (simp add: dropped_worker_def quiet_steps)
  ultimately have "quiet_on dropped e s t" by (intro quiet_onI) (auto simp: t(2,3))
  then show ?thesis by (simp add: t(1))
qed

lemma request_stop_worker_quiet:
  assumes "store_ok s"
  shows "quiet_on {} e s (snd (request_stop_worker d worker s)) \<and> \<not> panics (request_stop_worker d worker) s"
proof -
  let ?k = "\<lparr> key_database_oid = d, key_worker_id = worker \<rparr>"
  obtain u where u: "(case worker_table s ?k of None \<Rightarrow> ok_act () | Some w \<Rightarrow> drop_worker (\<lambda>_. True) w) s = (Inr (), u)"
      "coordinator_table u = coordinator_table s" "quiet_on {} e s u"
  proof (cases "worker_table s ?k")
    case None
    then show ?thesis using that [of s] by (simp add: ok_act_def quiet_on_refl)
  next
    case (Some w)
    then have key: "slot_key w = ?k" using database_ok_worker [OF store_ok_database [OF assms], of ?k d w] by simp
    with Some drop_worker_eq [of s w "\<lambda>_. True"] obtain t where
      t: "drop_worker (\<lambda>_. True) w s = (Inr (), t)" "coordinator_table t = coordinator_table s"
        "worker_table t = (worker_table s)(?k \<mapsto> dropped_worker (\<lambda>_. True) w)" by auto
    have "quiet_on {} e s t"
      by (rule quiet_on_workers [where g = "dropped_worker (\<lambda>_. True)" and k = ?k])
        (simp_all add: t Some dropped_worker_def quiet_steps)
    then show ?thesis using that t Some by simp
  qed
  show ?thesis
  proof (cases "coordinator_table s d")
    case None
    then show ?thesis using u by (simp add: request_stop_worker_def bind_act_def panics_def Let_def)
  next
    case (Some c)
    let ?c = "coord_request_handoff c"
    let ?v = "u \<lparr> coordinator_table := (coordinator_table u)(d \<mapsto> ?c) \<rparr>"
    have "coord_database_oid ?c = d" using Some store_ok_database [OF assms, of d] by (simp add: database_ok_def coord_defs)
    then have r: "replace_coordinator ?c u = (Inr (), ?v)" using Some u(2) by (subst replace_coordinator_eq [where c = c]) simp_all
    have "quiet_on {} e u ?v"
      using Some u(2) by (intro quiet_on_coordinators [where g = coord_request_handoff and d = d]) (auto intro: coord_step.handoff)
    from quiet_on_same_tables [OF quiet_on_trans [OF u(3) this]] show ?thesis
      using Some u r by (simp add: request_stop_worker_def bind_act_def panics_def Let_def)
  qed
qed

lemma complete_worker_quiet:
  assumes "store_ok s"
  shows "quiet_on {} d s (snd (complete_worker now k schedule s)) \<and> \<not> panics (complete_worker now k schedule) s"
proof -
  obtain r t where t: "with_worker k (\<lambda>w. ((), complete_run schedule now w)) s = (r, t)" by (rule prod.exhaust)
  have q: "quiet_on {} e s t" for e
    using with_worker_quiet [of s k "\<lambda>w. ((), complete_run schedule now w)" "{}" e] by (simp add: t quiet_steps)
  have ok: "database_ok e t" for e using store_ok_database [OF store_ok_quiet [OF q assms]] .
  obtain wake u where u: "request_coordination_locked (key_database_oid k) t = (Inr wake, u)"
    using request_coordination_eq [OF ok] by blast
  then show ?thesis
    using q [of d] quiet_on_trans [OF q request_coordination_quiet [OF ok], of d "key_database_oid k"]
    by (cases r) (simp_all add: complete_worker_def t panics_def)
qed

lemma worker_exit_quiet:
  assumes "store_ok s"
  shows "quiet_on {} d s (snd (worker_exit policy now k code s)) \<and> \<not> panics (worker_exit policy now k code) s"
proof -
  obtain r t where t: "confirm_process_stopped policy now (WorkerProcess k) code s = (r, t)" by (rule prod.exhaust)
  have q: "quiet_on {} e s t" for e
    using confirm_worker_effect [OF assms, of "{}" e policy now k code] by (simp add: t)
  have ok: "database_ok e t" for e using store_ok_database [OF store_ok_quiet [OF q assms]] .
  obtain wake u where u: "request_coordination_locked (key_database_oid k) t = (Inr wake, u)"
    using request_coordination_eq [OF ok] by blast
  then show ?thesis
    using q [of d] quiet_on_trans [OF q request_coordination_quiet [OF ok], of d "key_database_oid k"]
    by (simp add: worker_exit_def t panics_def request_database_reconcile_def)
qed

lemma remove_dropped_quiet:
  assumes "store_ok s" and "hash_laws H"
  shows "quiet_on (- live) d s (remove_dropped_databases H live s)"
proof -
  obtain t where t: "remove_dropped_databases H live s = sweep_workers H (\<lambda>w. database_oid w \<notin> live) t"
      "worker_table t = worker_table s"
      "coordinator_table t = (\<lambda>d. case coordinator_table s d of None \<Rightarrow> None
        | Some c \<Rightarrow> if coord_database_oid c \<notin> live
            then (if process_is_active (coord_process c) then Some (coord_request_stop c) else None) else Some c)"
    using remove_dropped_eq [OF assms] by blast
  have key: "coord_database_oid c = e" if "coordinator_table s e = Some c" for e c
    using that store_ok_database [OF assms(1), of e] by (simp add: database_ok_def)
  have "(coord_step (- live))\<^sup>*\<^sup>* c (coord_request_stop c)" if "coordinator_table s e = Some c" "e \<notin> live" for e c
    using that by (intro r_into_rtranclp coord_step.stop) (simp add: key)
  then have q: "quiet_on (- live) e s t" for e
    by (intro quiet_onI) (auto simp: t(2,3) key split: option.splits if_splits)
  show ?thesis
    unfolding t(1) by (rule quiet_on_trans [OF q sweep_quiet [OF store_ok_quiet [OF q assms(1)] assms(2)]])
qed

lemma register_coordinator_quiet:
  assumes "store_ok s"
  shows "store_ok (snd (register_coordinator H accepted d s))" and "\<not> panics (register_coordinator H accepted d) s"
    and "e \<noteq> d \<Longrightarrow> quiet_on dropped e s (snd (register_coordinator H accepted d s))"
proof -
  obtain r t where t: "register_coordinator H accepted d s = (r, t)" by (rule prod.exhaust)
  from register_coordinator_effect [OF store_ok_database [OF assms] t] obtain x where
    x: "\<forall>msg. r \<noteq> Inl (Panicked msg)" "worker_table t = worker_table s" "coordinator_table t = (coordinator_table s)(d := x)"
      "\<forall>c. x = Some c \<longrightarrow> coord_database_oid c = d \<and> coord_ok c" by blast
  have "database_ok e t" for e
    using store_ok_database [OF assms, of e] x(4) by (simp add: database_ok_def x(2,3))
  moreover have "finite (dom (coordinator_table t))" using assms by (simp add: x(3) store_ok_def)
  ultimately show "store_ok (snd (register_coordinator H accepted d s))"
    using assms by (simp add: t store_ok_def x(2))
  show "\<not> panics (register_coordinator H accepted d) s" using x(1) by (simp add: panics_def t)
  show "quiet_on dropped e s (snd (register_coordinator H accepted d s))" if "e \<noteq> d"
    using that by (simp add: t x(2,3) quiet_on_refl)
qed

lemma coordinator_exit_quiet: "quiet_on dropped e s (coordinator_exit_callback policy now code d s)"
proof -
  let ?t = "snd (with_coordinator d (coord_confirm_stopped code) s)"
  have "quiet_on dropped e s ?t" by (rule with_coordinator_quiet) (auto intro: coord_step.exited)
  moreover have "coordinator_table (coordinator_exit_callback policy now code d s) = coordinator_table ?t"
      "worker_table (coordinator_exit_callback policy now code d s) = worker_table ?t"
    by (auto simp: coordinator_exit_callback_def coordinator_exit_def confirm_process_stopped_def
        split: prod.splits option.splits)
  ultimately show ?thesis by (rule quiet_on_same_tables)
qed

lemma coordinator_start_failed_quiet: "quiet_on dropped e s (coordinator_registration_failed d s)"
  unfolding coordinator_registration_failed_def by (rule with_coordinator_quiet) (auto intro: coord_step.reset)

lemma begin_coordinator_quiet: "quiet_on dropped e s (snd (begin_coordinator p n d s))"
proof -
  have "quiet_on dropped e s (snd (with_coordinator d (coord_mark_running p n) s))"
    by (rule with_coordinator_quiet) (auto intro: coord_step.running)
  then show ?thesis by (simp add: begin_coordinator_def split_def Let_def)
qed

lemma begin_worker_quiet: "0 < p \<Longrightarrow> quiet_on dropped e s (snd (begin_worker p now k s))"
proof -
  let ?f = "\<lambda>w. let (published, w) = slot_mark_running p now w in ((published, slot_identity w), w)"
  assume "0 < p"
  moreover have "snd (?f w) = snd (slot_mark_running p now w)" for w by (simp split: prod.splits)
  ultimately have "quiet_on dropped e s (snd (with_worker k ?f s))" by (intro with_worker_quiet) (simp add: quiet_steps)
  moreover have "snd (begin_worker p now k s) = snd (with_worker k ?f s)"
    by (auto simp: begin_worker_def split: prod.splits option.splits)
  ultimately show ?thesis by simp
qed

text \<open>An operation that is quiet for every database and fails no assertion.\<close>

definition tame :: "oid set \<Rightarrow> 'a store_act \<Rightarrow> worker_store \<Rightarrow> bool" where
  "tame dropped m s \<longleftrightarrow> (\<forall>d. quiet_on dropped d s (snd (m s))) \<and> \<not> panics m s"

lemma tame_effect: "(\<And>d. quiet_on dropped d s (f s)) \<Longrightarrow> tame dropped (effect_act f) s"
  by (simp add: tame_def panics_def)

lemma tame_unchanged:
  "coordinator_table (f s) = coordinator_table s \<Longrightarrow> worker_table (f s) = worker_table s \<Longrightarrow> tame dropped (effect_act f) s"
  by (rule tame_effect) (simp add: quiet_on_refl)

lemma tame_discard [simp]: "tame dropped (discard m) s = tame dropped m s"
  by (simp add: tame_def panics_def)

lemma tame_signal: "tame dropped m s \<Longrightarrow> tame dropped (bind_act m (\<lambda>a s. (Inr (), if f a then signal_supervisor s else s))) s"
  unfolding tame_def panics_def
  by (auto simp: bind_act_def split: prod.splits sum.splits intro: quiet_on_same_tables)

lemma tame_request: "database_ok d s \<Longrightarrow> tame dropped (request_coordination_locked d) s"
  using request_coordination_eq [of d s] request_coordination_quiet [of d s] by (auto simp: tame_def panics_def)

lemma tame_wake_worker:
  assumes "store_ok s"
  shows "tame {} (wake_worker k) s"
proof -
  let ?t = "snd (with_worker k (\<lambda>w. ((), slot_request_wakeup w)) s)"
  have "quiet_on {} d s ?t" for d by (rule with_worker_quiet) simp
  from tame_request [OF store_ok_database [OF store_ok_quiet [OF this assms]], of "{}" "key_database_oid k"]
  have "\<not> panics (request_coordination_locked (key_database_oid k)) ?t" by (simp add: tame_def)
  then show ?thesis
    using wake_worker_quiet [OF assms] by (simp add: tame_def panics_def wake_worker_def split_def)
qed

lemma tame_wake_database:
  assumes "store_ok s" and "hash_laws H"
  shows "tame {} (wake_database_workers H d) s"
proof -
  obtain t where t: "wake_database_workers H d s = request_coordination_locked d t" "\<And>e. quiet_on {} e s t"
    using wake_database_eq [OF assms] by blast
  have "tame {} (request_coordination_locked d) t"
    by (rule tame_request [OF store_ok_database [OF store_ok_quiet [OF t(2) assms(1)]]])
  then show ?thesis using t by (auto simp: tame_def panics_def intro: quiet_on_trans)
qed

lemma tame_drop:
  assumes "store_ok s" and "hash_laws H"
  shows "tame dropped (prepare_database_drop H d) s" and "tame dropped (prepare_extension_drop H d extension) s"
proof -
  have "\<exists>t. prepare_drop_database H d s = (Inr (), t) \<and> (\<forall>e. quiet_on dropped e s t)"
    using drop_all_eq [OF assms, of d "\<lambda>w. database_oid w = d"] drop_quiet [OF assms, of dropped _ d "\<lambda>w. database_oid w = d"]
    unfolding prepare_drop_defs by (metis snd_conv)
  then have "tame dropped (prepare_drop_database H d) s" by (auto simp: tame_def panics_def)
  from tame_signal [OF this, of "\<lambda>_. True"] show "tame dropped (prepare_database_drop H d) s"
    by (simp add: prepare_database_drop_def)
  let ?affected = "\<lambda>w. database_oid w = d \<and> extension_oid w = extension"
  have "\<exists>t. prepare_drop_extension H d extension s = (Inr (), t) \<and> (\<forall>e. quiet_on dropped e s t)"
    using drop_all_eq [OF assms, of d ?affected] drop_quiet [OF assms, of dropped _ d ?affected]
    unfolding prepare_drop_defs by (metis snd_conv)
  then have "tame dropped (prepare_drop_extension H d extension) s" by (auto simp: tame_def panics_def)
  from tame_signal [OF this, of "\<lambda>_. True"] show "tame dropped (prepare_extension_drop H d extension) s"
    by (simp add: prepare_extension_drop_def)
qed

lemma tame_start_failed: "tame dropped (effect_act (worker_registration_failed now k)) s"
  unfolding worker_registration_failed_def by (intro tame_effect with_worker_quiet quiet_steps)

lemma tame_missing: "tame dropped (effect_act (worker_registration_missing k)) s"
  unfolding worker_registration_missing_def by (intro tame_effect with_worker_quiet) (simp add: quiet_steps)

lemma tame_op:
  assumes "store_ok s" and "hash_laws H" and "event_ok e" and "\<And>d. \<not> reserves d e" and "\<And>d. \<not> works_on d e"
  shows "tame (dropped_by e) (store_op H e) s"
proof (cases e)
  case (StopWorker d worker)
  have "tame {} (request_stop_worker d worker) s" using request_stop_worker_quiet [OF assms(1)] by (simp add: tame_def)
  from tame_signal [OF this, of "\<lambda>x. x"] show ?thesis by (simp add: StopWorker dropped_by_def stop_worker_def)
next
  case (WorkerExit policy now code k)
  have "tame {} (worker_exit policy now k code) s" using worker_exit_quiet [OF assms(1)] by (simp add: tame_def)
  from tame_signal [OF this, of "\<lambda>x. x"] show ?thesis by (simp add: WorkerExit dropped_by_def worker_exit_callback_def)
next
  case (RemoveDropped live)
  then show ?thesis using remove_dropped_quiet [OF assms(1,2)] by (simp add: dropped_by_def tame_effect)
next
  case (ClearWorkers d)
  then show ?thesis using sweep_quiet [OF assms(1,2)] by (simp add: dropped_by_def tame_effect clear_database_workers_def)
next
  case (CompleteWorker now k schedule)
  then show ?thesis using complete_worker_quiet [OF assms(1)] by (simp add: dropped_by_def tame_def panics_def)
next
  case (BeginWorker p now k)
  then show ?thesis using assms(3) begin_worker_quiet by (simp add: dropped_by_def event_ok_def tame_effect)
next
  case (ReconcileDatabase d)
  have "tame {} (request_database_reconcile d) s"
    using tame_request [OF store_ok_database [OF assms(1)]] by (simp add: tame_def panics_def request_database_reconcile_def)
  then show ?thesis by (simp add: ReconcileDatabase dropped_by_def)
next
  case (RegisterCoordinator accepted d)
  then show ?thesis using assms(4) [of d] by (simp add: reserves_def)
next
  case (ReconcileRegistrations d rs)
  then show ?thesis using assms(5) [of d] by (simp add: works_on_def)
next
  case (Launch accepted now later d)
  then show ?thesis using assms(5) [of d] by (simp add: works_on_def)
qed (use assms tame_wake_worker [OF assms(1)] tame_wake_database [OF assms(1,2)] tame_drop [OF assms(1,2)] in
    \<open>simp_all add: dropped_by_def reserves_def works_on_def tame_unchanged tame_effect coordinator_exit_quiet coordinator_start_failed_quiet
      begin_coordinator_quiet tame_start_failed tame_missing\<close>)

lemma only_workers_step:
  assumes "only_workers_of a s t" and "\<not> validate_coordinator a s \<Longrightarrow> t = s" and "d = a \<Longrightarrow> \<not> validate_coordinator d s"
  shows "quiet_on dropped d s t"
  using assms only_workers_of_quiet [OF assms(1), of d] by (cases "d = a") (auto intro: quiet_on_refl)

lemma store_step_database:
  assumes "store_ok s" and "hash_laws H" and "event_ok e"
  shows "store_ok (store_step H e s)" and "\<not> panics (store_op H e) s"
    and "\<not> reserves d e \<Longrightarrow> \<not> (works_on d e \<and> validate_coordinator d s) \<Longrightarrow> quiet_on (dropped_by e) d s (store_step H e s)"
proof -
  have "store_ok (store_step H e s) \<and> \<not> panics (store_op H e) s
    \<and> (\<not> reserves d e \<longrightarrow> \<not> (works_on d e \<and> validate_coordinator d s) \<longrightarrow> quiet_on (dropped_by e) d s (store_step H e s))"
  proof (cases "(\<exists>a. reserves a e) \<or> (\<exists>a. works_on a e)")
    case False
    then have "tame (dropped_by e) (store_op H e) s" using tame_op [OF assms] by blast
    then show ?thesis using store_ok_quiet assms(1) by (auto simp: tame_def store_step_def)
  next
    case True
    then consider (register) accepted a where "e = RegisterCoordinator accepted a"
      | (reconcile) a rs where "e = ReconcileRegistrations a rs" | (launch) accepted now later a where "e = Launch accepted now later a"
      by (cases e) (auto simp: reserves_def works_on_def)
    then show ?thesis
    proof cases
      case register
      then show ?thesis
        using register_coordinator_quiet [OF assms(1)] by (auto simp: store_step_def reserves_def panics_def)
    next
      case reconcile
      obtain r t where t: "reconcile_registrations H a rs s = (r, t)" by (rule prod.exhaust)
      have eff: "(\<forall>msg. r \<noteq> Inl (Panicked msg)) \<and> only_workers_of a s t"
        using reconcile_registrations_effect [OF assms(1,2) _ t] assms(3) reconcile by (simp add: event_ok_def)
      have "t = s" if "\<not> validate_coordinator a s"
        using that t by (auto simp: reconcile_registrations_def validate_coordinator_def)
      from only_workers_step [OF conjunct2 [OF eff] this, of d "dropped_by e"] show ?thesis
        using eff reconcile t assms(1) by (auto simp: store_step_def works_on_def panics_def only_workers_of_def)
    next
      case launch
      obtain r t where t: "register_ready_worker H accepted now later a s = (r, t)" by (rule prod.exhaust)
      have eff: "(\<forall>msg. r \<noteq> Inl (Panicked msg)) \<and> only_workers_of a s t"
        using register_ready_effect [OF assms(1,2) _ t] assms(3) launch by (simp add: event_ok_def)
      have "t = s" if "\<not> validate_coordinator a s"
        using that t by (auto simp: register_ready_worker_def validate_coordinator_def)
      from only_workers_step [OF conjunct2 [OF eff] this, of d "dropped_by e"] show ?thesis
        using eff launch t assms(1) by (auto simp: store_step_def works_on_def panics_def only_workers_of_def)
    qed
  qed
  then show "store_ok (store_step H e s)" "\<not> panics (store_op H e) s"
    "\<not> reserves d e \<Longrightarrow> \<not> (works_on d e \<and> validate_coordinator d s) \<Longrightarrow> quiet_on (dropped_by e) d s (store_step H e s)" by blast+
qed

lemma store_ok_new: "store_ok new_store"
  by (simp add: store_ok_def database_ok_def new_store_def)

lemma store_reachable_ok: "hash_laws H \<Longrightarrow> store_reachable H s \<Longrightarrow> store_ok s"
  by (rotate_tac, induction rule: store_reachable.induct) (auto simp: store_ok_new intro: store_step_database(1))

lemma run_reachable: "store_reachable H s \<Longrightarrow> list_all event_ok es \<Longrightarrow> store_reachable H (fold (store_step H) es s)"
  by (induction es arbitrary: s) (auto intro: store_reachable.step)


section \<open>A DROP revokes the coordinator's authority\<close>

definition revoked :: "oid \<Rightarrow> worker_store \<Rightarrow> bool" where
  "revoked d s \<longleftrightarrow> \<not> validate_coordinator d s \<and> (\<forall>k w. key_database_oid k = d \<longrightarrow> worker_table s k = Some w \<longrightarrow> stopping w)"

lemma revoked_quiet:
  assumes "quiet_on dropped d s t" and "revoked d s"
  shows "revoked d t"
proof -
  have "\<not> validate_coordinator d t"
    using assms(2) quiet_on_coordinator(1) [OF assms(1)] coord_steps_keep(3)
    by (fastforce simp: revoked_def validate_coordinator_def split: option.splits)
  moreover have "stopping w" if "key_database_oid k = d" "worker_table t k = Some w" for k w
    using quiet_on_worker [OF assms(1) that] assms(2) that(1) quiet_run_keeps(3) by (auto simp: revoked_def)
  ultimately show ?thesis by (simp add: revoked_def)
qed

lemma revoked_run:
  assumes "hash_laws H" and "store_ok s" and "revoked d s" and "list_all (\<lambda>e. event_ok e \<and> \<not> reserves d e) es"
  shows "revoked d (fold (store_step H) es s)"
  using assms(2-)
proof (induction es arbitrary: s)
  case (Cons e es)
  then have e: "event_ok e" "\<not> reserves d e" and rest: "list_all (\<lambda>e. event_ok e \<and> \<not> reserves d e) es" by simp_all
  have "quiet_on (dropped_by e) d s (store_step H e s)"
    using store_step_database(3) [OF Cons.prems(1) assms(1) e(1,2)] Cons.prems(2) by (simp add: revoked_def)
  then have "revoked d (store_step H e s)" using Cons.prems(2) by (rule revoked_quiet)
  then show ?case using Cons.IH store_step_database(1) [OF Cons.prems(1) assms(1) e(1)] rest by simp
qed simp

lemma stopped_slot: "stop_requested (snd (prepare_transactional_stop w)) \<or> \<not> has_active_process (snd (prepare_transactional_stop w))"
  by (auto simp: prepare_transactional_stop_def slot_request_stop_def has_active_process_def Let_def)

lemma drop_revokes:
  assumes "hash_laws H" and "store_ok s"
  shows "revoked d (store_step H (DropDatabase d) s)"
proof -
  let ?t = "store_step H (DropDatabase d) s"
  obtain t where t: "prepare_drop_database H d s = (Inr (), t)"
      "coordinator_table t = (\<lambda>k. map_option (dropped_coordinator d) (coordinator_table s k))"
      "worker_table t = (\<lambda>k. map_option (dropped_worker (\<lambda>w. database_oid w = d)) (worker_table s k))"
    using drop_all_eq [OF assms(2,1), of d "\<lambda>w. database_oid w = d"] unfolding prepare_drop_defs by blast
  have tabs: "coordinator_table ?t = coordinator_table t" "worker_table ?t = worker_table t"
    using t(1) by (simp_all add: store_step_def prepare_database_drop_def bind_act_def)
  have "\<not> has_reconciliation_authority (dropped_coordinator d c)" if "coordinator_table s d = Some c" for c
    using that store_ok_database [OF assms(2), of d]
    by (simp add: database_ok_def dropped_coordinator_def coord_defs has_reconciliation_authority_def)
  then have "\<not> validate_coordinator d ?t" by (auto simp: validate_coordinator_def tabs t(2) split: option.splits)
  moreover have "stopping w" if k: "key_database_oid k = d" and w: "worker_table ?t k = Some w" for k w
  proof -
    obtain v where v: "worker_table s k = Some v" "w = dropped_worker (\<lambda>w. database_oid w = d) v"
      using w by (auto simp: tabs t(3))
    then have "database_oid v = d" using database_ok_worker [OF store_ok_database [OF assms(2)] k] k
      by (auto simp: slot_key_def)
    then show ?thesis using stopped_slot [of v] v(2) by (auto simp: dropped_worker_def stopping_def)
  qed
  ultimately show ?thesis by (simp add: revoked_def)
qed

text \<open>
  C15. A DROP is authoritative. Once \<open>DROP DATABASE\<close> (or \<open>DROP EXTENSION lagodb_base\<close>) has been prepared,
  and until the supervisor reserves a new coordinator for the database, whatever else happens: the old
  coordinator applies no catalog snapshot and launches no worker, every worker of the database that
  still runs is asked to stop, and a worker that was launched but has not started yet is refused.
\<close>
theorem drop_revokes_authority:
  assumes "hash_laws H" and "store_reachable H s" and "list_all (\<lambda>e. event_ok e \<and> \<not> reserves d e) es"
    and "t = fold (store_step H) es (store_step H (DropDatabase d) s)"
  shows "reconcile_registrations H d rs t = (Inr False, t) \<and> register_ready_worker H accepted now later d t = (Inr None, t)
    \<and> (\<forall>k w. key_database_oid k = d \<longrightarrow> worker_table t k = Some w \<longrightarrow> has_active_process w \<longrightarrow> stop_requested w)
    \<and> (\<forall>k p start. key_database_oid k = d \<longrightarrow> fst (begin_worker p start k t) = None)"
proof -
  have ok: "store_ok s" using store_reachable_ok assms(1,2) by blast
  have "store_ok (store_step H (DropDatabase d) s)" using store_step_database(1) [OF ok assms(1)] by (simp add: event_ok_def)
  from revoked_run [OF assms(1) this drop_revokes [OF assms(1) ok] assms(3)] have r: "revoked d t" by (simp add: assms(4))
  then have "reconcile_registrations H d rs t = (Inr False, t)" "register_ready_worker H accepted now later d t = (Inr None, t)"
    by (simp_all add: revoked_def validate_coordinator_def reconcile_registrations_def register_ready_worker_def)
  moreover have "fst (begin_worker p start k t) = None" if "key_database_oid k = d" for k p start
  proof (cases "worker_table t k")
    case (Some w)
    then have "stopping w" using r that by (simp add: revoked_def)
    then show ?thesis
      using Some by (auto simp: begin_worker_def with_worker_eq slot_mark_running_def stopping_def has_active_process_def)
  qed (simp add: begin_worker_def with_worker_eq)
  ultimately show ?thesis using r by (auto simp: revoked_def stopping_def)
qed

section \<open>Coordination requests are kept\<close>

text \<open>A pending full scan survives every operation but the one that takes it.\<close>

definition keeps_scan :: "'a store_act \<Rightarrow> bool" where
  "keeps_scan m \<longleftrightarrow> (\<forall>s. rescan_all (shared s) \<longrightarrow> rescan_all (shared (snd (m s))))"

lemma keeps_scanI: "(\<And>s. rescan_all (shared s) \<Longrightarrow> rescan_all (shared (snd (m s)))) \<Longrightarrow> keeps_scan m"
  by (simp add: keeps_scan_def)

lemma keeps_scanD: "keeps_scan m \<Longrightarrow> rescan_all (shared s) \<Longrightarrow> rescan_all (shared (snd (m s)))"
  by (simp add: keeps_scan_def)

lemma keeps_scan_bind:
  assumes "keeps_scan m" and "\<And>a. keeps_scan (f a)"
  shows "keeps_scan (bind_act m f)"
proof (rule keeps_scanI)
  fix s :: worker_store
  assume "rescan_all (shared s)"
  moreover obtain r t where "m s = (r, t)" by (rule prod.exhaust)
  ultimately have "rescan_all (shared t)" "bind_act m f s = (case r of Inl e \<Rightarrow> (Inl e, t) | Inr a \<Rightarrow> f a t)"
    using assms(1) by (auto simp: keeps_scan_def bind_act_def dest: spec [of _ s])
  then show "rescan_all (shared (snd (bind_act m f s)))"
    using assms(2) by (cases r) (simp_all add: keeps_scan_def)
qed

lemma keeps_scan_for:
  assumes "\<And>x. keeps_scan (f x)"
  shows "keeps_scan (for_act f xs)"
proof (induction xs)
  case Nil
  then show ?case by (simp add: keeps_scan_def ok_act_def)
next
  case (Cons x xs)
  then show ?case using assms by (simp add: keeps_scan_bind)
qed

lemma keeps_scan_signal: "keeps_scan m \<Longrightarrow> keeps_scan (bind_act m (\<lambda>a s. (Inr (), if f a then signal_supervisor s else s)))"
  by (rule keeps_scan_bind) (simp_all add: keeps_scan_def signal_supervisor_def send_def Let_def)

lemma shared_simps [simp]:
  "shared (snd (with_worker k f s)) = shared s" "shared (snd (with_coordinator d g s)) = shared s"
  "shared (send sig s) = shared s" "shared (terminate_process p s) = shared s" "shared (signal_supervisor s) = shared s"
  "shared (snd (replace_coordinator c s)) = shared s" "shared (snd (replace_worker w s)) = shared s"
  "shared (sweep_workers H gone s) = shared s" "rescan_all (shared (set_rescan_all b s)) = b"
  by (simp_all add: with_worker_eq with_coordinator_eq send_def terminate_process_def signal_supervisor_def
      replace_coordinator_def replace_worker_def sweep_workers_def set_rescan_all_def Let_def split: prod.splits)

lemma keeps_scan_request: "keeps_scan (request_coordination_locked d)"
  by (rule keeps_scanI)
    (auto simp: request_coordination_locked_def bind_act_def Let_def replace_coordinator_def split: option.splits prod.splits)

lemma keeps_scan_drop: "keeps_scan (drop_coordinator d c)" "keeps_scan (drop_worker affected w)"
  by (auto simp: keeps_scan_def drop_coordinator_def drop_worker_def Let_def split: prod.splits)

lemma keeps_scan_drop_all:
  "keeps_scan (bind_act (for_act (drop_coordinator d) cs)
     (\<lambda>_ s. for_act (drop_worker affected) (table_snapshots (scan_workers H) (worker_table s)) s))"
proof (rule keeps_scan_bind)
  show "keeps_scan (for_act (drop_coordinator d) cs)" by (rule keeps_scan_for) (rule keeps_scan_drop)
  have "keeps_scan (for_act (drop_worker affected) ws)" for ws by (rule keeps_scan_for) (rule keeps_scan_drop)
  then show "keeps_scan (\<lambda>s. for_act (drop_worker affected) (table_snapshots (scan_workers H) (worker_table s)) s)"
    by (simp add: keeps_scan_def)
qed

lemma keeps_scan_prepare_drop:
  "keeps_scan (prepare_database_drop H d)" "keeps_scan (prepare_extension_drop H d extension)"
proof -
  have "keeps_scan (prepare_drop_database H d)" "keeps_scan (prepare_drop_extension H d extension)"
    unfolding prepare_drop_defs by (rule keeps_scanI, erule keeps_scanD [OF keeps_scan_drop_all])+
  from this [THEN keeps_scan_signal, of "\<lambda>_. True"]
  show "keeps_scan (prepare_database_drop H d)" "keeps_scan (prepare_extension_drop H d extension)"
    by (simp_all add: prepare_database_drop_def prepare_extension_drop_def)
qed

lemma keeps_scan_stop_worker: "keeps_scan (stop_worker d worker)"
proof -
  have "keeps_scan (\<lambda>s. case coordinator_table s d of None \<Rightarrow> (Inr False, s)
          | Some c \<Rightarrow> let c = coord_request_handoff c in bind_act (replace_coordinator c)
                (\<lambda>_ s. if coord_proc_number c \<noteq> invalid_proc_number
                       then (Inr False, send (Latch (coord_proc_number c)) s) else (Inr True, s)) s)"
    by (rule keeps_scanI) (auto simp: bind_act_def Let_def replace_coordinator_def split: option.splits prod.splits)
  moreover have "keeps_scan (case x of None \<Rightarrow> ok_act () | Some w \<Rightarrow> drop_worker (\<lambda>_. True) w)" for x
    using keeps_scan_drop(2) by (cases x) (simp_all add: keeps_scan_def ok_act_def)
  ultimately have "keeps_scan (request_stop_worker d worker)"
    unfolding request_stop_worker_def Let_def [of "\<lparr> key_database_oid = d, key_worker_id = worker \<rparr>"]
    by (intro keeps_scanI) (erule keeps_scanD [rotated], rule keeps_scan_bind)
  then show ?thesis unfolding stop_worker_def by (rule keeps_scan_signal)
qed

lemma keeps_scan_register: "keeps_scan (register_coordinator H accepted d)"
  by (rule keeps_scanI)
    (auto simp: register_coordinator_def bind_act_def ok_act_def Let_def replace_coordinator_def split: option.splits prod.splits)

lemma keeps_scan_reconcile: "keeps_scan (reconcile_registrations H d rs)"
proof -
  have "keeps_scan (reconcile_one H d r)" for r
    by (rule keeps_scanI)
      (auto simp: reconcile_one_def with_worker_eq Let_def replace_worker_def split: option.splits prod.splits)
  then have "keeps_scan (for_act (reconcile_one H d) rs)" by (rule keeps_scan_for)
  from keeps_scan_bind [OF this, of "\<lambda>_ s. (Inr True, sweep_workers H
      (\<lambda>w. database_oid w = d \<and> worker_id w \<notin> set (map reg_worker_id rs)) s)"]
  show ?thesis by (simp add: keeps_scan_def reconcile_registrations_def)
qed

lemma keeps_scan_launch: "keeps_scan (register_ready_worker H accepted now later d)"
  by (rule keeps_scanI) (auto simp: register_ready_worker_def with_worker_eq split: option.splits)

lemma shared_confirm [simp]: "shared (snd (confirm_process_stopped policy now key code s)) = shared s"
  by (auto simp: confirm_process_stopped_def with_worker_eq with_coordinator_eq
      split: process_key.splits option.splits registration_state.splits prod.splits)

lemma shared_callbacks [simp]:
  "shared (coordinator_exit_callback policy now code d s) = shared s" "shared (snd (begin_worker p now k s)) = shared s"
proof -
  obtain r t where t: "confirm_process_stopped policy now (CoordinatorProcess d) code s = (r, t)" by (rule prod.exhaust)
  then have "shared t = shared s" using shared_confirm [of policy now "CoordinatorProcess d" code s] by simp
  then show "shared (coordinator_exit_callback policy now code d s) = shared s"
    by (cases r) (simp_all add: coordinator_exit_callback_def coordinator_exit_def t)
  show "shared (snd (begin_worker p now k s)) = shared s"
    by (auto simp: begin_worker_def with_worker_eq split: option.splits prod.splits)
qed

lemma keeps_scan_step:
  assumes "e \<noteq> TakeFullScan"
  shows "keeps_scan (store_op H e)"
proof -
  have discard: "keeps_scan (discard m)" if "keeps_scan m" for m :: "'b store_act"
    using that by (simp add: keeps_scan_def)
  have exit: "keeps_scan (worker_exit policy now k code)" for policy now k code
    using keeps_scan_request by (simp add: keeps_scan_def worker_exit_def request_database_reconcile_def split_def Let_def)
  have complete: "keeps_scan (complete_worker now k schedule)" for now k schedule
    using keeps_scan_request by (auto simp: keeps_scan_def complete_worker_def with_worker_eq split: option.splits)
  show ?thesis
  proof (cases e)
    case (WorkerExit policy now code k)
    then show ?thesis using keeps_scan_signal [OF exit] by (simp add: worker_exit_callback_def)
  qed (use assms keeps_scan_request complete in \<open>simp_all add: discard keeps_scan_prepare_drop keeps_scan_stop_worker keeps_scan_register
      keeps_scan_reconcile keeps_scan_launch\<close>,
      simp_all add: keeps_scan_def claim_supervisor_def clear_supervisor_def remove_dropped_databases_def wake_worker_def
        wake_database_workers_def request_database_reconcile_def request_full_rescan_def coordinator_registration_failed_def
        begin_coordinator_def clear_database_workers_def
        worker_registration_failed_def worker_registration_missing_def split_def Let_def)
qed

lemma requested_databases_iff:
  assumes "store_ok s" and "hash_laws H"
  shows "d \<in> set (requested_databases H s) \<longleftrightarrow>
    (\<exists>c. coordinator_table s d = Some c \<and> coord_needs_restart c \<and> coord_process c = Stopped)"
proof -
  have "requested_databases H s = map coord_database_oid (filter (\<lambda>c. coord_needs_restart c \<and> coord_process c = Stopped)
      (List.map_filter (coordinator_table s) (scan_coordinators H (coordinator_table s))))"
    by (simp add: requested_databases_def table_for_each_def fold_collect)
  moreover have "set (List.map_filter (coordinator_table s) (scan_coordinators H (coordinator_table s))) = ran (coordinator_table s)"
    using assms by (intro set_snapshots) (simp_all add: hash_laws_def store_ok_def)
  moreover have "coord_database_oid c = e" if "coordinator_table s e = Some c" for e c
    using that store_ok_database [OF assms(1), of e] by (simp add: database_ok_def)
  ultimately show ?thesis by (force simp: ran_def)
qed

text \<open>Operations that ask for coordination of the database \<open>d\<close>.\<close>

definition requests :: "oid \<Rightarrow> store_event \<Rightarrow> bool" where
  "requests d e = (case e of WakeWorker k \<Rightarrow> key_database_oid k = d | WakeDatabase d' \<Rightarrow> d' = d | ReconcileDatabase d' \<Rightarrow> d' = d | _ \<Rightarrow> False)"

definition request_held :: "oid \<Rightarrow> worker_store \<Rightarrow> bool" where
  "request_held d s \<longleftrightarrow> rescan_all (shared s) \<or> (\<exists>c. coordinator_table s d = Some c \<and> coord_needs_restart c)"

lemma request_coordination_held:
  "database_ok d s \<Longrightarrow> d \<noteq> invalid_oid \<Longrightarrow> request_held d (snd (request_coordination_locked d s))"
  using request_coordination_eq [of d s] by (auto simp: request_held_def coord_request_restart_def)

lemma request_step_held:
  assumes "store_ok s" and "hash_laws H" and "requests d e" and "d \<noteq> invalid_oid"
  shows "request_held d (store_step H e s)"
proof -
  have k: "quiet_on {} b s (snd (with_worker k (\<lambda>w. ((), slot_request_wakeup w)) s))" for b k
    by (rule with_worker_quiet) simp
  have wake: "database_ok d (snd (with_worker k (\<lambda>w. ((), slot_request_wakeup w)) s))" for k
    using store_ok_database [OF store_ok_quiet [OF k assms(1)]] .
  obtain t where t: "wake_database_workers H d s = request_coordination_locked d t" "\<And>e. quiet_on {} e s t"
    using wake_database_eq [OF assms(1,2)] by blast
  have "database_ok d t" by (rule store_ok_database [OF store_ok_quiet [OF t(2) assms(1)]])
  with wake show ?thesis
    using assms(3) request_coordination_held [OF _ assms(4)] store_ok_database [OF assms(1)]
    by (cases e) (auto simp: requests_def store_step_def wake_worker_def request_database_reconcile_def t(1) split_def Let_def)
qed

lemma works_on_coordinators:
  assumes "store_ok s" and "hash_laws H" and "event_ok e" and "works_on d e"
  shows "coordinator_table (store_step H e s) = coordinator_table s"
proof (cases e)
  case (ReconcileRegistrations a rs)
  then show ?thesis
    using assms reconcile_registrations_effect [OF assms(1,2) _ surjective_pairing, of rs a]
    by (simp add: store_step_def event_ok_def only_workers_of_def)
next
  case (Launch accepted now later a)
  then show ?thesis
    using assms register_ready_effect [OF assms(1,2) _ surjective_pairing, of now later accepted a]
    by (simp add: store_step_def event_ok_def only_workers_of_def)
qed (use assms(4) in \<open>simp_all add: works_on_def\<close>)

lemma held_step:
  assumes "store_ok s" and "hash_laws H" and "event_ok e" and "\<not> reserves d e" and "e \<noteq> TakeFullScan" and "d \<notin> dropped_by e"
    and "request_held d s"
  shows "request_held d (store_step H e s)"
proof (cases "rescan_all (shared s)")
  case True
  then show ?thesis
    using keeps_scanD [OF keeps_scan_step [OF assms(5)]] by (simp add: request_held_def store_step_def)
next
  case False
  then obtain c where c: "coordinator_table s d = Some c" "coord_needs_restart c" using assms(7) by (auto simp: request_held_def)
  then have db: "coord_database_oid c = d" using store_ok_database [OF assms(1), of d] by (simp add: database_ok_def)
  show ?thesis
  proof (cases "works_on d e \<and> validate_coordinator d s")
    case True
    then have "coordinator_table (store_step H e s) d = Some c"
      using works_on_coordinators [OF assms(1-3), of d] c(1) by simp
    then show ?thesis using c by (simp add: request_held_def)
  next
    case no: False
    note q = store_step_database(3) [OF assms(1-4) no]
    obtain c' where c': "coordinator_table (store_step H e s) d = Some c'"
      using quiet_on_coordinator(3) [OF q c(1)] assms(6) by (cases "coordinator_table (store_step H e s) d") auto
    then have "coord_needs_restart c'"
      using quiet_on_coordinator(1) [OF q c'] c db assms(6) coord_steps_keep(4) by auto
    with c' show ?thesis by (auto simp: request_held_def)
  qed
qed

lemma held_run:
  assumes "hash_laws H" and "store_ok s" and "request_held d s"
    and "list_all (\<lambda>e. event_ok e \<and> \<not> reserves d e \<and> e \<noteq> TakeFullScan \<and> d \<notin> dropped_by e) es"
  shows "request_held d (fold (store_step H) es s) \<and> store_ok (fold (store_step H) es s)"
  using assms(2-)
proof (induction es arbitrary: s)
  case (Cons e es)
  then have "request_held d (store_step H e s)" "store_ok (store_step H e s)"
    using held_step [OF _ assms(1)] store_step_database(1) [OF _ assms(1)] by simp_all
  then show ?case using Cons.IH Cons.prems(3) by simp
qed simp

text \<open>
  C17. A request for coordination is never lost. After a wake-up of a worker, a wake-up of a database or
  a reconciliation request, whatever happens until the supervisor takes the full scan or asks the store
  for a new coordinator of the database, and as long as the database exists: either the full scan is still
  pending, or the coordinator's slot still asks for a restart; then the slot belongs to a live coordinator
  or the database is among those the supervisor is told to start, and the store does not answer that there
  is no work.
\<close>
theorem coordination_request_kept:
  assumes "hash_laws H" and "store_reachable H s" and "requests d e" and "d \<noteq> invalid_oid" and "event_ok e"
    and "list_all (\<lambda>e. event_ok e \<and> \<not> reserves d e \<and> e \<noteq> TakeFullScan \<and> d \<notin> dropped_by e) es"
    and "t = fold (store_step H) es (store_step H e s)"
  shows "rescan_all (shared t)
    \<or> (\<exists>c. coordinator_table t d = Some c \<and> coord_needs_restart c
         \<and> (process_is_active (coord_process c) \<noteq> (d \<in> set (requested_databases H t)))
         \<and> fst (register_coordinator H accepted d t) \<noteq> Inr CoordinatorNoWork)"
proof -
  have ok: "store_ok s" using store_reachable_ok assms(1,2) by blast
  have "request_held d (store_step H e s)" using request_step_held [OF ok assms(1,3,4)] .
  from held_run [OF assms(1) store_step_database(1) [OF ok assms(1,5)] this assms(6)]
  have held: "request_held d t" and okt: "store_ok t" by (simp_all add: assms(7))
  show ?thesis
  proof (cases "rescan_all (shared t)")
    case False
    then obtain c where c: "coordinator_table t d = Some c" "coord_needs_restart c" using held by (auto simp: request_held_def)
    have "coord_ok c" using store_ok_database [OF okt, of d] c(1) by (simp add: database_ok_def)
    then have "process_is_active (coord_process c) \<noteq> (d \<in> set (requested_databases H t))"
      using c by (auto simp: requested_databases_iff [OF okt assms(1)] coord_ok_def process_is_active_def)
    moreover have "fst (register_coordinator H accepted d t) \<noteq> Inr CoordinatorNoWork"
      using c by (auto simp: register_coordinator_def table_get_or_insert_def bind_act_def ok_act_def Let_def
          split: option.splits prod.splits sum.splits)
    ultimately show ?thesis using c by blast
  qed simp
qed

section \<open>A concrete runtime\<close>

definition key_pair :: "worker_key \<Rightarrow> oid \<times> int" where
  "key_pair k = (key_database_oid k, key_worker_id k)"

definition demo_hash :: hash_env where
  "demo_hash = \<lparr> scan_coordinators = \<lambda>m. sorted_list_of_set (dom m),
     scan_workers = \<lambda>m. map (\<lambda>(d, w). \<lparr> key_database_oid = d, key_worker_id = w \<rparr>) (sorted_list_of_set (key_pair ` dom m)),
     hash_full = \<lambda>_. False \<rparr>"

lemma demo_hash_laws: "hash_laws demo_hash"
proof -
  let ?key = "\<lambda>(d, w). \<lparr> key_database_oid = d, key_worker_id = w \<rparr>"
  have inv: "?key (key_pair k) = k" for k by (simp add: key_pair_def)
  have "inj_on ?key A" for A by (auto intro: inj_onI)
  moreover have "?key ` key_pair ` dom m = dom m" for m :: "worker_key \<rightharpoonup> worker_slot"
    by (simp add: image_image inv)
  ultimately show ?thesis by (simp add: hash_laws_def scan_law_def demo_hash_def distinct_map)
qed

text \<open>A coordinator of database 5 that runs.\<close>

definition demo_events :: "store_event list" where
  "demo_events = [RegisterCoordinator True 5, BeginCoordinator 77 3 5]"

definition demo_store :: worker_store where
  "demo_store = fold (store_step demo_hash) demo_events new_store"

lemma demo_store_reachable: "store_reachable demo_hash demo_store"
  unfolding demo_store_def by (rule run_reachable) (simp_all add: store_reachable.start demo_events_def event_ok_def)

lemma demo_store_eq:
  "demo_store = new_store \<lparr> coordinator_table := [5 \<mapsto> \<lparr> coord_database_oid = 5, coord_pid = 77, coord_proc_number = 3,
     coord_process = Running, coord_stop_requested = False, coord_needs_restart = False \<rparr>] \<rparr>"
  by (simp add: demo_store_def demo_events_def store_step_def register_coordinator_def begin_coordinator_def new_store_def
      table_get_or_insert_def demo_hash_def replace_coordinator_def table_replace_def table_with_mut_def bind_act_def ok_act_def
      with_coordinator_def new_coordinator_def coord_defs)


theorem drop_revokes_authority_witness:
  "validate_coordinator 5 demo_store
   \<and> (let t = fold (store_step demo_hash) [ReconcileDatabase 5, BeginCoordinator 78 4 5] (store_step demo_hash (DropDatabase 5) demo_store)
      in reconcile_registrations demo_hash 5 [] t = (Inr False, t) \<and> register_ready_worker demo_hash (\<lambda>_. True) 0 0 5 t = (Inr None, t))"
proof -
  have "list_all (\<lambda>e. event_ok e \<and> \<not> reserves 5 e) [ReconcileDatabase 5, BeginCoordinator 78 4 5]"
    by (simp add: event_ok_def reserves_def)
  from drop_revokes_authority [OF demo_hash_laws demo_store_reachable this refl]
  show ?thesis by (simp add: Let_def validate_coordinator_def demo_store_eq has_reconciliation_authority_def process_is_active_def)
qed

theorem coordination_request_kept_witness:
  "5 \<in> set (requested_databases demo_hash
     (fold (store_step demo_hash) [CoordinatorExit demo_policy 0 0 5] (store_step demo_hash (ReconcileDatabase 5) demo_store)))"
proof -
  let ?t = "fold (store_step demo_hash) [CoordinatorExit demo_policy 0 0 5] (store_step demo_hash (ReconcileDatabase 5) demo_store)"
  have es: "list_all (\<lambda>e. event_ok e \<and> \<not> reserves 5 e \<and> e \<noteq> TakeFullScan \<and> 5 \<notin> dropped_by e) [CoordinatorExit demo_policy 0 0 5]"
    by (simp add: event_ok_def reserves_def dropped_by_def)
  have req: "requests 5 (ReconcileDatabase 5)" "(5 :: oid) \<noteq> invalid_oid" "event_ok (ReconcileDatabase 5)"
    by (simp_all add: requests_def invalid_oid_def event_ok_def)
  have "\<not> rescan_all (shared ?t) \<and> map_option coord_process (coordinator_table ?t 5) = Some Stopped"
    by (simp add: store_step_def demo_store_eq new_store_def default_shared_state_def request_database_reconcile_def
        request_coordination_locked_def replace_coordinator_def table_replace_def table_with_mut_def bind_act_def with_coordinator_def
        coordinator_exit_callback_def coordinator_exit_def confirm_process_stopped_def signal_supervisor_def send_def invalid_oid_def
        invalid_proc_number_def coord_defs)
  with coordination_request_kept [OF demo_hash_laws demo_store_reachable req es refl] show ?thesis
    by (auto simp: process_is_active_def simp del: fold.simps)
qed

section \<open>The clock inside one operation\<close>

text \<open>
  The hypothesis that the clock does not run backwards is needed: \<open>register_ready_worker\<close> reads the wall
  clock a second time when the postmaster refuses the registration, and asserts that the worker it found
  ready is still ready. A clock set back in between fails the assertion.
\<close>

definition demo_registration :: worker_registration where
  "demo_registration = \<lparr> reg_worker_id = 3, reg_owner_oid = 90, reg_worker_name = ''compact'' \<rparr>"

definition demo_waiting :: worker_store where
  "demo_waiting = fold (store_step demo_hash) [ReconcileRegistrations 5 [demo_registration], Launch (\<lambda>_. False) 0 0 5] demo_store"

lemma demo_waiting_reachable: "store_reachable demo_hash demo_waiting"
  unfolding demo_waiting_def
  by (rule run_reachable [OF demo_store_reachable]) (simp add: event_ok_def max_worker_name_bytes_def demo_registration_def)

lemma refused_launch:
  assumes "worker_table s = [slot_key w \<mapsto> w]" and "validate_coordinator (database_oid w) s" and "restart_delay w now = Some 0"
  shows "snd (register_ready_worker demo_hash (\<lambda>_. False) now later (database_oid w) s)
      = s \<lparr> worker_table := [slot_key w \<mapsto> snd (registration_failed later capacity_retry w)] \<rparr>"
    and "\<not> fst (registration_failed later capacity_retry w) \<Longrightarrow>
      fst (register_ready_worker demo_hash (\<lambda>_. False) now later (database_oid w) s)
      = Inl (Panicked ''eligible worker rejected registration failure'')"
proof -
  have "scan_workers demo_hash [slot_key w \<mapsto> w] = [slot_key w]"
    by (simp add: demo_hash_def key_pair_def)
  then have "find_ready demo_hash (database_oid w) now s = Some \<lparr> launch_key = slot_key w, launch_identity = slot_identity w \<rparr>"
    using assms(1,3) by (simp add: find_ready_def table_for_each_def List.map_filter_simps)
  then show "snd (register_ready_worker demo_hash (\<lambda>_. False) now later (database_oid w) s)
      = s \<lparr> worker_table := [slot_key w \<mapsto> snd (registration_failed later capacity_retry w)] \<rparr>"
    "\<not> fst (registration_failed later capacity_retry w) \<Longrightarrow>
      fst (register_ready_worker demo_hash (\<lambda>_. False) now later (database_oid w) s)
      = Inl (Panicked ''eligible worker rejected registration failure'')"
    using assms(1,2) by (auto simp: register_ready_worker_def validate_coordinator_def with_worker_eq split: option.splits)
qed

lemma demo_key: "slot_key demo_registered = \<lparr> key_database_oid = 5, key_worker_id = 3 \<rparr>"
  by (simp add: slot_key_def demo_registered_def)

lemma demo_initialized:
  "initialize_registration 90 ''compact'' (new_slot \<lparr> key_database_oid = 5, key_worker_id = 3 \<rparr>) = Some demo_registered"
  "slot_request_wakeup demo_registered = demo_registered"
  by (simp_all add: initialize_registration_def new_slot_def demo_registered_def max_worker_name_bytes_def empty_slot_def
      slot_request_wakeup_def)

lemma demo_reconciled:
  "store_step demo_hash (ReconcileRegistrations 5 [demo_registration]) demo_store
   = demo_store \<lparr> worker_table := [slot_key demo_registered \<mapsto> demo_registered] \<rparr>"
proof -
  let ?s = "demo_store \<lparr> worker_table := [slot_key demo_registered \<mapsto> demo_registered] \<rparr>"
  have w: "worker_table demo_store = Map.empty" by (simp add: demo_store_eq new_store_def)
  have one: "reconcile_one demo_hash 5 demo_registration demo_store = (Inr (), ?s)"
    by (simp add: reconcile_one_def with_worker_eq w demo_registration_def table_get_or_insert_def demo_hash_def demo_initialized
        replace_worker_eq [where w = "new_slot \<lparr> key_database_oid = 5, key_worker_id = 3 \<rparr>"] demo_key)
  have "only_workers_of 5 demo_store ?s"
    by (rule only_workers_of_update [where k = "slot_key demo_registered" and x = "Some demo_registered"])
      (simp_all add: demo_reachable w demo_key)
  then have ok: "store_ok ?s"
    using store_reachable_ok [OF demo_hash_laws demo_store_reachable] by (simp add: only_workers_of_def)
  have "sweep_workers demo_hash (\<lambda>w. database_oid w = 5 \<and> worker_id w \<noteq> 3) ?s = ?s"
    unfolding sweep_workers_eq [OF ok demo_hash_laws] by (simp add: fun_eq_iff demo_registered_def)
  moreover have "validate_coordinator 5 demo_store"
    by (simp add: validate_coordinator_def demo_store_eq has_reconciliation_authority_def process_is_active_def)
  moreover have "reg_worker_id demo_registration = 3" by (simp add: demo_registration_def)
  ultimately show ?thesis
    by (simp add: store_step_def reconcile_registrations_def validate_coordinator_def one bind_act_def ok_act_def)
qed

lemma backward_clock_panics:
  "store_reachable demo_hash demo_waiting
   \<and> fst (register_ready_worker demo_hash (\<lambda>_. False) 100 50 5 demo_waiting)
     = Inl (Panicked ''eligible worker rejected registration failure'')"
proof -
  let ?s = "demo_store \<lparr> worker_table := [slot_key demo_registered \<mapsto> demo_registered] \<rparr>"
  let ?w = "snd (registration_failed 0 capacity_retry demo_registered)"
  have d: "database_oid demo_registered = 5" "database_oid ?w = 5"
    by (simp_all add: demo_registered_def registration_failed_eq)
  have v: "validate_coordinator 5 (demo_store \<lparr> worker_table := m \<rparr>)" for m
    by (simp add: validate_coordinator_def demo_store_eq has_reconciliation_authority_def process_is_active_def)
  have delay: "restart_delay demo_registered 0 = Some 0" "restart_delay ?w 100 = Some 0" "\<not> fst (registration_failed 50 capacity_retry ?w)"
    by (simp_all add: restart_delay_def registration_failed_def has_active_process_def demo_registered_def empty_slot_def from_millis_def
        capacity_retry_def millis_i64_def as_millis_def sat_add_i64_def sat_sub_i64_def clamp_i64_def i64_min_def i64_max_def)
  have k: "slot_key ?w = slot_key demo_registered" by (simp add: registration_failed_eq slot_key_def)
  have eq: "demo_waiting = demo_store \<lparr> worker_table := [slot_key ?w \<mapsto> ?w] \<rparr>"
    using refused_launch(1) [of ?s demo_registered 0 0] delay(1) v
    by (simp add: demo_waiting_def demo_reconciled d k) (simp add: store_step_def)
  have "worker_table demo_waiting = [slot_key ?w \<mapsto> ?w]" by (simp add: eq)
  moreover have "validate_coordinator (database_oid ?w) demo_waiting" using v by (simp add: eq d(2))
  ultimately have "fst (register_ready_worker demo_hash (\<lambda>_. False) 100 50 (database_oid ?w) demo_waiting)
     = Inl (Panicked ''eligible worker rejected registration failure'')"
    using delay(2,3) by (rule refused_launch(2))
  then show ?thesis using demo_waiting_reachable by (simp only: d(2) simp_thms)
qed

end
