(* ===== verification/Worker_Lifecycle.thy ===== *)
theory Worker_Lifecycle
  imports Worker_Runs Savepoints Tx_Callbacks
begin

text \<open>
  Transactional requests to the worker runtime (\<open>lagodb-base/src/worker/lifecycle.rs\<close>): the actions a
  transaction has staged, what the ends of subtransactions make of them, and their application to the
  shared state when the transaction ends. A request to wake workers is given up with the savepoint it
  was made in. A request that follows a change of shared memory that no rollback undoes (a prepared DROP,
  a registration) has to be honoured whether the transaction commits or not.
\<close>

section \<open>Staged actions\<close>

datatype pending_action_kind = WakeAction worker_key | ReconcileAction | WakeWorkersAction | DropAction | RescanAction

record pending_action =
  action_database_oid :: oid
  action_nest_level :: nest_level
  action_kind :: pending_action_kind

definition same_action :: "pending_action_kind \<Rightarrow> pending_action_kind \<Rightarrow> bool" where
  "same_action left right = (case (left, right) of
       (WakeAction a, WakeAction b) \<Rightarrow> a = b
     | (ReconcileAction, ReconcileAction) \<Rightarrow> True
     | (WakeWorkersAction, WakeWorkersAction) \<Rightarrow> True
     | (DropAction, DropAction) \<Rightarrow> True
     | (RescanAction, RescanAction) \<Rightarrow> True
     | _ \<Rightarrow> False)"

definition record_action :: "oid \<Rightarrow> nest_level \<Rightarrow> pending_action_kind \<Rightarrow> pending_action list \<Rightarrow> pending_action list" where
  "record_action d level kind actions =
     (if list_ex (\<lambda>a. action_database_oid a = d \<and> action_nest_level a = level \<and> same_action (action_kind a) kind) actions
      then actions
      else actions @ [\<lparr> action_database_oid = d, action_nest_level = level, action_kind = kind \<rparr>])"

text \<open>\<open>level.saturating_sub(1)\<close> on \<open>i32\<close>.\<close>

definition parent_level :: "nest_level \<Rightarrow> nest_level" where
  "parent_level level = max i32_min (level - 1)"

definition abort_action :: "nest_level \<Rightarrow> pending_action \<Rightarrow> pending_action list \<Rightarrow> pending_action list" where
  "abort_action parent a actions = (case action_kind a of
       ReconcileAction \<Rightarrow> record_action (action_database_oid a) parent ReconcileAction actions
     | WakeWorkersAction \<Rightarrow> actions
     | RescanAction \<Rightarrow> record_action (action_database_oid a) parent RescanAction actions
     | DropAction \<Rightarrow> record_action invalid_oid parent RescanAction
         (record_action (action_database_oid a) parent ReconcileAction actions)
     | WakeAction k \<Rightarrow> actions)"

definition abort_subtransaction :: "nest_level \<Rightarrow> pending_action list \<Rightarrow> pending_action list" where
  "abort_subtransaction level actions =
     (let aborted = filter (\<lambda>a. level \<le> action_nest_level a) actions;
          kept = filter (\<lambda>a. \<not> level \<le> action_nest_level a) actions
      in fold (abort_action (parent_level level)) aborted kept)"

definition commit_subtransaction :: "nest_level \<Rightarrow> pending_action list \<Rightarrow> pending_action list" where
  "commit_subtransaction level actions =
     map (\<lambda>a. if level \<le> action_nest_level a then a \<lparr> action_nest_level := parent_level level \<rparr> else a) actions"

section \<open>Application\<close>

text \<open>The bar of the source evaluates both sides.\<close>

definition apply_action :: "hash_env \<Rightarrow> bool \<Rightarrow> pending_action \<Rightarrow> bool store_act" where
  "apply_action H committed a = (case action_kind a of
       WakeAction k \<Rightarrow> if committed then wake_worker k else ok_act False
     | ReconcileAction \<Rightarrow> request_database_reconcile (action_database_oid a)
     | WakeWorkersAction \<Rightarrow> if committed then wake_database_workers H (action_database_oid a) else ok_act False
     | DropAction \<Rightarrow>
         if committed then (\<lambda>s. let (wake, s) = request_full_rescan s in (Inr wake, s))
         else bind_act (request_database_reconcile (action_database_oid a))
                (\<lambda>wake s. let (also_wake, s) = request_full_rescan s in (Inr (wake \<or> also_wake), s))
     | RescanAction \<Rightarrow> (\<lambda>s. let (wake, s) = request_full_rescan s in (Inr wake, s)))"

fun apply_actions :: "hash_env \<Rightarrow> bool \<Rightarrow> pending_action list \<Rightarrow> bool \<Rightarrow> bool store_act" where
  "apply_actions H committed [] wake = ok_act wake"
| "apply_actions H committed (a # as) wake =
     bind_act (apply_action H committed a) (\<lambda>w. apply_actions H committed as (wake \<or> w))"

record worker_session =
  staged :: "pending_action list"
  runtime :: worker_store

datatype session_error = StoreFailure store_error | PreparedTransactionWithRuntimeActions

definition stage_request :: "nest_level \<Rightarrow> oid \<times> pending_action_kind \<Rightarrow> worker_session \<Rightarrow> worker_session" where
  "stage_request level request b = (case request of (d, kind) \<Rightarrow> b \<lparr> staged := record_action d level kind (staged b) \<rparr>)"

definition finish_actions :: "hash_env \<Rightarrow> bool \<Rightarrow> worker_session \<Rightarrow> (session_error + unit) \<times> worker_session" where
  "finish_actions H committed b =
     (case apply_actions H committed (staged b) False (runtime b) of
        (Inl err, s) \<Rightarrow> (Inl (StoreFailure err), b \<lparr> staged := [], runtime := s \<rparr>)
      | (Inr wake, s) \<Rightarrow> (Inr (), b \<lparr> staged := [], runtime := if wake then signal_supervisor s else s \<rparr>))"

definition worker_xact_callback :: "hash_env \<Rightarrow> xact_event \<Rightarrow> worker_session \<Rightarrow> (session_error + unit) \<times> worker_session" where
  "worker_xact_callback H event b = (case event of
       XactCommit \<Rightarrow> finish_actions H True b
     | XactParallelCommit \<Rightarrow> finish_actions H True b
     | XactAbort \<Rightarrow> finish_actions H False b
     | XactParallelAbort \<Rightarrow> finish_actions H False b
     | XactPrePrepare \<Rightarrow> if staged b \<noteq> [] then (Inl PreparedTransactionWithRuntimeActions, b) else (Inr (), b)
     | _ \<Rightarrow> (Inr (), b))"

definition worker_subxact_callback :: "nest_level \<Rightarrow> subxact_event \<Rightarrow> worker_session \<Rightarrow> worker_session" where
  "worker_subxact_callback level event b = (case event of
       SubxactAbort \<Rightarrow> b \<lparr> staged := abort_subtransaction level (staged b) \<rparr>
     | SubxactCommit \<Rightarrow> b \<lparr> staged := commit_subtransaction level (staged b) \<rparr>
     | _ \<Rightarrow> b)"

section \<open>Savepoints\<close>

text \<open>
  The reference: what remains of the requests of a tree of subtransactions. An aborted subtransaction
  leaves its catalog reconciliations and scans, turns a DROP into both, and loses its wake-ups.
\<close>

fun after_abort :: "oid \<times> pending_action_kind \<Rightarrow> (oid \<times> pending_action_kind) set" where
  "after_abort (d, ReconcileAction) = {(d, ReconcileAction)}"
| "after_abort (d, RescanAction) = {(d, RescanAction)}"
| "after_abort (d, DropAction) = {(d, ReconcileAction), (invalid_oid, RescanAction)}"
| "after_abort (d, WakeAction k) = {}"
| "after_abort (d, WakeWorkersAction) = {}"

fun remaining :: "(oid \<times> pending_action_kind) tx_prog \<Rightarrow> (oid \<times> pending_action_kind) set" where
  "remaining (TxOp r) = {r}"
| "remaining (TxSub ps committed) =
     (let inner = \<Union> (set (map remaining ps)) in if committed then inner else \<Union> (after_abort ` inner))"

definition session_execs :: "nest_level \<Rightarrow> (oid \<times> pending_action_kind) tx_prog list \<Rightarrow> worker_session \<Rightarrow> worker_session" where
  "session_execs = tx_execs stage_request (\<lambda>level. worker_subxact_callback level SubxactCommit)
     (\<lambda>level. worker_subxact_callback level SubxactAbort)"

definition staged_requests :: "pending_action list \<Rightarrow> (nest_level \<times> oid \<times> pending_action_kind) set" where
  "staged_requests actions = (\<lambda>a. (action_nest_level a, action_database_oid a, action_kind a)) ` set actions"

lemma staged_requests_Nil [simp]: "staged_requests [] = {}"
  by (simp add: staged_requests_def)

lemma same_action_eq: "same_action a b \<longleftrightarrow> a = b"
  by (cases a; cases b) (simp_all add: same_action_def)

lemma staged_record: "staged_requests (record_action d n kind actions) = insert (n, d, kind) (staged_requests actions)"
  by (force simp: record_action_def same_action_eq staged_requests_def list_ex_iff)

lemma staged_abort_one:
  "staged_requests (abort_action parent a actions) =
     staged_requests actions \<union> {parent} \<times> after_abort (action_database_oid a, action_kind a)"
  by (cases "action_kind a") (auto simp: abort_action_def staged_record)

lemma staged_abort_fold:
  "staged_requests (fold (abort_action parent) as actions) =
     staged_requests actions \<union> {parent} \<times> (\<Union>a\<in>set as. after_abort (action_database_oid a, action_kind a))"
  by (induction as arbitrary: actions) (auto simp: staged_abort_one)

lemma staged_abort:
  "staged_requests (abort_subtransaction level actions) =
     {r \<in> staged_requests actions. fst r < level}
     \<union> {parent_level level} \<times> \<Union> (after_abort ` snd ` {r \<in> staged_requests actions. level \<le> fst r})"
proof -
  have "staged_requests (filter (\<lambda>a. \<not> level \<le> action_nest_level a) actions) = {r \<in> staged_requests actions. fst r < level}"
    by (auto simp: staged_requests_def)
  moreover have "(\<Union>a\<in>set (filter (\<lambda>a. level \<le> action_nest_level a) actions). after_abort (action_database_oid a, action_kind a))
      = \<Union> (after_abort ` snd ` {r \<in> staged_requests actions. level \<le> fst r})"
    by (fastforce simp: staged_requests_def)
  ultimately show ?thesis by (simp add: abort_subtransaction_def staged_abort_fold Let_def)
qed

lemma staged_commit:
  "staged_requests (commit_subtransaction level actions) =
     (\<lambda>r. (if level \<le> fst r then parent_level level else fst r, snd r)) ` staged_requests actions"
  unfolding staged_requests_def commit_subtransaction_def set_map image_image by (rule image_cong) simp_all

lemma parent_level_succ: "1 \<le> n \<Longrightarrow> parent_level (n + 1) = n"
  by (simp add: parent_level_def i32_min_def)

lemma stage_request_simps [simp]:
  "staged_requests (staged (stage_request n r b)) = insert (n, r) (staged_requests (staged b))" "runtime (stage_request n r b) = runtime b"
  by (cases r; simp add: stage_request_def staged_record)+

lemma sub_commit_requests:
  assumes "1 \<le> n" and "\<And>r. r \<in> S \<Longrightarrow> fst r \<le> n" and "staged_requests (staged b) = S \<union> {n + 1} \<times> R"
  shows "staged_requests (staged (worker_subxact_callback (n + 1) SubxactCommit b)) = S \<union> {n} \<times> R"
proof -
  have "(\<lambda>r. (if n + 1 \<le> fst r then n else fst r, snd r)) ` S = S" using assms(2) by force
  moreover have "(\<lambda>r. (if n + 1 \<le> fst r then n else fst r, snd r)) ` ({n + 1} \<times> R) = {n} \<times> R"
    by (auto simp: image_iff)
  ultimately show ?thesis
    by (simp add: worker_subxact_callback_def) (simp only: staged_commit assms(3) image_Un parent_level_succ [OF assms(1)])
qed

lemma sub_abort_requests:
  assumes "1 \<le> n" and "\<And>r. r \<in> S \<Longrightarrow> fst r \<le> n" and "staged_requests (staged b) = S \<union> {n + 1} \<times> R"
  shows "staged_requests (staged (worker_subxact_callback (n + 1) SubxactAbort b)) = S \<union> {n} \<times> \<Union> (after_abort ` R)"
proof -
  have "{r \<in> S \<union> {n + 1} \<times> R. fst r < n + 1} = S" using assms(2) by force
  moreover have "snd ` {r \<in> S \<union> {n + 1} \<times> R. n + 1 \<le> fst r} = R" using assms(2) by force
  ultimately show ?thesis
    by (simp add: worker_subxact_callback_def staged_abort assms(3) parent_level_succ [OF assms(1)])
qed

lemma execs_requests:
  assumes "\<And>p n b. p \<in> set ps \<Longrightarrow> 1 \<le> n \<Longrightarrow> (\<And>r. r \<in> staged_requests (staged b) \<Longrightarrow> fst r \<le> n) \<Longrightarrow>
      runtime (exec n p b) = runtime b \<and> staged_requests (staged (exec n p b)) = staged_requests (staged b) \<union> {n} \<times> remaining p"
    and "1 \<le> n" and "\<And>r. r \<in> staged_requests (staged b) \<Longrightarrow> fst r \<le> n"
  shows "runtime (fold (exec n) ps b) = runtime b
    \<and> staged_requests (staged (fold (exec n) ps b)) = staged_requests (staged b) \<union> {n} \<times> \<Union> (set (map remaining ps))"
  using assms
proof (induction ps arbitrary: b)
  case (Cons p ps)
  have head: "runtime (exec n p b) = runtime b"
    "staged_requests (staged (exec n p b)) = staged_requests (staged b) \<union> {n} \<times> remaining p"
    using Cons.prems by simp_all
  then have "fst r \<le> n" if "r \<in> staged_requests (staged (exec n p b))" for r
    using that Cons.prems(3) [of r] unfolding head(2) by auto
  then have "runtime (fold (exec n) ps (exec n p b)) = runtime (exec n p b)
    \<and> staged_requests (staged (fold (exec n) ps (exec n p b)))
      = staged_requests (staged (exec n p b)) \<union> {n} \<times> \<Union> (set (map remaining ps))"
    using Cons.prems by (intro Cons.IH) simp_all
  then show ?case using head by auto
qed simp

definition session_exec :: "nest_level \<Rightarrow> (oid \<times> pending_action_kind) tx_prog \<Rightarrow> worker_session \<Rightarrow> worker_session" where
  "session_exec = tx_exec stage_request (\<lambda>level. worker_subxact_callback level SubxactCommit)
     (\<lambda>level. worker_subxact_callback level SubxactAbort)"

lemma session_execs_fold: "session_execs n ps b = fold (session_exec n) ps b"
  by (induction ps arbitrary: b) (simp_all add: session_execs_def session_exec_def)

lemma session_exec_requests:
  assumes "1 \<le> n" and "\<And>r. r \<in> staged_requests (staged b) \<Longrightarrow> fst r \<le> n"
  shows "runtime (session_exec n p b) = runtime b
    \<and> staged_requests (staged (session_exec n p b)) = staged_requests (staged b) \<union> {n} \<times> remaining p"
  using assms
proof (induction p arbitrary: n b)
  case (TxOp r)
  then show ?case by (auto simp: session_exec_def)
next
  case (TxSub ps committed)
  let ?b = "session_execs (n + 1) ps b"
  have "fst r \<le> n + 1" if "r \<in> staged_requests (staged b)" for r using TxSub.prems(2) [OF that] by simp
  then have b: "runtime ?b = runtime b"
      "staged_requests (staged ?b) = staged_requests (staged b) \<union> {n + 1} \<times> \<Union> (set (map remaining ps))"
    unfolding session_execs_fold using execs_requests [OF TxSub.IH] TxSub.prems(1) by simp_all
  have run: "session_exec n (TxSub ps committed) b = worker_subxact_callback (n + 1) (if committed then SubxactCommit else SubxactAbort) ?b"
    by (simp add: session_exec_def session_execs_def Let_def)
  have "runtime (worker_subxact_callback (n + 1) e ?b) = runtime b" for e
    by (cases e) (simp_all add: worker_subxact_callback_def b)
  then show ?case
    using sub_commit_requests [OF TxSub.prems b(2)] sub_abort_requests [OF TxSub.prems b(2)] by (simp add: run Let_def)
qed

lemma staged_tree:
  "staged_requests (staged (session_execs 1 ps \<lparr> staged = [], runtime = s \<rparr>)) = {1} \<times> \<Union> (set (map remaining ps))
   \<and> runtime (session_execs 1 ps \<lparr> staged = [], runtime = s \<rparr>) = s"
proof -
  have "runtime (fold (session_exec 1) ps \<lparr> staged = [], runtime = s \<rparr>) = s
    \<and> staged_requests (staged (fold (session_exec 1) ps \<lparr> staged = [], runtime = s \<rparr>)) = {1} \<times> \<Union> (set (map remaining ps))"
    using execs_requests [of ps session_exec 1 "\<lparr> staged = [], runtime = s \<rparr>"] session_exec_requests by simp
  then show ?thesis by (simp add: session_execs_fold)
qed

text \<open>
  C29. Staged requests follow the savepoints. After any tree of subtransactions the requests staged for
  the end of the transaction are exactly those of the committed parts, together with what the aborted
  parts leave: their reconciliations and scans, and for each DROP a reconciliation and a full scan. No
  wake-up of an aborted part remains, all requests belong to the top level, and the shared state has not
  been touched.
\<close>
theorem staged_requests_follow_savepoints:
  "staged_requests (staged (session_execs 1 ps \<lparr> staged = [], runtime = s \<rparr>)) = {1} \<times> \<Union> (set (map remaining ps))
   \<and> runtime (session_execs 1 ps \<lparr> staged = [], runtime = s \<rparr>) = s"
  by (rule staged_tree)

section \<open>The end of the transaction\<close>

text \<open>Applying an action is a sequence of operations of the store.\<close>

definition action_events :: "bool \<Rightarrow> pending_action \<Rightarrow> store_event list" where
  "action_events committed a = (case action_kind a of
       WakeAction k \<Rightarrow> if committed then [WakeWorker k] else []
     | ReconcileAction \<Rightarrow> [ReconcileDatabase (action_database_oid a)]
     | WakeWorkersAction \<Rightarrow> if committed then [WakeDatabase (action_database_oid a)] else []
     | DropAction \<Rightarrow> if committed then [FullRescan] else [ReconcileDatabase (action_database_oid a), FullRescan]
     | RescanAction \<Rightarrow> [FullRescan])"

lemma action_events_mild:
  "e \<in> set (action_events committed a) \<Longrightarrow> event_ok e \<and> \<not> reserves d e \<and> e \<noteq> TakeFullScan \<and> d \<notin> dropped_by e"
  by (cases "action_kind a") (auto simp: action_events_def event_ok_def reserves_def dropped_by_def split: if_splits)

lemma mild_events: "list_all (\<lambda>e. event_ok e \<and> \<not> reserves d e \<and> e \<noteq> TakeFullScan \<and> d \<notin> dropped_by e) (concat (map (action_events committed) as))"
  using action_events_mild by (fastforce simp: list_all_iff)

lemma request_Inr:
  assumes "store_ok s" and "hash_laws H"
  shows "\<exists>w. wake_worker k s = (Inr w, store_step H (WakeWorker k) s)"
    and "\<exists>w. wake_database_workers H d s = (Inr w, store_step H (WakeDatabase d) s)"
    and "\<exists>w. request_database_reconcile d s = (Inr w, store_step H (ReconcileDatabase d) s)"
proof -
  have Inr: "\<exists>w. request_coordination_locked e t = (Inr w, snd (request_coordination_locked e t))" if "store_ok t" for e t
    using request_coordination_eq [OF store_ok_database [OF that], of e] by auto
  let ?t = "snd (with_worker k (\<lambda>w. ((), slot_request_wakeup w)) s)"
  have "quiet_on {} e s ?t" for e by (rule with_worker_quiet) simp
  from Inr [OF store_ok_quiet [OF this assms(1)], of "key_database_oid k"]
  show "\<exists>w. wake_worker k s = (Inr w, store_step H (WakeWorker k) s)"
    by (simp add: store_step_def wake_worker_def split_def Let_def)
  obtain u where u: "wake_database_workers H d s = request_coordination_locked d u" "\<And>e. quiet_on {} e s u"
    using wake_database_eq [OF assms] by blast
  from Inr [OF store_ok_quiet [OF u(2) assms(1)], of d]
  show "\<exists>w. wake_database_workers H d s = (Inr w, store_step H (WakeDatabase d) s)"
    by (simp add: store_step_def u(1))
  from Inr [OF assms(1), of d] show "\<exists>w. request_database_reconcile d s = (Inr w, store_step H (ReconcileDatabase d) s)"
    by (simp add: store_step_def request_database_reconcile_def)
qed

lemma apply_action_events:
  assumes "store_ok s" and "hash_laws H"
  shows "\<exists>w. apply_action H committed a s = (Inr w, fold (store_step H) (action_events committed a) s)"
proof -
  note r = request_Inr [OF assms]
  have scan: "request_full_rescan t = (True, store_step H FullRescan t)" for t
    by (simp add: store_step_def request_full_rescan_def)
  show ?thesis
    using r(1) r(2) [of "action_database_oid a"] r(3) [of "action_database_oid a"]
    by (cases "action_kind a") (auto simp: apply_action_def action_events_def ok_act_def bind_act_def scan)
qed

lemma run_store_ok:
  "store_ok s \<Longrightarrow> hash_laws H \<Longrightarrow> list_all event_ok es \<Longrightarrow> store_ok (fold (store_step H) es s)"
  by (induction es arbitrary: s) (auto intro: store_step_database(1))

lemma apply_actions_events:
  assumes "store_ok s" and "hash_laws H"
  shows "\<exists>w. apply_actions H committed as wake s = (Inr w, fold (store_step H) (concat (map (action_events committed) as)) s)"
  using assms(1)
proof (induction as arbitrary: s wake)
  case (Cons a as)
  obtain w where w: "apply_action H committed a s = (Inr w, fold (store_step H) (action_events committed a) s)"
    using apply_action_events [OF Cons.prems assms(2)] by blast
  have "list_all event_ok (action_events committed a)" using action_events_mild by (auto simp: list_all_iff)
  then have "store_ok (fold (store_step H) (action_events committed a) s)" by (rule run_store_ok [OF Cons.prems assms(2)])
  from Cons.IH [OF this] show ?case by (simp add: bind_act_def w)
qed (simp add: ok_act_def)

lemma full_rescan_run:
  assumes "FullRescan \<in> set es" and "TakeFullScan \<notin> set es"
  shows "rescan_all (shared (fold (store_step H) es s))"
proof -
  have keep: "rescan_all (shared (fold (store_step H) fs u))" if "TakeFullScan \<notin> set fs" "rescan_all (shared u)" for fs u
    using that
  proof (induction fs arbitrary: u)
    case (Cons e fs)
    then show ?case using keeps_scanD [OF keeps_scan_step, of e u H] by (auto simp: store_step_def)
  qed simp
  obtain xs ys where es: "es = xs @ FullRescan # ys" using assms(1) by (auto dest: split_list)
  show ?thesis using keep [of ys] assms(2) by (simp add: es store_step_def request_full_rescan_def)
qed

lemma request_run_held:
  assumes "hash_laws H" and "store_ok s" and "ReconcileDatabase d \<in> set es" and "d \<noteq> invalid_oid"
    and "list_all (\<lambda>e. event_ok e \<and> \<not> reserves d e \<and> e \<noteq> TakeFullScan \<and> d \<notin> dropped_by e) es"
  shows "request_held d (fold (store_step H) es s)"
proof -
  obtain xs ys where es: "es = xs @ ReconcileDatabase d # ys" using assms(3) by (auto dest: split_list)
  have "list_all event_ok xs" using assms(5) by (auto simp: es list_all_iff)
  then have ok: "store_ok (fold (store_step H) xs s)" by (rule run_store_ok [OF assms(2,1)])
  have "request_held d (store_step H (ReconcileDatabase d) (fold (store_step H) xs s))"
    by (rule request_step_held [OF ok assms(1) _ assms(4)]) (simp add: requests_def)
  then show ?thesis
    using held_run [OF assms(1) store_step_database(1) [OF ok assms(1)]] assms(5) by (simp add: es event_ok_def)
qed

text \<open>All requests made in a tree of subtransactions, committed or not.\<close>

fun requested_in :: "(oid \<times> pending_action_kind) tx_prog \<Rightarrow> (oid \<times> pending_action_kind) set" where
  "requested_in (TxOp r) = {r}"
| "requested_in (TxSub ps committed) = \<Union> (set (map requested_in ps))"

lemma kept_by_abort: "snd r = ReconcileAction \<or> snd r = RescanAction \<Longrightarrow> r \<in> R \<Longrightarrow> r \<in> \<Union> (after_abort ` R)"
  by (cases r) force

lemma dropped_by_abort: "(d, DropAction) \<in> R \<Longrightarrow> (invalid_oid, RescanAction) \<in> \<Union> (after_abort ` R)"
  by force

lemma remaining_sub: "p \<in> set ps \<Longrightarrow> r \<in> remaining p \<Longrightarrow> r \<in> \<Union> (set (map remaining ps))"
  by auto

lemma kept_requests:
  assumes "snd r = ReconcileAction \<or> snd r = RescanAction"
  shows "r \<in> requested_in p \<Longrightarrow> r \<in> remaining p"
proof (induction p)
  case (TxSub ps committed)
  then have "r \<in> \<Union> (set (map remaining ps))" by auto
  then show ?case using kept_by_abort [OF assms] by (simp only: remaining.simps Let_def simp_thms split: if_split)
qed simp

lemma drop_leaves_scan:
  "(d, DropAction) \<in> requested_in p \<Longrightarrow> (d, DropAction) \<in> remaining p \<or> (\<exists>e. (e, RescanAction) \<in> remaining p)"
proof (induction p)
  case (TxSub ps committed)
  let ?R = "\<Union> (set (map remaining ps))"
  from TxSub have R: "(d, DropAction) \<in> ?R \<or> (\<exists>e. (e, RescanAction) \<in> ?R)" by (simp, blast)
  have "(e, RescanAction) \<in> \<Union> (after_abort ` ?R)" if "(e, RescanAction) \<in> ?R" for e
    by (rule kept_by_abort [OF _ that]) simp
  with R dropped_by_abort [of d ?R] have "\<exists>e. (e, RescanAction) \<in> \<Union> (after_abort ` ?R)" by meson
  with R show ?case by (simp only: remaining.simps Let_def simp_thms split: if_split)
qed simp

lemma action_of_request:
  assumes "staged_requests as = {1} \<times> R" and "(d, kind) \<in> R"
  shows "\<exists>a\<in>set as. action_database_oid a = d \<and> action_kind a = kind"
proof -
  have "(1, d, kind) \<in> staged_requests as" using assms by simp
  then show ?thesis by (auto simp: staged_requests_def)
qed

text \<open>
  C14. Irreversible requests are always honoured. Whatever savepoints the requests of a transaction were
  made under and however each of them and the transaction end: after the transaction's end callback no
  request is left, every database for which a reconciliation was requested has its request held by the
  shared state (by its coordinator's slot or by the pending full scan), and the full scan is pending if a
  DROP or a scan was requested.
\<close>
theorem requests_always_honoured:
  assumes "hash_laws H" and "store_reachable H s" and "event \<in> {XactCommit, XactAbort}"
    and "worker_xact_callback H event (session_execs 1 ps \<lparr> staged = [], runtime = s \<rparr>) = (r, b)"
  shows "r = Inr () \<and> staged b = []
    \<and> (\<forall>d. d \<noteq> invalid_oid \<longrightarrow> (d, ReconcileAction) \<in> \<Union> (set (map requested_in ps)) \<longrightarrow> request_held d (runtime b))
    \<and> (\<forall>d. (d, DropAction) \<in> \<Union> (set (map requested_in ps)) \<or> (d, RescanAction) \<in> \<Union> (set (map requested_in ps))
        \<longrightarrow> rescan_all (shared (runtime b)))"
proof -
  have ok: "store_ok s" using store_reachable_ok assms(1,2) by blast
  let ?b = "session_execs 1 ps \<lparr> staged = [], runtime = s \<rparr>" and ?R = "\<Union> (set (map remaining ps))"
  define committed where "committed = (event = XactCommit)"
  let ?es = "concat (map (action_events committed) (staged ?b))"
  define t where "t = fold (store_step H) ?es s"
  have b0: "staged_requests (staged ?b) = {1} \<times> ?R" "runtime ?b = s"
    using staged_tree [of ps s] by blast+
  obtain w where w: "apply_actions H committed (staged ?b) False s = (Inr w, t)"
    using apply_actions_events [OF ok assms(1)] unfolding t_def by blast
  have "worker_xact_callback H event ?b = finish_actions H committed ?b"
    using assms(3) by (auto simp: worker_xact_callback_def committed_def)
  then have res: "r = Inr ()" "staged b = []" "shared (runtime b) = shared t" "coordinator_table (runtime b) = coordinator_table t"
    using assms(4) by (auto simp: finish_actions_def b0(2) w)
  have "request_held d (runtime b)" if "d \<noteq> invalid_oid" "(d, ReconcileAction) \<in> \<Union> (set (map requested_in ps))" for d
  proof -
    have "(d, ReconcileAction) \<in> ?R" using that(2) kept_requests [of "(d, ReconcileAction)"] by auto
    from action_of_request [OF b0(1) this] obtain a where
      a: "a \<in> set (staged ?b)" "action_database_oid a = d" "action_kind a = ReconcileAction" by blast
    then have "ReconcileDatabase d \<in> set ?es" by (auto simp: action_events_def intro!: bexI [of _ a])
    from request_run_held [OF assms(1) ok this that(1) mild_events] show ?thesis by (simp add: request_held_def res t_def)
  qed
  moreover have "rescan_all (shared (runtime b))"
    if d: "(d, DropAction) \<in> \<Union> (set (map requested_in ps)) \<or> (d, RescanAction) \<in> \<Union> (set (map requested_in ps))" for d
  proof -
    obtain p where p: "p \<in> set ps" "(d, DropAction) \<in> requested_in p \<or> (d, RescanAction) \<in> requested_in p" using d by auto
    then have "(d, DropAction) \<in> remaining p \<or> (\<exists>e. (e, RescanAction) \<in> remaining p)"
      using kept_requests [of "(d, RescanAction)" p] drop_leaves_scan [of d p] by (metis snd_conv)
    then have "(\<exists>e. (e, DropAction) \<in> ?R) \<or> (\<exists>e. (e, RescanAction) \<in> ?R)"
      using remaining_sub [OF p(1)] by meson
    then obtain a where a: "a \<in> set (staged ?b)" "action_kind a = DropAction \<or> action_kind a = RescanAction"
      using action_of_request [OF b0(1)] by meson
    then have "FullRescan \<in> set (action_events committed a)" by (auto simp: action_events_def)
    with a(1) have "FullRescan \<in> set ?es" by auto
    moreover have "TakeFullScan \<notin> set ?es" using action_events_mild by fastforce
    ultimately show ?thesis using full_rescan_run by (simp add: res(3) t_def)
  qed
  ultimately show ?thesis using res(1,2) by blast
qed

theorem requests_always_honoured_witness:
  "let b = snd (worker_xact_callback demo_hash XactAbort (session_execs 1
       [TxSub [TxOp (5, ReconcileAction), TxSub [TxOp (6, DropAction)] True] False] \<lparr> staged = [], runtime = demo_store \<rparr>))
   in request_held 5 (runtime b) \<and> rescan_all (shared (runtime b))"
proof -
  have "XactAbort \<in> {XactCommit, XactAbort}" by simp
  from requests_always_honoured [OF demo_hash_laws demo_store_reachable this surjective_pairing,
      of "[TxSub [TxOp (5, ReconcileAction), TxSub [TxOp (6, DropAction)] True] False]"]
  show ?thesis by (simp add: Let_def invalid_oid_def)
qed

end
