(* ===== verification/Worker_Supervisor.thy ===== *)
theory Worker_Supervisor
  imports Worker_Runs
begin

text \<open>
  The supervisor process (\<open>lagodb-base/src/worker/supervisor.rs\<close>) and its queue of databases
  (\<open>scheduler.rs\<close>). The supervisor is the only user of its queue; the store it shares with all other
  processes, which act on it between its calls. Time is a monotone clock in nanoseconds. The order in
  which a \<open>HashMap\<close> or \<open>HashSet\<close> is iterated, the answers of PostgreSQL and what other processes do
  while the supervisor waits are parameters.
\<close>

section \<open>The queue\<close>

datatype database_schedule = ScheduleIdle | SchedulePending | RetryAt nat

record scheduler =
  pending :: "oid list"
  databases :: "oid \<rightharpoonup> database_schedule"
  due_retries :: "oid list"

definition new_scheduler :: scheduler where
  "new_scheduler = \<lparr> pending = [], databases = Map.empty, due_retries = [] \<rparr>"

definition enqueue :: "oid \<Rightarrow> scheduler \<Rightarrow> scheduler" where
  "enqueue d S =
     (if d = invalid_oid then S
      else case databases S d of
          None \<Rightarrow> S
        | Some schedule \<Rightarrow>
            if schedule = ScheduleIdle
            then S \<lparr> databases := (databases S)(d \<mapsto> SchedulePending), pending := pending S @ [d] \<rparr>
            else S)"

definition defer_retry :: "nat \<Rightarrow> oid \<Rightarrow> duration \<Rightarrow> scheduler \<Rightarrow> scheduler" where
  "defer_retry now d delay S =
     (let S = S \<lparr> pending := filter (\<lambda>queued. queued \<noteq> d) (pending S) \<rparr>
      in case databases S d of
           None \<Rightarrow> S
         | Some schedule \<Rightarrow> S \<lparr> databases := (databases S)(d \<mapsto> RetryAt (now + delay)) \<rparr>)"

definition is_due :: "nat \<Rightarrow> database_schedule option \<Rightarrow> bool" where
  "is_due now schedule = (case schedule of Some (RetryAt not_before) \<Rightarrow> not_before \<le> now | _ \<Rightarrow> False)"

definition promote_due_retries :: "((oid \<rightharpoonup> database_schedule) \<Rightarrow> oid list) \<Rightarrow> nat \<Rightarrow> scheduler \<Rightarrow> scheduler" where
  "promote_due_retries iter now S =
     (let due = filter (\<lambda>d. is_due now (databases S d)) (iter (databases S))
      in (fold (\<lambda>d S. S \<lparr> databases := (databases S)(d \<mapsto> SchedulePending), pending := pending S @ [d] \<rparr>) due
            S) \<lparr> due_retries := [] \<rparr>)"

definition next_deadline_delay :: "((oid \<rightharpoonup> database_schedule) \<Rightarrow> oid list) \<Rightarrow> nat \<Rightarrow> scheduler \<Rightarrow> duration option" where
  "next_deadline_delay iter now S =
     (let delays = List.map_filter (\<lambda>d. case databases S d of Some (RetryAt deadline) \<Rightarrow> Some (deadline - now) | _ \<Rightarrow> None)
            (iter (databases S))
      in if delays = [] then None else Some (Min (set delays)))"

definition reconcile_live :: "(oid set \<Rightarrow> oid list) \<Rightarrow> oid set \<Rightarrow> scheduler \<Rightarrow> oid list \<times> scheduler" where
  "reconcile_live items live S =
     (let S = S \<lparr> pending := filter (\<lambda>d. d \<in> live) (pending S), databases := (databases S) |` live \<rparr>
      in fold (\<lambda>d (discovered, S).
             if databases S d = None then (discovered @ [d], S \<lparr> databases := (databases S)(d \<mapsto> ScheduleIdle) \<rparr>)
             else (discovered, S)) (items live) ([], S))"

definition pop_front :: "scheduler \<Rightarrow> (store_error + oid option) \<times> scheduler" where
  "pop_front S = (case pending S of
       [] \<Rightarrow> (Inr None, S)
     | d # rest \<Rightarrow>
         let S = S \<lparr> pending := rest \<rparr> in
         (case databases S d of
            None \<Rightarrow> (Inl (Panicked ''queued database must belong to the candidate snapshot''), S)
          | Some schedule \<Rightarrow> (Inr (Some d), S \<lparr> databases := (databases S)(d \<mapsto> ScheduleIdle) \<rparr>)))"

section \<open>Starting coordinators\<close>

datatype coordinator_start = CoordStarted | CoordAlreadyActive | CoordNoWork | CoordDeferred | CoordRetrySoon | CoordFailed

datatype dynamic_start = DynamicStarted int | DynamicStopped | DynamicPostmasterDied

text \<open>
  What one attempt meets: the lifecycle lock, the postmaster's answer to the registration, what other
  processes do until the startup is known, the startup's result, and whether the transaction around
  the attempt commits.
\<close>

record attempt =
  lock_granted :: bool
  registration_accepted :: bool
  meanwhile :: "store_event list"
  startup :: dynamic_start
  transaction_commits :: bool

definition start_coordinator :: "hash_env \<Rightarrow> attempt \<Rightarrow> oid \<Rightarrow> coordinator_start store_act" where
  "start_coordinator H a d =
     bind_act (register_coordinator H (registration_accepted a) d)
       (\<lambda>registration s. case registration of
            CoordinatorRegistered \<Rightarrow>
              let s = fold (store_step H) (meanwhile a) s in
              (case startup a of
                 DynamicStarted p \<Rightarrow> (Inr CoordStarted, s)
               | _ \<Rightarrow> (Inr CoordRetrySoon, coordinator_registration_failed d s))
          | CoordinatorAlreadyActive \<Rightarrow> (Inr CoordAlreadyActive, s)
          | CoordinatorNoWork \<Rightarrow> (Inr CoordNoWork, s)
          | CoordinatorStartError \<Rightarrow> (Inr CoordRetrySoon, s))"

definition try_start_coordinator :: "hash_env \<Rightarrow> attempt \<Rightarrow> oid \<Rightarrow> worker_store \<Rightarrow> coordinator_start \<times> worker_store" where
  "try_start_coordinator H a d s =
     (let (r, s) = (if \<not> lock_granted a then (Inr CoordDeferred, s) else start_coordinator H a d s)
      in (case r of Inl err \<Rightarrow> CoordFailed | Inr start \<Rightarrow> if transaction_commits a then start else CoordFailed, s))"

definition supervisor_error_retry :: duration where "supervisor_error_retry = from_millis 5000"

text \<open>The loop over \<open>0..attempts\<close>; \<open>clock i\<close> is the time after the attempt \<open>i\<close>.\<close>

fun start_pending_loop :: "hash_env \<Rightarrow> (nat \<Rightarrow> attempt) \<Rightarrow> (nat \<Rightarrow> nat) \<Rightarrow> nat \<Rightarrow> nat \<Rightarrow> scheduler \<Rightarrow> worker_store
    \<Rightarrow> (store_error + unit) \<times> scheduler \<times> worker_store" where
  "start_pending_loop H answers clock i 0 S s = (Inr (), S, s)"
| "start_pending_loop H answers clock i (Suc n) S s =
     (case pop_front S of
        (Inl err, S) \<Rightarrow> (Inl err, S, s)
      | (Inr None, S) \<Rightarrow> (Inr (), S, s)
      | (Inr (Some d), S) \<Rightarrow>
          (case try_start_coordinator H (answers i) d s of
             (CoordDeferred, s) \<Rightarrow> start_pending_loop H answers clock (Suc i) n (enqueue d S) s
           | (CoordRetrySoon, s) \<Rightarrow> (Inr (), defer_retry (clock i) d capacity_retry S, s)
           | (CoordFailed, s) \<Rightarrow> (Inr (), defer_retry (clock i) d supervisor_error_retry S, s)
           | (_, s) \<Rightarrow> start_pending_loop H answers clock (Suc i) n S s))"

definition start_pending_coordinators ::
  "hash_env \<Rightarrow> (nat \<Rightarrow> attempt) \<Rightarrow> (nat \<Rightarrow> nat) \<Rightarrow> scheduler \<Rightarrow> worker_store \<Rightarrow> (store_error + unit) \<times> scheduler \<times> worker_store" where
  "start_pending_coordinators H answers clock S s = start_pending_loop H answers clock 0 (length (pending S)) S s"

section \<open>The passes of the supervisor\<close>

record supervisor_env =
  iter_databases :: "(oid \<rightharpoonup> database_schedule) \<Rightarrow> oid list"
  iter_oids :: "oid set \<Rightarrow> oid list"

text \<open>The scan of \<open>pg_database\<close>: \<open>None\<close> is an error, otherwise the live databases and the candidates.\<close>

type_synonym database_scan = "(oid set \<times> oid set) option"

definition reconcile_database_list ::
  "hash_env \<Rightarrow> supervisor_env \<Rightarrow> database_scan \<Rightarrow> bool \<Rightarrow> scheduler \<Rightarrow> worker_store \<Rightarrow> scheduler \<times> worker_store" where
  "reconcile_database_list H E scan probe_all S s = (case scan of
       None \<Rightarrow> (fold enqueue (iter_oids E (all_worker_databases H s)) S, snd (request_full_rescan s))
     | Some (live, candidates) \<Rightarrow>
         let (discovered, S) = reconcile_live (iter_oids E) candidates S;
             scheduled = (if probe_all then iter_oids E candidates
               else filter (\<lambda>d. d \<in> candidates) (iter_oids E (all_worker_databases H s)) @ discovered)
         in (fold enqueue scheduled S, remove_dropped_databases H live s))"

definition next_wait_timeout :: "supervisor_env \<Rightarrow> duration \<Rightarrow> duration \<Rightarrow> nat \<Rightarrow> nat \<Rightarrow> scheduler \<Rightarrow> duration" where
  "next_wait_timeout E naptime interval last_full_scan now S =
     fold (\<lambda>candidate timeout. case candidate of None \<Rightarrow> timeout | Some c \<Rightarrow> min timeout c)
       [next_deadline_delay (iter_databases E) now S, Some (interval - (now - last_full_scan))] naptime"

text \<open>The body of the loop of \<open>Supervisor::run\<close> up to the wait.\<close>

definition supervisor_prepare ::
  "hash_env \<Rightarrow> supervisor_env \<Rightarrow> database_scan \<Rightarrow> bool \<Rightarrow> nat \<Rightarrow> scheduler \<Rightarrow> worker_store \<Rightarrow> scheduler \<times> worker_store" where
  "supervisor_prepare H E scan interval_elapsed now S s =
     (let S = promote_due_retries (iter_databases E) now S;
          (explicit_full_scan, s) = take_full_scan_request s;
          (S, s) = (if explicit_full_scan \<or> interval_elapsed then reconcile_database_list H E scan explicit_full_scan S s else (S, s))
      in (fold enqueue (requested_databases H s) S, s))"

definition supervisor_pass ::
  "hash_env \<Rightarrow> supervisor_env \<Rightarrow> database_scan \<Rightarrow> bool \<Rightarrow> (nat \<Rightarrow> attempt) \<Rightarrow> (nat \<Rightarrow> nat) \<Rightarrow> nat \<Rightarrow> scheduler \<Rightarrow> worker_store
    \<Rightarrow> (store_error + unit) \<times> scheduler \<times> worker_store" where
  "supervisor_pass H E scan interval_elapsed answers clock now S s =
     (let (S, s) = supervisor_prepare H E scan interval_elapsed now S s in start_pending_coordinators H answers clock S s)"

section \<open>The queue invariant\<close>

text \<open>The queue holds exactly the databases marked pending, each once, and never the invalid one.\<close>

definition queue_ok :: "scheduler \<Rightarrow> bool" where
  "queue_ok S \<longleftrightarrow> finite (dom (databases S)) \<and> distinct (pending S)
     \<and> (\<forall>d. d \<in> set (pending S) \<longleftrightarrow> databases S d = Some SchedulePending)
     \<and> (databases S invalid_oid = None \<or> databases S invalid_oid = Some ScheduleIdle)"

text \<open>A database the queue will come back to: it is queued, or waits for its retry time.\<close>

definition attended :: "oid \<Rightarrow> scheduler \<Rightarrow> bool" where
  "attended d S \<longleftrightarrow> d \<in> set (pending S) \<or> (\<exists>t. databases S d = Some (RetryAt t))"

lemma queue_ok_new: "queue_ok new_scheduler"
  by (simp add: queue_ok_def new_scheduler_def)

lemma enqueue_eq:
  "enqueue d S = (if d \<noteq> invalid_oid \<and> databases S d = Some ScheduleIdle
     then S \<lparr> databases := (databases S)(d \<mapsto> SchedulePending), pending := pending S @ [d] \<rparr> else S)"
  by (auto simp: enqueue_def split: option.splits)

lemma queue_ok_enqueue:
  assumes "queue_ok S"
  shows "queue_ok (enqueue d S)" and "dom (databases (enqueue d S)) = dom (databases S)" and "attended e S \<Longrightarrow> attended e (enqueue d S)"
    and "d \<noteq> invalid_oid \<Longrightarrow> d \<in> dom (databases S) \<Longrightarrow> attended d (enqueue d S)"
proof -
  show "queue_ok (enqueue d S)" "dom (databases (enqueue d S)) = dom (databases S)"
    using assms by (auto simp: enqueue_eq queue_ok_def)
  show "attended e S \<Longrightarrow> attended e (enqueue d S)" by (auto simp: enqueue_eq attended_def)
  show "attended d (enqueue d S)" if valid: "d \<noteq> invalid_oid" and d: "d \<in> dom (databases S)"
  proof -
    obtain x where x: "databases S d = Some x" using d by blast
    show ?thesis using valid x assms by (cases x) (auto simp: enqueue_eq attended_def queue_ok_def)
  qed
qed

lemma enqueue_all:
  assumes "queue_ok S"
  shows "queue_ok (fold enqueue ds S) \<and> dom (databases (fold enqueue ds S)) = dom (databases S)
    \<and> (\<forall>e. attended e S \<longrightarrow> attended e (fold enqueue ds S))
    \<and> (\<forall>d. d \<in> set ds \<longrightarrow> d \<noteq> invalid_oid \<longrightarrow> d \<in> dom (databases S) \<longrightarrow> attended d (fold enqueue ds S))"
  using assms
proof (induction ds arbitrary: S)
  case (Cons d ds)
  note one = queue_ok_enqueue [OF Cons.prems]
  from Cons.IH [OF one(1), of d] show ?case using one(2-4) by auto
qed simp

lemma queue_ok_defer:
  "queue_ok S \<Longrightarrow> d \<noteq> invalid_oid \<Longrightarrow> queue_ok (defer_retry now d delay S) \<and> dom (databases (defer_retry now d delay S)) = dom (databases S)"
  by (auto simp: queue_ok_def defer_retry_def Let_def split: option.splits)

lemma promote_fold:
  "fold (\<lambda>d S. S \<lparr> databases := (databases S)(d \<mapsto> SchedulePending), pending := pending S @ [d] \<rparr>) due S
   = S \<lparr> databases := (\<lambda>d. if d \<in> set due then Some SchedulePending else databases S d), pending := pending S @ due \<rparr>"
  by (induction due arbitrary: S) (auto simp: fun_eq_iff)

lemma promote_effect:
  assumes "queue_ok S" and "scan_law iter"
  shows "queue_ok (promote_due_retries iter now S) \<and> dom (databases (promote_due_retries iter now S)) = dom (databases S)
    \<and> (attended d S \<longrightarrow> attended d (promote_due_retries iter now S))
    \<and> (\<forall>t. databases S d = Some (RetryAt t) \<longrightarrow> t \<le> now \<longrightarrow> d \<in> set (pending (promote_due_retries iter now S)))"
proof -
  let ?due = "filter (\<lambda>d. is_due now (databases S d)) (iter (databases S))"
  have it: "distinct (iter (databases S))" "set (iter (databases S)) = dom (databases S)"
    using assms by (simp_all add: scan_law_def queue_ok_def)
  have due: "d \<in> set ?due \<longleftrightarrow> (\<exists>t. databases S d = Some (RetryAt t) \<and> t \<le> now)" for d
    using it(2) by (auto simp: is_due_def split: option.splits database_schedule.splits)
  have eq: "promote_due_retries iter now S = S \<lparr> databases := (\<lambda>d. if d \<in> set ?due then Some SchedulePending else databases S d),
      pending := pending S @ ?due, due_retries := [] \<rparr>"
    unfolding promote_due_retries_def Let_def promote_fold by simp
  have dom: "dom (\<lambda>d. if d \<in> set ?due then Some SchedulePending else databases S d) = dom (databases S)"
    using due by (auto split: if_splits)
  have "d \<notin> set ?due" if "d \<in> set (pending S)" for d
    using that assms(1) due [of d] by (auto simp: queue_ok_def)
  moreover have "invalid_oid \<notin> set ?due" using assms(1) due [of invalid_oid] by (auto simp: queue_ok_def)
  ultimately have "queue_ok (promote_due_retries iter now S)"
    using assms(1) it(1) dom due unfolding eq queue_ok_def by (auto simp del: set_filter)
  moreover have "attended d (promote_due_retries iter now S)" if "attended d S"
    using that unfolding eq attended_def by (auto simp del: set_filter)
  moreover have "d \<in> set (pending (promote_due_retries iter now S))" if "databases S d = Some (RetryAt t)" "t \<le> now" for t
    using that due [of d] unfolding eq by (auto simp del: set_filter)
  moreover have "dom (databases (promote_due_retries iter now S)) = dom (databases S)" unfolding eq using dom by simp
  ultimately show ?thesis by blast
qed

text \<open>The deadline of a retry is never slept over.\<close>

lemma wait_respects_deadlines:
  assumes "queue_ok S" and "scan_law (iter_databases E)" and "databases S d = Some (RetryAt t)"
  shows "next_wait_timeout E naptime interval scanned now S \<le> t - now"
proof -
  let ?delays = "List.map_filter (\<lambda>d. case databases S d of Some (RetryAt deadline) \<Rightarrow> Some (deadline - now) | _ \<Rightarrow> None)
      (iter_databases E (databases S))"
  have "set (iter_databases E (databases S)) = dom (databases S)"
    using assms(1,2) by (simp add: scan_law_def queue_ok_def)
  then have "d \<in> set (iter_databases E (databases S))" using assms(3) by blast
  then have "t - now \<in> set ?delays"
    using assms(3) by (force simp: List.map_filter_def)
  then have "?delays \<noteq> []" "Min (set ?delays) \<le> t - now" by auto
  then show ?thesis by (simp add: next_wait_timeout_def next_deadline_delay_def Let_def)
qed

definition oid_law :: "(oid set \<Rightarrow> oid list) \<Rightarrow> bool" where
  "oid_law items \<longleftrightarrow> (\<forall>A. distinct (items A) \<and> set (items A) = A)"

definition discover :: "oid \<Rightarrow> oid list \<times> scheduler \<Rightarrow> oid list \<times> scheduler" where
  "discover d = (\<lambda>(discovered, S). if databases S d = None then (discovered @ [d], S \<lparr> databases := (databases S)(d \<mapsto> ScheduleIdle) \<rparr>)
     else (discovered, S))"

lemma discover_fold:
  "pending (snd (fold discover ds (found, S))) = pending S"
  "databases (snd (fold discover ds (found, S))) e = (if e \<in> set ds \<and> databases S e = None then Some ScheduleIdle else databases S e)"
  by (induction ds arbitrary: found S) (auto simp: discover_def)

lemma reconcile_live_effect:
  assumes "queue_ok S" and "oid_law items"
  shows "queue_ok (snd (reconcile_live items live S)) \<and> dom (databases (snd (reconcile_live items live S))) = live
    \<and> (d \<in> live \<longrightarrow> attended d S \<longrightarrow> attended d (snd (reconcile_live items live S)))"
proof -
  let ?T = "snd (reconcile_live items live S)"
  have items: "set (items live) = live" using assms(2) by (simp add: oid_law_def)
  have p: "pending ?T = filter (\<lambda>d. d \<in> live) (pending S)"
    unfolding reconcile_live_def Let_def discover_def [symmetric] discover_fold by simp
  have m: "databases ?T e = (if e \<in> live then (if databases S e = None then Some ScheduleIdle else databases S e) else None)" for e
    unfolding reconcile_live_def Let_def discover_def [symmetric] discover_fold items by (simp add: restrict_map_def)
  show ?thesis
    using assms(1) by (auto simp: queue_ok_def attended_def p m dom_def split: if_splits)
qed

lemma reconcile_list_effect:
  assumes "queue_ok S" and "oid_law (iter_oids E)" and "reconcile_database_list H E (Some (live, candidates)) probe_all S s = (S', s')"
  shows "queue_ok S' \<and> dom (databases S') = candidates \<and> s' = remove_dropped_databases H live s
    \<and> (d \<in> candidates \<longrightarrow> d \<noteq> invalid_oid \<longrightarrow> probe_all \<or> attended d S \<longrightarrow> attended d S')"
proof -
  obtain discovered T where T: "reconcile_live (iter_oids E) candidates S = (discovered, T)" by (rule prod.exhaust)
  note live = reconcile_live_effect [OF assms(1,2), of candidates d, unfolded T snd_conv]
  have items: "set (iter_oids E candidates) = candidates" using assms(2) by (simp add: oid_law_def)
  obtain ds where ds: "S' = fold enqueue ds T" "probe_all \<longrightarrow> ds = iter_oids E candidates"
    and s': "s' = remove_dropped_databases H live s"
    using assms(3) by (auto simp: reconcile_database_list_def T)
  have all: "queue_ok (fold enqueue ds T)" "dom (databases (fold enqueue ds T)) = candidates"
      "attended d T \<Longrightarrow> attended d (fold enqueue ds T)"
      "d \<in> set ds \<Longrightarrow> d \<noteq> invalid_oid \<Longrightarrow> d \<in> candidates \<Longrightarrow> attended d (fold enqueue ds T)"
    using live enqueue_all [of T ds] by auto
  have "attended d (fold enqueue ds T)" if "d \<in> candidates" "d \<noteq> invalid_oid" "probe_all \<or> attended d S"
    using that all(3,4) live ds(2) items by (cases probe_all) simp_all
  then show ?thesis using all(1,2) by (simp add: ds(1) s')
qed

section \<open>One round of starts\<close>

text \<open>The attempts of a round: the queue in order, up to the first database that has to be retried later.\<close>

fun attempts_on :: "hash_env \<Rightarrow> (nat \<Rightarrow> attempt) \<Rightarrow> nat \<Rightarrow> oid list \<Rightarrow> worker_store \<Rightarrow> (oid \<times> coordinator_start) list" where
  "attempts_on H answers i [] s = []"
| "attempts_on H answers i (d # ds) s =
     (let (r, s) = try_start_coordinator H (answers i) d s
      in (d, r) # (if r = CoordRetrySoon \<or> r = CoordFailed then [] else attempts_on H answers (Suc i) ds s))"

definition put_off :: "coordinator_start \<Rightarrow> bool" where
  "put_off r \<longleftrightarrow> r = CoordRetrySoon \<or> r = CoordFailed"

lemma attempts_prefix: "map fst (attempts_on H answers i ds s) = take (length (attempts_on H answers i ds s)) ds"
  by (induction H answers i ds s rule: attempts_on.induct) (auto split: prod.splits)

lemma attempts_stop:
  "length (attempts_on H answers i ds s) < length ds \<Longrightarrow>
     attempts_on H answers i ds s \<noteq> [] \<and> put_off (snd (last (attempts_on H answers i ds s)))"
proof (induction ds arbitrary: i s)
  case (Cons d ds)
  obtain r u where r: "try_start_coordinator H (answers i) d s = (r, u)" by (rule prod.exhaust)
  show ?case using Cons.prems Cons.IH [of "Suc i" u] by (cases "put_off r") (auto simp: r put_off_def)
qed simp

definition popped :: "oid \<Rightarrow> scheduler \<Rightarrow> scheduler" where
  "popped d S = S \<lparr> pending := tl (pending S), databases := (databases S)(d \<mapsto> ScheduleIdle) \<rparr>"

lemma pop_front_queued:
  assumes "queue_ok S" and "pending S = d # rest"
  shows "pop_front S = (Inr (Some d), popped d S)" and "queue_ok (popped d S)" and "pending (popped d S) = rest"
    and "databases (popped d S) d = Some ScheduleIdle" and "d \<noteq> invalid_oid"
    and "databases S e = Some (RetryAt t) \<Longrightarrow> databases (popped d S) e = Some (RetryAt t)"
proof -
  have d: "databases S d = Some SchedulePending" using assms by (auto simp: queue_ok_def)
  then show "pop_front S = (Inr (Some d), popped d S)" "d \<noteq> invalid_oid"
    using assms by (auto simp: pop_front_def popped_def queue_ok_def)
  show "queue_ok (popped d S)" using assms d by (auto simp: queue_ok_def popped_def)
  show "pending (popped d S) = rest" "databases (popped d S) d = Some ScheduleIdle" using assms(2) by (simp_all add: popped_def)
  show "databases (popped d S) e = Some (RetryAt t)" if "databases S e = Some (RetryAt t)" using that d by (auto simp: popped_def)
qed

lemma start_round:
  assumes "queue_ok S" and "pending S = ds @ behind"
  shows "\<exists>S' s'. start_pending_loop H answers clock i (length ds) S s = (Inr (), S', s') \<and> queue_ok S'
    \<and> pending S' = drop (length (attempts_on H answers i ds s)) ds @ behind
        @ map fst (filter (\<lambda>x. snd x = CoordDeferred) (attempts_on H answers i ds s))
    \<and> (\<forall>x\<in>set (attempts_on H answers i ds s). put_off (snd x) \<longrightarrow> (\<exists>t. databases S' (fst x) = Some (RetryAt t)))
    \<and> (\<forall>e t. databases S e = Some (RetryAt t) \<longrightarrow> databases S' e = Some (RetryAt t))"
  using assms
proof (induction ds arbitrary: i S s behind)
  case (Cons d ds)
  note pop = pop_front_queued [OF Cons.prems(1), of d "ds @ behind"]
  let ?S = "popped d S"
  have P: "pop_front S = (Inr (Some d), ?S)" "queue_ok ?S" "pending ?S = ds @ behind" "databases ?S d = Some ScheduleIdle"
      "d \<noteq> invalid_oid" using pop Cons.prems(2) by simp_all
  have keep: "databases S e = Some (RetryAt t) \<Longrightarrow> databases ?S e = Some (RetryAt t)" for e t
    using pop(6) Cons.prems(2) by simp
  obtain r u where r: "try_start_coordinator H (answers i) d s = (r, u)" by (rule prod.exhaust)
  show ?case
  proof (cases "put_off r")
    case True
    define delay where "delay = (if r = CoordRetrySoon then capacity_retry else supervisor_error_retry)"
    let ?T = "defer_retry (clock i) d delay ?S"
    have ok: "queue_ok ?T" using queue_ok_defer [OF P(2,5)] by blast
    have "d \<notin> set (pending ?S)" using P(2,4) by (auto simp: queue_ok_def)
    then have "filter (\<lambda>queued. queued \<noteq> d) (pending ?S) = pending ?S" by (intro filter_True) auto
    then have T: "pending ?T = ds @ behind" "databases ?T = (databases ?S)(d \<mapsto> RetryAt (clock i + delay))"
      using P(3,4) by (simp_all add: defer_retry_def Let_def)
    have "databases S d \<noteq> Some (RetryAt t)" for t using keep [of d t] P(4) by auto
    then have kept: "databases ?T e = Some (RetryAt t)" if "databases S e = Some (RetryAt t)" for e t
      using that keep [OF that] by (auto simp: T(2))
    have "start_pending_loop H answers clock i (length (d # ds)) S s = (Inr (), ?T, u)"
      using True by (auto simp: P(1) r put_off_def delay_def)
    moreover have "attempts_on H answers i (d # ds) s = [(d, r)]" "r \<noteq> CoordDeferred" using True by (auto simp: r put_off_def)
    ultimately show ?thesis using ok T kept by simp
  next
    case False
    let ?T = "if r = CoordDeferred then enqueue d ?S else ?S"
    have ok: "queue_ok ?T" using queue_ok_enqueue(1) [OF P(2)] P(2) by simp
    have T: "pending ?T = ds @ (behind @ (if r = CoordDeferred then [d] else []))"
        "\<And>e t. databases ?S e = Some (RetryAt t) \<Longrightarrow> databases ?T e = Some (RetryAt t)"
      using P(3-5) by (auto simp: enqueue_eq)
    from Cons.IH [OF ok T(1), of "Suc i" u] obtain S' s' where
      S': "start_pending_loop H answers clock (Suc i) (length ds) ?T u = (Inr (), S', s')" "queue_ok S'"
        "pending S' = drop (length (attempts_on H answers (Suc i) ds u)) ds @ (behind @ (if r = CoordDeferred then [d] else []))
          @ map fst (filter (\<lambda>x. snd x = CoordDeferred) (attempts_on H answers (Suc i) ds u))"
        "\<forall>x\<in>set (attempts_on H answers (Suc i) ds u). put_off (snd x) \<longrightarrow> (\<exists>t. databases S' (fst x) = Some (RetryAt t))"
        "\<forall>e t. databases ?T e = Some (RetryAt t) \<longrightarrow> databases S' e = Some (RetryAt t)" by blast
    have "start_pending_loop H answers clock i (length (d # ds)) S s = (Inr (), S', s')"
      using False S'(1) by (cases r) (simp_all add: P(1) r put_off_def)
    then show ?thesis using False S'(2-5) T(2) keep by (auto simp: r put_off_def)
  qed
qed simp

section \<open>The supervisor takes requests up\<close>

lemma requested_after_sweep:
  assumes "store_ok s" and "hash_laws H" and "d \<in> live"
  shows "d \<in> set (requested_databases H (remove_dropped_databases H live s)) \<longleftrightarrow> d \<in> set (requested_databases H s)"
proof -
  have ok: "store_ok (remove_dropped_databases H live s)"
    using remove_dropped_quiet [OF assms(1,2)] store_ok_quiet assms(1) by blast
  obtain t where t: "remove_dropped_databases H live s = sweep_workers H (\<lambda>w. database_oid w \<notin> live) t"
      "coordinator_table t = (\<lambda>d. case coordinator_table s d of None \<Rightarrow> None
        | Some c \<Rightarrow> if coord_database_oid c \<notin> live
            then (if process_is_active (coord_process c) then Some (coord_request_stop c) else None) else Some c)"
    using remove_dropped_eq [OF assms(1,2)] by blast
  have "coordinator_table (sweep_workers H gone t) = coordinator_table t" for gone
    by (simp add: sweep_workers_def split_def Let_def)
  moreover have "coord_database_oid c = d" if "coordinator_table s d = Some c" for c
    using that store_ok_database [OF assms(1), of d] by (simp add: database_ok_def)
  ultimately have "coordinator_table (remove_dropped_databases H live s) d = coordinator_table s d"
    using assms(3) by (auto simp: t split: option.splits)
  then show ?thesis by (simp add: requested_databases_iff [OF ok assms(2)] requested_databases_iff [OF assms(1,2)])
qed

lemma prepare_attends:
  assumes "hash_laws H" and "scan_law (iter_databases E)" and "oid_law (iter_oids E)" and "queue_ok S" and "store_ok s"
    and "d \<noteq> invalid_oid" and "rescan_all (shared s) \<or> d \<in> set (requested_databases H s)"
    and "if rescan_all (shared s) \<or> interval_elapsed then (\<exists>live candidates. scan = Some (live, candidates) \<and> d \<in> live \<and> d \<in> candidates)
      else d \<in> dom (databases S)"
    and "supervisor_prepare H E scan interval_elapsed now S s = (S1, s1)"
  shows "queue_ok S1 \<and> attended d S1"
proof -
  let ?P = "promote_due_retries (iter_databases E) now S" and ?s = "set_rescan_all False s"
  have P: "queue_ok ?P" "dom (databases ?P) = dom (databases S)"
    using promote_effect [OF assms(4,2)] by blast+
  have same: "requested_databases H ?s = requested_databases H s" by (simp add: requested_databases_def)
  have ok: "store_ok ?s" using assms(5) by (simp add: store_ok_def database_ok_def)
  obtain T t where T: "(if rescan_all (shared s) \<or> interval_elapsed
      then reconcile_database_list H E scan (rescan_all (shared s)) ?P ?s else (?P, ?s)) = (T, t)" by (rule prod.exhaust)
  have S1: "S1 = fold enqueue (requested_databases H t) T"
    using assms(9) T by (auto simp: supervisor_prepare_def take_full_scan_request_def)
  have "queue_ok T \<and> d \<in> dom (databases T) \<and> (rescan_all (shared s) \<longrightarrow> attended d T)
    \<and> (d \<in> set (requested_databases H s) \<longrightarrow> d \<in> set (requested_databases H t))"
  proof (cases "rescan_all (shared s) \<or> interval_elapsed")
    case False
    then have "T = ?P" "t = ?s" "d \<in> dom (databases S)" using T assms(8) by simp_all
    then show ?thesis using P False same by simp
  next
    case True
    then obtain live candidates where scan: "scan = Some (live, candidates)" "d \<in> live" "d \<in> candidates" using assms(8) by auto
    have "reconcile_database_list H E (Some (live, candidates)) (rescan_all (shared s)) ?P ?s = (T, t)" using T True scan(1) by simp
    from reconcile_list_effect [OF P(1) assms(3) this, of d] show ?thesis
      using scan(2,3) assms(6) same requested_after_sweep [OF ok assms(1) scan(2)] by simp
  qed
  then show ?thesis using enqueue_all [of T "requested_databases H t"] assms(6,7) by (auto simp: S1)
qed

text \<open>
  C20. The supervisor takes up every request. If a full scan is pending or the slot of a database asks for
  a coordinator, and the database exists and is no template, then one pass of the supervisor either tries to
  start its coordinator, or leaves it waiting for a retry time, or leaves it queued because the start of a
  database before it in the queue has been put off. A database whose lifecycle is locked stays queued, one
  whose start has been put off gets a retry time; no assertion of the queue fails, and the supervisor
  never sleeps past a retry time.
\<close>
theorem supervisor_takes_up_requests:
  assumes "hash_laws H" and "scan_law (iter_databases E)" and "oid_law (iter_oids E)" and "queue_ok S" and "store_reachable H s"
    and "d \<noteq> invalid_oid" and "rescan_all (shared s) \<or> d \<in> set (requested_databases H s)"
    and "if rescan_all (shared s) \<or> interval_elapsed then (\<exists>live candidates. scan = Some (live, candidates) \<and> d \<in> live \<and> d \<in> candidates)
      else d \<in> dom (databases S)"
    and "supervisor_prepare H E scan interval_elapsed now S s = (S1, s1)"
    and "A = attempts_on H answers 0 (pending S1) s1"
    and "supervisor_pass H E scan interval_elapsed answers clock now S s = (r, S2, s2)"
  shows "r = Inr () \<and> queue_ok S2
    \<and> (d \<in> fst ` set A \<or> (\<exists>t. databases S2 d = Some (RetryAt t))
        \<or> d \<in> set (pending S2) \<and> A \<noteq> [] \<and> put_off (snd (last A)))
    \<and> (\<forall>e. (e, CoordDeferred) \<in> set A \<longrightarrow> e \<in> set (pending S2))
    \<and> (\<forall>e. (e, CoordRetrySoon) \<in> set A \<or> (e, CoordFailed) \<in> set A \<longrightarrow> (\<exists>t. databases S2 e = Some (RetryAt t)))
    \<and> (\<forall>e t. databases S2 e = Some (RetryAt t) \<longrightarrow> next_wait_timeout E naptime interval scanned later S2 \<le> t - later)"
proof -
  have ok: "store_ok s" using store_reachable_ok assms(1,5) by blast
  have S1: "queue_ok S1" "attended d S1" using prepare_attends [OF assms(1-4) ok assms(6-9)] by simp_all
  from start_round [OF S1(1), of "pending S1" "[]" H answers clock 0 s1] obtain T t where
    T: "start_pending_coordinators H answers clock S1 s1 = (Inr (), T, t)" "queue_ok T"
      "pending T = drop (length A) (pending S1) @ map fst (filter (\<lambda>x. snd x = CoordDeferred) A)"
      "\<forall>x\<in>set A. put_off (snd x) \<longrightarrow> (\<exists>t. databases T (fst x) = Some (RetryAt t))"
      "\<forall>e t. databases S1 e = Some (RetryAt t) \<longrightarrow> databases T e = Some (RetryAt t)"
    unfolding start_pending_coordinators_def assms(10) by auto
  have res: "r = Inr ()" "S2 = T" using assms(9,11) T(1) by (simp_all add: supervisor_pass_def)
  have "d \<in> fst ` set A \<or> (\<exists>t. databases T d = Some (RetryAt t)) \<or> d \<in> set (pending T) \<and> A \<noteq> [] \<and> put_off (snd (last A))"
  proof (cases "d \<in> set (pending S1)")
    case True
    then have "d \<in> set (take (length A) (pending S1)) \<or> d \<in> set (drop (length A) (pending S1))"
      by (metis Un_iff append_take_drop_id set_append)
    moreover have "fst ` set A = set (take (length A) (pending S1))"
      using attempts_prefix [of H answers 0 "pending S1" s1] by (metis assms(10) list.set_map)
    moreover have "length A < length (pending S1)" if "d \<in> set (drop (length A) (pending S1))"
      using that by (metis drop_all empty_iff list.set(1) not_le)
    ultimately show ?thesis
      using attempts_stop [of H answers 0 "pending S1" s1] T(3) assms(10) by auto
  next
    case False
    then show ?thesis using S1(2) T(5) by (auto simp: attended_def)
  qed
  moreover have "e \<in> set (pending T)" if "(e, CoordDeferred) \<in> set A" for e using that T(3) by force
  moreover have "\<exists>t. databases T e = Some (RetryAt t)" if "(e, CoordRetrySoon) \<in> set A \<or> (e, CoordFailed) \<in> set A" for e
    using that T(4) by (force simp: put_off_def)
  ultimately show ?thesis
    using res T(2) wait_respects_deadlines [OF T(2) assms(2)] by blast
qed

definition demo_supervisor :: supervisor_env where
  "demo_supervisor = \<lparr> iter_databases = \<lambda>m. sorted_list_of_set (dom m), iter_oids = sorted_list_of_set \<rparr>"

definition demo_attempt :: attempt where
  "demo_attempt = \<lparr> lock_granted = False, registration_accepted = True, meanwhile = [], startup = DynamicStarted 80, transaction_commits = True \<rparr>"

lemma demo_supervisor_laws: "scan_law (iter_databases demo_supervisor)" "oid_law (iter_oids demo_supervisor)"
  by (simp_all add: scan_law_def oid_law_def demo_supervisor_def)

text \<open>A full scan finds database 5, whose lifecycle is locked.\<close>

theorem supervisor_takes_up_requests_witness:
  "\<exists>S2 s2. supervisor_pass demo_hash demo_supervisor (Some ({5}, {5})) False (\<lambda>_. demo_attempt) (\<lambda>_. 0) 0 new_scheduler
       (store_step demo_hash FullRescan demo_store) = (Inr (), S2, s2) \<and> queue_ok S2"
proof -
  let ?s = "store_step demo_hash FullRescan demo_store"
  have reach: "store_reachable demo_hash ?s" by (rule store_reachable.step [OF demo_store_reachable]) (simp add: event_ok_def)
  have scan: "rescan_all (shared ?s)" by (simp add: store_step_def request_full_rescan_def)
  obtain S1 s1 where prep: "supervisor_prepare demo_hash demo_supervisor (Some ({5}, {5})) False 0 new_scheduler ?s = (S1, s1)"
    by (rule prod.exhaust)
  obtain r S2 s2 where pass: "supervisor_pass demo_hash demo_supervisor (Some ({5}, {5})) False (\<lambda>_. demo_attempt) (\<lambda>_. 0) 0
      new_scheduler ?s = (r, S2, s2)" by (rule prod_cases3)
  have "r = Inr () \<and> queue_ok S2"
    using supervisor_takes_up_requests [OF demo_hash_laws demo_supervisor_laws queue_ok_new reach _ _ _ prep refl pass, of 5] scan
    by (simp add: invalid_oid_def)
  with pass show ?thesis by blast
qed

end
