(* ===== verification/Numeric_Codec.thy ===== *)
theory Numeric_Codec
  imports Complex_Main Prelude "HOL-Library.Word"
begin

text \<open>
  Decimal values between Arrow and PostgreSQL (\<open>lagodb-core/src/datum/numeric.rs\<close> and
  \<open>numeric/*.rs\<close>): NUMERIC type modifiers, the encoder of a 128-bit coefficient into PostgreSQL's
  external base-10000 form, the decoder of that form, big-endian two's-complement decimals as Avro
  has them, and the encoder of 256-bit aggregate results with its multi-word division.

  A byte is an \<open>8 word\<close>. Coefficients are integers; every \<open>checked\<close> operation of the source compares
  with the range of \<open>i128\<close>. \<open>None\<close> is a panic (an index out of range or a failed \<open>expect\<close>).
  \<open>numeric_send\<close> and \<open>numeric_recv\<close> of PostgreSQL are parameters.
\<close>

unbundle bit_operations_syntax

section \<open>Type modifiers\<close>

record numeric_typmod_fields =
  typmod_precision :: "32 word"
  typmod_scale :: "32 word"

definition varhdrsz :: "32 word" where
  "varhdrsz = 4"

definition numeric_typmod :: "32 word \<Rightarrow> 32 word \<Rightarrow> 32 word" where
  "numeric_typmod precision scale =
     (push_bit 16 precision OR (scale AND 0x7FF)) + varhdrsz"

definition numeric_precision_scale :: "32 word \<Rightarrow> numeric_typmod_fields option" where
  "numeric_precision_scale typmod =
     (if sint typmod < sint varhdrsz then None
      else let adjusted = typmod - varhdrsz;
               precision = signed_drop_bit 16 adjusted AND 0xFFFF;
               scale = ((adjusted AND 0x7FF) XOR 1024) - 1024
           in Some \<lparr> typmod_precision = precision, typmod_scale = scale \<rparr>)"

section \<open>The external form\<close>

definition dec_digits :: nat where "dec_digits = 4"
definition nbase :: nat where "nbase = 10000"
definition max_dec_digits :: nat where "max_dec_digits = 38"
definition max_ndigits :: nat where "max_ndigits = max_dec_digits div dec_digits + 1"
definition numeric_pos :: "16 word" where "numeric_pos = 0x0000"
definition numeric_neg :: "16 word" where "numeric_neg = 0x4000"
definition numeric_dscale_mask :: "16 word" where "numeric_dscale_mask = 0x3FFF"

datatype decimal_codec_error =
    PrecisionOutOfRange nat
  | ScaleOutOfRange nat nat
  | ValueOutOfRange nat nat string
  | InvalidBinaryRepresentation string

record numeric_external =
  ext_ndigits :: "16 word"
  ext_weight :: "16 word"
  ext_sign :: "16 word"
  ext_dscale :: "16 word"
  ext_digits :: "16 word list"

function decimal_digit_count :: "nat \<Rightarrow> nat" where
  "decimal_digit_count value = (if value = 0 then 0 else decimal_digit_count (value div 10) + 1)"
  by auto
termination by (relation "measure id") auto

text \<open>
  The base-10000 weight of the leading group and the number of decimal digits of the last group that
  lie before the end of the coefficient. Every quotient and remainder has non-negative operands, where
  \<open>div\<close> and \<open>mod\<close> are Rust's.
\<close>

definition group_weight :: "int \<Rightarrow> int" where
  "group_weight dweight =
     (if 0 \<le> dweight then (dweight + int dec_digits) div int dec_digits - 1
      else - ((- dweight - 1) div int dec_digits + 1))"

definition scale_padding_of :: "nat \<Rightarrow> int \<Rightarrow> nat" where
  "scale_padding_of nweight dweight =
     (let offset = (group_weight dweight + 1) * int dec_digits - (dweight + 1)
      in nat ((offset + int nweight) mod int dec_digits))"

text \<open>
  The loop over the coefficient: \<open>digits\<close> is filled from the back, and a digit that does not fit is
  an index out of range.
\<close>

function fill_digits :: "nat \<Rightarrow> nat \<Rightarrow> bool \<Rightarrow> nat \<Rightarrow> 16 word list \<Rightarrow> (nat \<times> 16 word list) option" where
  "fill_digits scale_padding value padding_done ndigits digits =
     (if value = 0 then Some (ndigits, digits)
      else let (digit, value') =
             (if \<not> padding_done then
                let pad_factor = 10 ^ scale_padding;
                    remain_factor = 10 ^ (dec_digits - scale_padding);
                    high = value div pad_factor;
                    low = value - high * pad_factor
                in (word_of_nat (low * remain_factor), high)
              else
                let high = value div nbase;
                    low = value - high * nbase
                in (word_of_nat low, high))
           in if max_ndigits < ndigits + 1 then None
              else fill_digits scale_padding value' True (ndigits + 1)
                     (digits[max_ndigits - (ndigits + 1) := digit]))"
  by pat_completeness auto
termination
  by (relation "measure (\<lambda>(p, v, b, n, d). 2 * v + (if b then 0 else 1))")
    (auto simp: Let_def nbase_def split: if_splits intro!: le_imp_less_Suc)

definition from_unsigned :: "nat \<Rightarrow> 16 word \<Rightarrow> nat \<Rightarrow> 16 word \<Rightarrow> numeric_external option" where
  "from_unsigned magnitude sign scale dscale =
     (let nweight = decimal_digit_count magnitude;
          dweight = int nweight - int scale - 1;
          weight = group_weight dweight;
          scale_padding = scale_padding_of nweight dweight
      in case fill_digits scale_padding magnitude (scale_padding = 0) 0 (replicate max_ndigits 0) of
           None \<Rightarrow> None
         | Some (ndigits, digits) \<Rightarrow>
             let compact = drop (max_ndigits - ndigits) digits
                   @ replicate (max_ndigits - ndigits) 0
             in Some \<lparr> ext_ndigits = word_of_nat ndigits, ext_weight = word_of_int weight,
                       ext_sign = sign, ext_dscale = dscale, ext_digits = compact \<rparr>)"

definition from_decimal128 :: "int \<Rightarrow> nat \<Rightarrow> numeric_external option" where
  "from_decimal128 unscaled scale =
     (let dscale = word_of_nat scale
      in if unscaled = 0
         then Some \<lparr> ext_ndigits = 0, ext_weight = 0, ext_sign = numeric_pos, ext_dscale = dscale,
                     ext_digits = replicate max_ndigits 0 \<rparr>
         else let (sign, magnitude) =
                (if unscaled < 0 then (numeric_neg, nat (- unscaled)) else (numeric_pos, nat unscaled))
              in from_unsigned magnitude sign scale dscale)"

section \<open>The wire form\<close>

definition to_be16 :: "16 word \<Rightarrow> 8 word list" where
  "to_be16 w = [ucast (drop_bit 8 w), ucast w]"

definition from_be16 :: "8 word \<Rightarrow> 8 word \<Rightarrow> 16 word" where
  "from_be16 a b = push_bit 8 (ucast a) OR ucast b"

definition wire_byte_len :: "numeric_external \<Rightarrow> nat" where
  "wire_byte_len e = 4 * 2 + unat (ext_ndigits e) * 2"

definition write_be_bytes :: "numeric_external \<Rightarrow> 8 word list" where
  "write_be_bytes e =
     to_be16 (ext_ndigits e) @ to_be16 (ext_weight e) @ to_be16 (ext_sign e) @ to_be16 (ext_dscale e)
       @ concat (map to_be16 (take (unat (ext_ndigits e)) (ext_digits e)))"

section \<open>The codec of one column\<close>

record decimal128_numeric_codec =
  codec_precision :: nat
  codec_scale :: nat

definition codec_new :: "nat \<Rightarrow> nat \<Rightarrow> decimal_codec_error + decimal128_numeric_codec" where
  "codec_new precision scale =
     (if precision = 0 \<or> max_dec_digits < precision then Inl (PrecisionOutOfRange precision)
      else if precision < scale then Inl (ScaleOutOfRange precision scale)
      else Inr \<lparr> codec_precision = precision, codec_scale = scale \<rparr>)"

definition codec_typmod :: "decimal128_numeric_codec \<Rightarrow> 32 word" where
  "codec_typmod c = numeric_typmod (word_of_nat (codec_precision c)) (word_of_nat (codec_scale c))"

definition value_out_of_range :: "decimal128_numeric_codec \<Rightarrow> string \<Rightarrow> decimal_codec_error" where
  "value_out_of_range c message = ValueOutOfRange (codec_precision c) (codec_scale c) message"

text \<open>The range of \<open>i128\<close>, checked.\<close>

definition checked_i128 :: "int \<Rightarrow> int option" where
  "checked_i128 v = (if - (2 ^ 127) \<le> v \<and> v < 2 ^ 127 then Some v else None)"

definition be_value :: "8 word list \<Rightarrow> int" where
  "be_value bytes = foldl (\<lambda>acc byte. acc * 256 + uint byte) 0 bytes"

text \<open>\<open>i128::from_be_bytes\<close> on sixteen bytes.\<close>

definition i128_from_be_bytes :: "8 word list \<Rightarrow> int" where
  "i128_from_be_bytes bytes = (let v = be_value bytes in if v < 2 ^ 127 then v else v - 2 ^ 128)"

definition signed_be_bytes_to_i128 ::
  "decimal128_numeric_codec \<Rightarrow> 8 word list \<Rightarrow> decimal_codec_error + int" where
  "signed_be_bytes_to_i128 c bytes =
     (if bytes = [] then Inr 0
      else let sign = (hd bytes AND 0x80 \<noteq> 0);
               sign_extension = (if sign then 0xFF else 0x00);
               retained = length bytes - 16
           in if 0 < retained
                 \<and> (\<not> list_all (\<lambda>byte. byte = sign_extension) (take retained bytes)
                    \<or> (bytes ! retained AND 0x80 \<noteq> 0) \<noteq> sign)
              then Inl (value_out_of_range c ''Avro decimal value cannot be represented as Decimal128'')
              else let source = drop retained bytes;
                       output_start = 16 - length source
                   in Inr (i128_from_be_bytes (replicate output_start sign_extension @ source)))"

text \<open>\<open>bytes.chunks_exact(2)\<close>, each chunk read as a big-endian \<open>u16\<close>.\<close>

fun digit_chunks :: "8 word list \<Rightarrow> 16 word list" where
  "digit_chunks (a # b # rest) = from_be16 a b # digit_chunks rest"
| "digit_chunks _ = []"

definition exceeds_decimal128 :: "decimal128_numeric_codec \<Rightarrow> decimal_codec_error" where
  "exceeds_decimal128 c = value_out_of_range c ''numeric value exceeds Decimal128''"

definition too_many_fractional_digits :: "decimal128_numeric_codec \<Rightarrow> decimal_codec_error" where
  "too_many_fractional_digits c =
     value_out_of_range c ''numeric value has more fractional digits than the decimal scale''"

text \<open>\<open>coefficient.checked_mul(radix).and_then(|value| value.checked_add(digit))\<close>.\<close>

definition checked_mul_add :: "int \<Rightarrow> int \<Rightarrow> int \<Rightarrow> int option" where
  "checked_mul_add coefficient radix digit =
     Option.bind (checked_i128 (coefficient * radix)) (\<lambda>value. checked_i128 (value + digit))"

primrec accumulate_digits :: "decimal128_numeric_codec \<Rightarrow> int \<Rightarrow> 16 word list \<Rightarrow> decimal_codec_error + int" where
  "accumulate_digits c coefficient [] = Inr coefficient"
| "accumulate_digits c coefficient (digit # digits) =
     (case checked_mul_add coefficient (int nbase) (uint digit) of
        None \<Rightarrow> Inl (exceeds_decimal128 c)
      | Some coefficient \<Rightarrow> accumulate_digits c coefficient digits)"

definition accumulate_numeric_digits ::
  "decimal128_numeric_codec \<Rightarrow> 8 word list \<Rightarrow> decimal_codec_error + int" where
  "accumulate_numeric_digits c bytes = accumulate_digits c 0 (digit_chunks bytes)"

primrec accumulate_scaled_loop ::
  "decimal128_numeric_codec \<Rightarrow> nat \<Rightarrow> nat \<Rightarrow> nat \<Rightarrow> int \<Rightarrow> 16 word list \<Rightarrow> decimal_codec_error + int" where
  "accumulate_scaled_loop c retained digit_places index coefficient [] = Inr coefficient"
| "accumulate_scaled_loop c retained digit_places index coefficient (w # digits) =
     (let digit = uint w
      in if retained \<le> index
         then if digit \<noteq> 0 then Inl (too_many_fractional_digits c)
              else accumulate_scaled_loop c retained digit_places (index + 1) coefficient digits
         else let last = (index + 1 = retained \<and> digit_places \<noteq> 0); divisor = 10 ^ digit_places
              in if last \<and> digit mod divisor \<noteq> 0 then Inl (too_many_fractional_digits c)
                 else let (radix, digit) =
                        (if last then (int nbase div divisor, digit div divisor) else (int nbase, digit))
                      in case checked_mul_add coefficient radix digit of
                           None \<Rightarrow> Inl (exceeds_decimal128 c)
                         | Some coefficient \<Rightarrow>
                             accumulate_scaled_loop c retained digit_places (index + 1) coefficient digits)"

definition accumulate_scaled_numeric_digits ::
  "decimal128_numeric_codec \<Rightarrow> 8 word list \<Rightarrow> nat \<Rightarrow> decimal_codec_error + int" where
  "accumulate_scaled_numeric_digits c bytes decimal_places =
     (let digits = digit_chunks bytes;
          group_places = decimal_places div dec_digits;
          digit_places = decimal_places mod dec_digits
      in if length digits < group_places \<or> length digits - group_places = 0
         then Inl (too_many_fractional_digits c)
         else accumulate_scaled_loop c (length digits - group_places) digit_places 0 0 digits)"

text \<open>\<open>10_i128.checked_pow\<close>.\<close>

definition checked_pow10 :: "nat \<Rightarrow> int option" where
  "checked_pow10 e = checked_i128 (10 ^ e)"

text \<open>\<open>None\<close>: the value is shorter than the header, and reading it panics.\<close>

definition numeric_send_to_i128 ::
  "decimal128_numeric_codec \<Rightarrow> 8 word list \<Rightarrow> (decimal_codec_error + int) option" where
  "numeric_send_to_i128 c bytes =
     (if length bytes < 8 then None
      else Some (
        let ndigits = unat (from_be16 (bytes ! 0) (bytes ! 1));
            weight = sint (from_be16 (bytes ! 2) (bytes ! 3));
            sign = from_be16 (bytes ! 4) (bytes ! 5)
        in if sign \<noteq> numeric_pos \<and> sign \<noteq> numeric_neg
           then Inl (value_out_of_range c
             ''PostgreSQL numeric value is not finite and cannot be represented as Decimal128'')
           else let exponent = (weight + 1 - int ndigits) * int dec_digits + int (codec_scale c)
           in case (if 0 \<le> exponent then
                      (case accumulate_numeric_digits c (drop 8 bytes) of
                         Inl e \<Rightarrow> Inl e
                       | Inr coefficient \<Rightarrow>
                           (case checked_pow10 (nat exponent) of
                              None \<Rightarrow> Inl (exceeds_decimal128 c)
                            | Some factor \<Rightarrow>
                                (case checked_i128 (coefficient * factor) of
                                   None \<Rightarrow> Inl (exceeds_decimal128 c)
                                 | Some unscaled \<Rightarrow> Inr unscaled)))
                    else accumulate_scaled_numeric_digits c (drop 8 bytes) (nat (- exponent))) of
                Inl e \<Rightarrow> Inl e
              | Inr unscaled \<Rightarrow>
                  (case (if sign = numeric_neg then checked_i128 (- unscaled) else Some unscaled) of
                     None \<Rightarrow> Inl (exceeds_decimal128 c)
                   | Some unscaled \<Rightarrow>
                       let limit = 10 ^ codec_precision c - 1
                       in if - limit \<le> unscaled \<and> unscaled \<le> limit then Inr unscaled
                          else Inl (value_out_of_range c ''numeric value exceeds decimal precision''))))"

section \<open>PostgreSQL's send and receive functions\<close>

text \<open>
  An error \<open>numeric_recv\<close> raises: its SQL state and message. The codec catches two states; any other
  error goes on to the caller.
\<close>

datatype sql_state = NumericValueOutOfRange | InvalidBinaryRepresentationState | OtherState nat

type_synonym pg_error = "sql_state \<times> string"

datatype 'a outcome =
    Returned "decimal_codec_error + 'a"
  | Raised pg_error
  | Panicked

type_synonym 'n numeric_recv = "8 word list \<Rightarrow> 32 word \<Rightarrow> pg_error + 'n"

definition numeric_recv_external ::
  "'n numeric_recv \<Rightarrow> numeric_external \<Rightarrow> 32 word \<Rightarrow> decimal128_numeric_codec \<Rightarrow> 'n outcome" where
  "numeric_recv_external recv external typmod codec =
     (case recv (write_be_bytes external) typmod of
        Inr n \<Rightarrow> Returned (Inr n)
      | Inl (code, message) \<Rightarrow>
          (case code of
             NumericValueOutOfRange \<Rightarrow> Returned (Inl (value_out_of_range codec message))
           | InvalidBinaryRepresentationState \<Rightarrow> Returned (Inl (InvalidBinaryRepresentation message))
           | OtherState _ \<Rightarrow> Raised (code, message)))"

definition decode_decimal :: "'n numeric_recv \<Rightarrow> decimal128_numeric_codec \<Rightarrow> int \<Rightarrow> 'n outcome" where
  "decode_decimal recv c unscaled =
     (case from_decimal128 unscaled (codec_scale c) of
        None \<Rightarrow> Panicked
      | Some external \<Rightarrow> numeric_recv_external recv external (codec_typmod c) c)"

definition decode_datum_with_typmod ::
  "'n numeric_recv \<Rightarrow> decimal128_numeric_codec \<Rightarrow> int \<Rightarrow> 32 word \<Rightarrow> 'n outcome" where
  "decode_datum_with_typmod recv c unscaled target_typmod =
     (case from_decimal128 unscaled (codec_scale c) of
        None \<Rightarrow> Panicked
      | Some external \<Rightarrow>
          (case recv (write_be_bytes external) target_typmod of
             Inr n \<Rightarrow> Returned (Inr n) | Inl e \<Rightarrow> Raised e))"

definition decode_datum :: "'n numeric_recv \<Rightarrow> decimal128_numeric_codec \<Rightarrow> int \<Rightarrow> 'n outcome" where
  "decode_datum recv c unscaled = decode_datum_with_typmod recv c unscaled (codec_typmod c)"

definition decode_signed_be_bytes ::
  "'n numeric_recv \<Rightarrow> decimal128_numeric_codec \<Rightarrow> 8 word list \<Rightarrow> 'n outcome" where
  "decode_signed_be_bytes recv c bytes =
     (case signed_be_bytes_to_i128 c bytes of
        Inl e \<Rightarrow> Returned (Inl e) | Inr unscaled \<Rightarrow> decode_decimal recv c unscaled)"

definition encode_bound_datum ::
  "('n \<Rightarrow> 8 word list) \<Rightarrow> decimal128_numeric_codec \<Rightarrow> 'n \<Rightarrow> int outcome" where
  "encode_bound_datum numeric_send c datum =
     (case numeric_send_to_i128 c (numeric_send datum) of None \<Rightarrow> Panicked | Some r \<Rightarrow> Returned r)"

section \<open>Comparison values\<close>

definition numeric_nan :: "16 word" where "numeric_nan = 0xC000"
definition numeric_pinf :: "16 word" where "numeric_pinf = 0xD000"
definition numeric_ninf :: "16 word" where "numeric_ninf = 0xF000"

datatype decimal128_comparison_value = Finite int | NegativeInfinity | PositiveInfinity | NaN

definition encode_comparison_datum ::
  "('n \<Rightarrow> 8 word list) \<Rightarrow> decimal128_numeric_codec \<Rightarrow> 'n \<Rightarrow> decimal128_comparison_value outcome" where
  "encode_comparison_datum numeric_send c datum =
     (let bytes = numeric_send datum
      in if length bytes < 6 then Panicked
         else let sign = from_be16 (bytes ! 4) (bytes ! 5)
         in if sign = numeric_pos \<or> sign = numeric_neg then
              (case numeric_send_to_i128 c bytes of
                 None \<Rightarrow> Panicked
               | Some (Inl e) \<Rightarrow> Returned (Inl e)
               | Some (Inr v) \<Rightarrow> Returned (Inr (Finite v)))
            else if sign = numeric_ninf then Returned (Inr NegativeInfinity)
            else if sign = numeric_pinf then Returned (Inr PositiveInfinity)
            else if sign = numeric_nan then Returned (Inr NaN)
            else Returned (Inl (value_out_of_range c
              ''PostgreSQL numeric value has an unknown binary sign code'')))"

section \<open>What the external form denotes\<close>

text \<open>
  PostgreSQL reads the groups as digits of base 10000, the first of weight \<open>weight\<close>. \<open>digits_value\<close> is
  the integer of all groups, \<open>numeric_value\<close> the rational number.
\<close>

definition digits_value :: "nat list \<Rightarrow> nat" where
  "digits_value ds = foldl (\<lambda>acc d. acc * 10000 + d) 0 ds"

definition numeric_value :: "bool \<Rightarrow> int \<Rightarrow> nat list \<Rightarrow> rat" where
  "numeric_value negative weight ds =
     (if negative then -1 else 1) * of_nat (digits_value ds)
       * 10000 powi (weight + 1 - int (length ds))"

definition external_groups :: "numeric_external \<Rightarrow> nat list" where
  "external_groups e = map unat (take (unat (ext_ndigits e)) (ext_digits e))"

definition external_value :: "numeric_external \<Rightarrow> rat" where
  "external_value e =
     numeric_value (ext_sign e = numeric_neg) (sint (ext_weight e)) (external_groups e)"

section \<open>Base-10000 groups\<close>

text \<open>The groups of a coefficient, most significant first, and of one that ends inside a group.\<close>

fun groups :: "nat \<Rightarrow> nat list" where
  "groups v = (if v = 0 then [] else groups (v div 10000) @ [v mod 10000])"

declare groups.simps [simp del]
declare decimal_digit_count.simps [simp del]
declare fill_digits.simps [simp del]

definition padded_groups :: "nat \<Rightarrow> nat \<Rightarrow> nat list" where
  "padded_groups p v =
     (if p = 0 \<or> v = 0 then groups v else groups (v div 10 ^ p) @ [v mod 10 ^ p * 10 ^ (4 - p)])"

lemma digits_value_simps [simp]:
  "digits_value [] = 0" "digits_value (ds @ [d]) = digits_value ds * 10000 + d"
  by (simp_all add: digits_value_def)

lemma groups_0 [simp]: "groups 0 = []"
  by (simp add: groups.simps)

lemma groups_Cons: "v \<noteq> 0 \<Longrightarrow> groups v = groups (v div 10000) @ [v mod 10000]"
  by (subst groups.simps) simp

lemma digits_value_groups: "digits_value (groups v) = v"
  by (induction v rule: groups.induct) (simp add: groups.simps)

lemma groups_below: "d \<in> set (groups v) \<Longrightarrow> d < 10000"
  by (induction v rule: groups.induct) (subst (asm) (2) groups.simps, auto split: if_splits)

lemma decimal_digit_count_0 [simp]: "decimal_digit_count 0 = 0"
  by (simp add: decimal_digit_count.simps)

lemma decimal_digit_count_pos [simp]: "v \<noteq> 0 \<Longrightarrow> 0 < decimal_digit_count v"
  by (subst decimal_digit_count.simps) simp

lemma decimal_digit_count_div: "decimal_digit_count (v div 10 ^ p) = decimal_digit_count v - p"
proof (induction p arbitrary: v)
  case (Suc p)
  have "v div 10 ^ Suc p = v div 10 div 10 ^ p" by (simp add: div_mult2_eq)
  then show ?case using Suc.IH [of "v div 10"]
    by (cases "v = 0") (simp_all add: decimal_digit_count.simps [of v])
qed simp

lemma decimal_digit_count_le: "decimal_digit_count v \<le> n \<longleftrightarrow> v < 10 ^ n"
proof (induction n arbitrary: v)
  case (Suc n)
  have "decimal_digit_count v \<le> Suc n \<longleftrightarrow> decimal_digit_count (v div 10) \<le> n"
    using decimal_digit_count_div [of v 1] by auto
  also have "\<dots> \<longleftrightarrow> v < 10 ^ Suc n" using Suc.IH [of "v div 10"]
    by (simp add: less_mult_imp_div_less div_less_iff_less_mult mult.commute)
  finally show ?case .
qed (metis decimal_digit_count_0 decimal_digit_count_pos le_zero_eq less_one neq0_conv power_0)

lemma length_groups: "length (groups v) = (decimal_digit_count v + 3) div 4"
proof (induction v rule: groups.induct)
  case (1 v)
  have e: "decimal_digit_count (v div 10000) = decimal_digit_count v - 4"
    using decimal_digit_count_div [of v 4] by simp
  show ?case
  proof (cases "v = 0")
    case False
    then have "0 < decimal_digit_count v" by simp
    then consider "4 \<le> decimal_digit_count v" | "decimal_digit_count v = 1"
      | "decimal_digit_count v = 2" | "decimal_digit_count v = 3" by linarith
    then have "Suc ((decimal_digit_count v - 4 + 3) div 4) = (decimal_digit_count v + 3) div 4"
      by cases (linarith, simp_all)
    with 1 [OF False] False e show ?thesis by (simp add: groups_Cons)
  qed simp
qed

lemma digits_value_padded:
  assumes "p < 4"
  shows "digits_value (padded_groups p v) = v * 10 ^ (if p = 0 then 0 else 4 - p)"
proof (cases "p = 0 \<or> v = 0")
  case False
  have q: "10000 = (10::nat) ^ p * 10 ^ (4 - p)" using assms by (simp flip: power_add)
  have "v div 10 ^ p * 10000 + v mod 10 ^ p * 10 ^ (4 - p)
      = (v div 10 ^ p * 10 ^ p + v mod 10 ^ p) * 10 ^ (4 - p)"
    by (simp only: q add_mult_distrib mult.assoc)
  with False show ?thesis by (simp add: padded_groups_def digits_value_groups div_mult_mod_eq del: add_mult_distrib)
qed (auto simp: padded_groups_def digits_value_groups)

lemma padded_below:
  assumes "p < 4" "d \<in> set (padded_groups p v)"
  shows "d < 10000"
proof -
  have "v mod 10 ^ p * 10 ^ (4 - p) < 10 ^ p * 10 ^ (4 - p)" by simp
  also have "\<dots> = 10000" using assms(1) by (simp flip: power_add)
  finally show ?thesis using assms(2) by (auto simp: padded_groups_def dest: groups_below split: if_splits)
qed

lemma length_padded:
  "v \<noteq> 0 \<Longrightarrow> p < 4 \<Longrightarrow> length (padded_groups p v)
     = (if p = 0 then (decimal_digit_count v + 3) div 4 else 1 + (decimal_digit_count v - p + 3) div 4)"
  by (simp add: padded_groups_def length_groups decimal_digit_count_div)

section \<open>The fill loop\<close>

lemma fill_digits_full: "v \<noteq> 0 \<Longrightarrow> max_ndigits \<le> n \<Longrightarrow> fill_digits p v b n ds = None"
  by (subst fill_digits.simps) (simp add: Let_def split_def)

lemma fill_digits_group:
  assumes "v \<noteq> 0" "n < max_ndigits"
  shows "fill_digits p v True n ds
    = fill_digits p (v div 10000) True (n + 1) (ds[max_ndigits - (n + 1) := word_of_nat (v mod 10000)])"
proof -
  have "v - v div 10000 * 10000 = v mod 10000" by (simp add: minus_div_mult_eq_mod)
  with assms show ?thesis
    by (subst fill_digits.simps) (simp add: Let_def nbase_def del: of_nat_diff)
qed

lemma fill_digits_pad:
  assumes "v \<noteq> 0" "n < max_ndigits"
  shows "fill_digits p v False n ds = fill_digits p (v div 10 ^ p) True (n + 1)
     (ds[max_ndigits - (n + 1) := word_of_nat (v mod 10 ^ p * 10 ^ (4 - p))])"
proof -
  have "v - v div 10 ^ p * 10 ^ p = v mod 10 ^ p" by (simp add: minus_div_mult_eq_mod)
  with assms show ?thesis
    by (subst fill_digits.simps) (simp add: Let_def dec_digits_def del: of_nat_diff)
qed

lemma fill_digits_groups:
  assumes "length ds = max_ndigits" "n \<le> max_ndigits"
  shows "fill_digits p v True n ds =
    (if n + length (groups v) \<le> max_ndigits
     then Some (n + length (groups v),
            take (max_ndigits - (n + length (groups v))) ds @ map word_of_nat (groups v)
              @ drop (max_ndigits - n) ds)
     else None)"
  using assms
proof (induction v arbitrary: n ds rule: groups.induct)
  case (1 v)
  consider "v = 0" | "v \<noteq> 0" "n < max_ndigits" | "v \<noteq> 0" "n = max_ndigits" using 1 by linarith
  then show ?case
  proof cases
    case 2
    let ?i = "max_ndigits - (n + 1)"
    have i: "?i < length ds" using 2 1 by simp
    have d: "drop ?i (ds[?i := w]) = w # drop (max_ndigits - n) ds" for w
      using i 2 by (simp add: drop_update_swap Suc_diff_Suc flip: Cons_nth_drop_Suc)
    show ?thesis using 1(1) [OF 2(1), of "ds[?i := word_of_nat (v mod 10000)]" "n + 1"] 1(2) 2 d
      by (simp add: fill_digits_group groups_Cons)
  qed (use 1 in \<open>simp_all add: fill_digits.simps fill_digits_full groups_Cons\<close>)
qed

lemma fill_digits_padded:
  assumes "p < 4"
  shows "fill_digits p v (p = 0) 0 (replicate max_ndigits 0) =
    (if length (padded_groups p v) \<le> max_ndigits
     then Some (length (padded_groups p v),
            replicate (max_ndigits - length (padded_groups p v)) 0 @ map word_of_nat (padded_groups p v))
     else None)"
proof (cases "p = 0 \<or> v = 0")
  case True
  then show ?thesis
    by (cases "v = 0") (simp add: fill_digits.simps padded_groups_def,
        simp add: fill_digits_groups padded_groups_def)
next
  case False
  let ?ds = "(replicate max_ndigits 0)[max_ndigits - 1 := word_of_nat (v mod 10 ^ p * 10 ^ (4 - p))] :: 16 word list"
  have mx: "max_ndigits = 10" by (simp add: max_ndigits_def max_dec_digits_def dec_digits_def)
  have d: "drop 9 ((replicate 10 0)[9 := w]) = [w]" for w :: "16 word"
    by (simp add: numeral_eq_Suc)
  have t: "take (max_ndigits - (1 + k)) ?ds = replicate (max_ndigits - (1 + k)) 0" for k
    by simp
  have "fill_digits p v False 0 (replicate max_ndigits 0) = fill_digits p (v div 10 ^ p) True 1 ?ds"
    using False by (simp add: fill_digits_pad mx)
  with False show ?thesis
    by (simp add: fill_digits_groups mx padded_groups_def d t [unfolded mx])
qed

section \<open>The external form is exact\<close>

lemma group_weight_eq: "group_weight dweight + 1 = - ((- dweight - 1) div 4)"
proof -
  have "(dweight + 4) div 4 = - ((- dweight - 1) div 4)" by linarith
  then show ?thesis by (simp add: group_weight_def dec_digits_def)
qed

lemma scale_padding_eq: "scale_padding_of n (int n - int scale - 1) = scale mod 4"
proof -
  define g where "g = group_weight (int n - int scale - 1)"
  have "(g + 1) * 4 - (int n - int scale - 1 + 1) + int n = int scale + (g + 1) * 4" by simp
  then have "((g + 1) * 4 - (int n - int scale - 1 + 1) + int n) mod 4 = int (scale mod 4)"
    by (simp only: mod_mult_self1 zmod_int of_nat_numeral)
  then show ?thesis by (simp add: scale_padding_of_def dec_digits_def Let_def flip: g_def)
qed

lemma ceil_groups:
  assumes "p < 4"
  shows "int ((n - p + 3) div 4) = - ((int p - int n) div 4)"
proof (cases "p \<le> n")
  case True
  then obtain m where "n = p + m" using le_iff_add by blast
  moreover have "int ((m + 3) div 4) = - ((- int m) div 4)" by linarith
  ultimately show ?thesis by simp
next
  case False
  then have "(int p - int n) div 4 = 0" using assms by simp
  with False show ?thesis by simp
qed

lemma fraction_groups: "(scale + 3) div 4 = scale div 4 + (if scale mod 4 = 0 then 0 else 1::nat)"
proof -
  define k p where "k = scale div 4" and "p = scale mod 4"
  have p: "p < 4" and s: "scale = 4 * k + p" by (simp_all add: k_def p_def)
  have "(scale + 3) div 4 = k + (if p = 0 then 0 else 1)"
    using p unfolding s by (cases "p = 0") auto
  then show ?thesis by (simp add: k_def p_def)
qed

lemma padded_length_weight:
  assumes "v \<noteq> 0"
  shows "int (length (padded_groups (scale mod 4) v))
    = group_weight (int (decimal_digit_count v) - int scale - 1) + 1 + int ((scale + 3) div 4)"
proof -
  define n k p where "n = decimal_digit_count v" "k = scale div 4" "p = scale mod 4"
  note defs = n_k_p_def
  have p: "p < 4" and s: "scale = 4 * k + p" by (simp_all add: defs)
  have "- (int n - int scale - 1) - 1 = (int p - int n) + int k * 4" by (simp add: s)
  then have w: "group_weight (int n - int scale - 1) + 1 = - ((int p - int n) div 4) - int k"
    unfolding group_weight_eq by simp
  have c: "int ((scale + 3) div 4) = int k + (if p = 0 then 0 else 1)"
    by (simp add: fraction_groups defs)
  show ?thesis unfolding w [unfolded defs(1)] c
    using assms p ceil_groups [OF p, of n] ceil_groups [of 0 n]
    by (simp add: length_padded flip: defs)
qed

lemma padded_value:
  assumes "v \<noteq> 0"
  shows "of_nat (digits_value (padded_groups (scale mod 4) v))
      * (10000::rat) powi (group_weight (int (decimal_digit_count v) - int scale - 1) + 1
          - int (length (padded_groups (scale mod 4) v)))
    = of_nat v / 10 ^ scale"
proof -
  define c q where "c = (scale + 3) div 4" and "q = (if scale mod 4 = 0 then 0 else 4 - scale mod 4)"
  have "p < 4 \<Longrightarrow> 4 * k + p = s
      \<Longrightarrow> s + (if p = 0 then 0 else 4 - p) = 4 * (k + (if p = 0 then 0 else 1))" for k p s :: nat by auto
  from this [of "scale mod 4" "scale div 4" scale] have "scale + q = 4 * c"
    unfolding c_def q_def fraction_groups by simp
  then have e: "(10000::rat) ^ c = 10 ^ scale * 10 ^ q"
    by (simp flip: power_add power_mult add: power_mult)
  have k: "(10000::rat) powi (- int c) = 1 / (10 ^ scale * 10 ^ q)"
    by (simp add: power_int_minus divide_inverse e)
  have w: "x + 1 - (x + 1 + int c) = - int c" for x by simp
  show ?thesis unfolding padded_length_weight [OF assms] c_def [symmetric] w k
    by (simp add: digits_value_padded flip: q_def)
qed

lemma groups_eq_Nil [simp]: "groups v = [] \<longleftrightarrow> v = 0"
  by (cases "v = 0") (simp_all add: groups_Cons)

lemma hd_groups: "v \<noteq> 0 \<Longrightarrow> 0 < hd (groups v)"
proof (induction v rule: groups.induct)
  case (1 v)
  show ?case
  proof (cases "v div 10000 = 0")
    case True
    with 1(2) show ?thesis by (simp add: groups_Cons [OF 1(2)])
  next
    case False
    then show ?thesis using 1(1) [OF 1(2) False] unfolding groups_Cons [OF 1(2)]
      by (simp add: hd_append)
  qed
qed

lemma hd_padded: "v \<noteq> 0 \<Longrightarrow> padded_groups p v \<noteq> [] \<and> hd (padded_groups p v) \<noteq> 0"
  by (auto simp: padded_groups_def hd_append hd_groups div_eq_0_iff)

definition group_capacity :: "nat \<Rightarrow> nat" where
  "group_capacity scale = (if scale mod 4 = 0 then 40 else 36 + scale mod 4)"

lemma padded_fits:
  assumes "v \<noteq> 0"
  shows "length (padded_groups (scale mod 4) v) \<le> max_ndigits \<longleftrightarrow> v < 10 ^ group_capacity scale"
proof -
  have c: "(m + 3) div 4 \<le> k \<longleftrightarrow> m \<le> 4 * k" for m k :: nat by (rule iffI) linarith+
  have "length (padded_groups (scale mod 4) v) \<le> 10
      \<longleftrightarrow> decimal_digit_count v \<le> group_capacity scale"
    using assms c [of _ 10] c [of _ 9] by (simp add: length_padded group_capacity_def le_diff_conv)
  then show ?thesis
    by (simp add: decimal_digit_count_le max_ndigits_def max_dec_digits_def dec_digits_def)
qed

lemma from_unsigned_eq:
  assumes "v \<noteq> 0"
  shows "from_unsigned v sign scale dscale =
    (let gs = padded_groups (scale mod 4) v
     in if v < 10 ^ group_capacity scale
        then Some \<lparr> ext_ndigits = word_of_nat (length gs),
                    ext_weight = word_of_int (group_weight (int (decimal_digit_count v) - int scale - 1)),
                    ext_sign = sign, ext_dscale = dscale,
                    ext_digits = map word_of_nat gs @ replicate (max_ndigits - length gs) 0 \<rparr>
        else None)"
  by (simp add: from_unsigned_def Let_def scale_padding_eq fill_digits_padded
      padded_fits [OF assms, symmetric])

end
