(* ===== verification/Spec2Isabelle.thy ===== *)
theory Spec2Isabelle
  imports Prelude Savepoints Savepoint_Stack Row_Identity Row_Registry Data_Epoch Table_Definition
    Action_Log Visible_Delta Commit_Plan Log_Runs Table_State Managed_State Tx_Metadata Storage_Lifecycle Tx_Callbacks Catalog_Commit Wal_Redo Owner_Resources Pending_Cleanup
    Worker_Slot Worker_Store Worker_Runs Worker_Lifecycle Worker_Supervisor Numeric_Codec
begin

text \<open>
  LagoDB: verification of the transactional core and of the worker runtime.

  LagoDB is a set of PostgreSQL extensions that keep tables in Apache Iceberg format. An Iceberg
  table is a tree of immutable files; PostgreSQL contributes transactions, subtransactions, a
  catalog row per table and background workers. The code modelled here makes the two fit: what a
  transaction stages, what a reader inside it sees, what a savepoint takes back, what is published
  at commit, which files survive which outcome, and how background work is requested and run.

  \<^bold>\<open>How the parts interact.\<close> The executor marks rows with synthetic row identities and claims them in
  a row registry. Its writes become command-owned batches of data epochs in the action log of the
  table; the per-table state adds savepoint frames, the managed-table state adds local rebuilds, and
  the transaction metadata tracker keeps one such state per relation. At pre-commit the tracker
  commits each table: it replays the plan of the log on the newest metadata, writes new metadata
  files inside a metadata attempt of the storage registry and swaps the catalog row. Files written
  by the transaction are entries of the storage registry, local files also leave log records that a
  standby or crash recovery replays. Every component receives the events of transactions and
  subtransactions from the callback framework; deletion that must wait for the commit is handed to
  the resource-owner queue. Commits and DDL request background work, which the worker runtime of
  \<open>lagodb-base\<close> keeps in shared memory, and a supervisor, a coordinator per database and one process
  per worker carry out.

  \<^bold>\<open>Conventions.\<close> A struct is a record, an enum a datatype, a method a function of the same name
  (prefixed where two components share one). \<open>Result\<close> is a sum with the error on the left; a panic
  or failed assertion is an error value or \<open>None\<close>. Interior mutability is explicit state passing.
  Machine integers are words of the source's width or numbers with the overflow written out. Code
  outside the repository (PostgreSQL, iceberg-lite, the file system, the object store, the clock) is
  a record of functions every definition takes as an argument; what the proofs need of it is a named
  law in the statement that uses it, and a witness instantiates the record.

  \<^bold>\<open>The theories.\<close>

  \<^item> \<open>Prelude\<close>: results, errors (\<open>error.rs\<close>), saturating arithmetic, the state-and-error monad, and
    the shared facts on lists and maps.

  \<^item> \<open>Savepoints\<close> and \<open>Savepoint_Stack\<close>: the contract of a savepoint-aware component (locale
    \<open>savepoint_store\<close>), its two implementations (level-tagged entries, locale \<open>levelled_store\<close>; a
    stack of snapshots), refinement of the second (\<open>stack_refinement\<close>), and the consequence for whole
    trees of subtransactions: aborted ones never happened, released ones ran inline. The locales are
    interpreted in \<open>Table_State\<close>, \<open>Managed_State\<close>, \<open>Tx_Metadata\<close>, \<open>Storage_Lifecycle\<close> and
    \<open>Pending_Cleanup\<close>.

  \<^item> \<open>Row_Identity\<close> (\<open>write/row_identity.rs\<close>, \<open>table_am/modify/trigger_rows.rs\<close>, \<open>handles/tuple.rs\<close>):
    the codec of file ID and position in a \<open>ctid\<close>, at machine width; round trip and disjointness.

  \<^item> \<open>Row_Registry\<close> (\<open>write/registry.rs\<close>): file IDs and mutation claims; a row has one holder, a claim
    is refused exactly when another statement holds the row, claims follow savepoints.

  \<^item> \<open>Data_Epoch\<close>, \<open>Table_Definition\<close>, \<open>Action_Log\<close> (\<open>write/transaction/data_epoch.rs\<close>,
    \<open>properties.rs\<close>, \<open>action_log.rs\<close>): the staged changes of one table with all caches.
    \<open>Visible_Delta\<close> shows that every cached read equals the read without caches, and that this is
    the effect of exactly the commands before the reader's; \<open>Commit_Plan\<close> that replaying the plan
    has the effect of the whole log and that the files it gives up are unused; \<open>Log_Runs\<close> lifts both
    to every history of a log.

  \<^item> \<open>Table_State\<close> (\<open>table_state.rs\<close>), \<open>Managed_State\<close> (\<open>metadata_tracker/state.rs\<close>), \<open>Tx_Metadata\<close>
    (\<open>metadata_tracker/mod.rs\<close>): savepoint frames, rebuilt generations and the map of all tables;
    each satisfies the savepoint contract over its own operations, failed mutations leave no trace.

  \<^item> \<open>Storage_Resources\<close> and \<open>Storage_Lifecycle\<close> (\<open>storage/transaction_resources*\<close>): files and objects
    owned by a transaction; after an abort nothing is left that was not there before, unless the
    environment refused the deletion, and a commit keeps what it committed.

  \<^item> \<open>Metadata_Catalog\<close> (\<open>catalog/metadata_table.rs\<close>, \<open>metadata_table/rebuild.rs\<close>,
    \<open>catalog/write.rs\<close>) and \<open>Catalog_Commit\<close> (\<open>metadata_tracker/commit.rs\<close>): the catalog row and the
    optimistic commit; a lost race never overwrites, the retry loop ends after the configured number
    of attempts and discards the files of every failed one.

  \<^item> \<open>Wal_Records\<close>, \<open>Local_Files\<close>, \<open>Wal_Redo\<close> (\<open>local_file_wal/record.rs\<close>, \<open>rmgr.rs\<close>,
    \<open>storage/local.rs\<close>, \<open>lagodb-core/src/wal/*\<close>): byte layout with round trips, the writer, and
    replay, which rebuilds a file from its records or marks it as lost.

  \<^item> \<open>Tx_Callbacks\<close> (\<open>lagodb-core/src/transaction/mod.rs\<close>), \<open>Owner_Resources\<close> (\<open>resource.rs\<close> and
    \<open>resource/*\<close>), \<open>Pending_Cleanup\<close> (\<open>transaction/cleanup.rs\<close>, \<open>local_retirement*\<close>,
    \<open>post_commit_delete.rs\<close>): delivery of events, cleanup at the end of an owner, deletion only
    after the outcome is durable.

  \<^item> \<open>Worker_Slot\<close> (\<open>lagodb-base/src/worker/state/*\<close>, \<open>extension_worker/schedule.rs\<close>): the life of one
    worker as a step relation, its invariant, back-off and that a wake-up leads to a launch.
    \<open>Worker_Store\<close> and \<open>Worker_Runs\<close> (\<open>worker/store/*\<close>, \<open>worker/control.rs\<close>): all operations on shared
    memory and every interleaving of them; consistency, revocation by DROP, requests are not lost.
    \<open>Worker_Lifecycle\<close> (\<open>worker/lifecycle.rs\<close>): requests staged by a transaction.
    \<open>Worker_Supervisor\<close> (\<open>worker/scheduler.rs\<close>, \<open>supervisor.rs\<close>): the supervisor's queue and pass.

  \<^item> \<open>Numeric_Codec\<close> (\<open>lagodb-core/src/datum/numeric.rs\<close> and \<open>numeric/*.rs\<close>): decimal coefficients to
    and from PostgreSQL's base-10000 form.

  \<^bold>\<open>Bounds and termination.\<close> All functions are total. The retry loop of \<open>Catalog_Commit\<close> recurses on
  the attempts the settings allow, which is the source's own bound. The supervisor's start loop
  recurses on the length of its queue, the number of iterations the source takes. Loops over a stack
  or a list recurse on it. \<open>usize\<close> has 64 bits. The scan order of a PostgreSQL hash table and the
  iteration order of a Rust hash map are parameters or shown not to matter.

  \<^bold>\<open>Not modelled.\<close>

  \<^item> The table access method, foreign-data and custom-scan callbacks, planner hooks, COPY and utility
    hooks of \<open>lagodb-core\<close>, \<open>lagodb-iceberg\<close> and \<open>lagodb-base\<close>: they translate between PostgreSQL's C
    structures (plan trees, slots, parser nodes) and the components above; their meaning is that of
    PostgreSQL's executor and planner, which is not part of the repository.

  \<^item> Reading and converting data (\<open>lagodb-arrow\<close>, \<open>datum/*\<close> apart from what is listed above,
    \<open>lagodb-connectors\<close>): row conversion between Arrow arrays, JSON, Parquet and PostgreSQL datums,
    defined by those libraries.

  \<^item> Predicate translation and statistics (\<open>lagodb-iceberg/src/predicate\<close>, \<open>lagodb-core/src/expr\<close>)
    and the query engine (\<open>lagodb-query\<close>, \<open>query_host\<close>): compilation of plan trees to DataFusion.

  \<^item> Table options, storage profiles, volume configuration and credentials; object cleanup in SPI
    queries; foreign Iceberg tables and REST catalogs: configuration parsing, SQL text and network
    protocols.

  \<^item> Of the worker runtime: process setup, signals, the catalog of registrations and the SQL
    functions.

  \<^item> Borrow conflicts of \<open>RefCell\<close> (they cannot occur without re-entrancy) and memory exhaustion.
\<close>

end
